(* ===== verification/Prelude.thy ===== *)
theory Prelude
  imports Complex_Main "HOL-Library.Multiset" "HOL-Library.Word" "HOL-Library.AList" "HOL-Library.Monad_Syntax"
begin

text \<open>
  Shared vocabulary of the development: the names of the Go types the code uses, the rule
  collections, and the generic facts on lists, association lists and maps that the
  components need.

  A Go function that can panic returns \<open>'a go\<close>: \<open>None\<close> is the panic (a nil dereference,
  a slice out of range, \<open>log.Panic\<close>), \<open>Some r\<close> the normal return of \<open>r\<close>.
\<close>

type_synonym byte = "8 word"
type_synonym u64 = "64 word"
type_synonym addr = nat
type_synonym 'a go = "'a option"

named_theorems frame_simps "what an operation leaves unchanged"
named_theorems inv_intros "operations that keep an invariant"

section \<open>Lists\<close>

lemma distinct_append_swap: "distinct (xs @ ys @ zs) \<longleftrightarrow> distinct (ys @ xs @ zs)"
  by auto

lemma in_set_tlD: "x \<in> set (tl xs) \<Longrightarrow> x \<in> set xs"
  by (cases xs) auto

lemma set_take_drop_sub: "set (take n (drop m xs)) \<subseteq> set xs"
  by (meson order_trans set_drop_subset set_take_subset)

lemma take_drop_split:
  "n \<le> m \<Longrightarrow> take m xs = take n xs @ take (m - n) (drop n xs)"
  by (metis le_add_diff_inverse take_add)

section \<open>Association lists with distinct keys\<close>

text \<open>
  A Go map that the code iterates over is an association list: \<open>map_of\<close> looks a key up and
  \<open>AList.update\<close> stores, keeping the keys distinct.
\<close>

lemma alist_split:
  assumes "map_of al k = Some v"
  obtains l r where "al = l @ (k, v) # r" and "k \<notin> fst ` set l"
  using assms
proof (induction al arbitrary: thesis)
  case Nil
  then show ?case by simp
next
  case (Cons y ys)
  show ?case
  proof (cases "fst y = k")
    case True
    with Cons.prems(2) have "y # ys = [] @ (k, v) # ys" by (cases y) auto
    then show ?thesis by (rule Cons.prems(1)) simp
  next
    case False
    with Cons.prems(2) have "map_of ys k = Some v" by (cases y) auto
    then obtain l r where "ys = l @ (k, v) # r" "k \<notin> fst ` set l"
      using Cons.IH by blast
    with False have "y # ys = (y # l) @ (k, v) # r" "k \<notin> fst ` set (y # l)" by auto
    then show ?thesis by (rule Cons.prems(1))
  qed
qed

lemma alist_update_hit:
  "k \<notin> fst ` set l \<Longrightarrow> AList.update k w (l @ (k, v) # r) = l @ (k, w) # r"
  by (induction l) auto

lemma alist_update_miss: "k \<notin> fst ` set al \<Longrightarrow> AList.update k w al = al @ [(k, w)]"
  by (induction al) auto

lemma map_of_None_fst: "map_of al k = None \<longleftrightarrow> k \<notin> fst ` set al"
  by (induction al) auto

section \<open>Running a panicking operation over a list\<close>

fun foldM :: "('a \<Rightarrow> 's \<Rightarrow> 's go) \<Rightarrow> 'a list \<Rightarrow> 's \<Rightarrow> 's go" where
  "foldM f [] s = Some s"
| "foldM f (x # xs) s = (case f x s of None \<Rightarrow> None | Some s' \<Rightarrow> foldM f xs s')"

lemma foldM_append:
  "foldM f (xs @ ys) s = (case foldM f xs s of None \<Rightarrow> None | Some s' \<Rightarrow> foldM f ys s')"
  by (induction xs arbitrary: s) (auto split: option.splits)

text \<open>An invariant that every step keeps, and under which no step panics.\<close>

lemma foldM_invariant:
  assumes "I s" and "\<And>x s. x \<in> set xs \<Longrightarrow> I s \<Longrightarrow> \<exists>s'. f x s = Some s' \<and> I s'"
  shows "\<exists>s'. foldM f xs s = Some s' \<and> I s'"
  using assms
proof (induction xs arbitrary: s)
  case Nil
  then show ?case by simp
next
  case (Cons x xs)
  then obtain s1 where "f x s = Some s1" "I s1" by (meson list.set_intros(1))
  moreover have "\<exists>s'. foldM f xs s1 = Some s' \<and> I s'"
    using Cons.IH [OF \<open>I s1\<close>] Cons.prems(2) by (meson list.set_intros(2))
  ultimately show ?case by simp
qed

end
