(* ===== verification/Go_Time.thy ===== *)
theory Go_Time
  imports Prelude "HOL-Library.Log_Nat" "HOL-Library.Signed_Division"
begin

text \<open>
  The parts of Go's \<open>time\<close> package and of its \<open>float64\<close> arithmetic that the cache uses.
  A \<open>time.Duration\<close> is its number of nanoseconds, a \<open>time.Time\<close> its \<open>UnixNano\<close>; both are
  \<open>int\<close> here, and facts that depend on the \<open>int64\<close> range say so. A \<open>float64\<close> is the
  rational number it stands for, and \<open>f64\<close> rounds a rational to the nearest one (ties to
  even, 53 bits of precision; the code's values stay far from the exponent limits).
\<close>

type_synonym duration = int
type_synonym time = int
type_synonym float64 = rat

definition Second :: duration where "Second = 1000000000"
definition Minute :: duration where "Minute = 60 * Second"
definition Hour :: duration where "Hour = 60 * Minute"

section \<open>float64\<close>

definition round_half_even :: "rat \<Rightarrow> int" where
  "round_half_even x =
     (let f = \<lfloor>x\<rfloor>; d = x - of_int f
      in if d < 1 / 2 then f else if 1 / 2 < d then f + 1 else if even f then f else f + 1)"

text \<open>The binary exponent of a positive rational, \<open>2 powi e \<le> x < 2 powi (e + 1)\<close>.\<close>

definition ilog2 :: "rat \<Rightarrow> int" where
  "ilog2 x =
     (case quotient_of x of (p, q) \<Rightarrow>
        let e = bitlen p - bitlen q in if 2 powi e \<le> x then e else e - 1)"

definition f64 :: "rat \<Rightarrow> float64" where
  "f64 x =
     (if x = 0 then 0
      else let e = ilog2 \<bar>x\<bar> - 52 in of_int (round_half_even (x / 2 powi e)) * 2 powi e)"

text \<open>The conversion \<open>int64(x)\<close> of a float discards the fraction.\<close>

definition f64_to_int :: "float64 \<Rightarrow> int" where
  "f64_to_int x = (if 0 \<le> x then \<lfloor>x\<rfloor> else \<lceil>x\<rceil>)"

definition Seconds :: "duration \<Rightarrow> float64" where
  "Seconds d =
     f64 (f64 (of_int (d sdiv Second)) + f64 (f64 (of_int (d smod Second)) / f64 1000000000))"

lemma round_half_even_of_int [simp]: "round_half_even (of_int n) = n"
  by (simp add: round_half_even_def)

lemma ilog2_of_int_bound:
  assumes "0 < n" and "n < 2 ^ 53"
  shows "ilog2 (of_int n) \<le> 52"
proof -
  have q: "quotient_of (of_int n) = (n, 1)"
    by (metis quotient_of_int Rat.of_int_def)
  have "bitlen n \<le> 53"
    using assms by (subst bitlen_le_iff_power) auto
  then show ?thesis
    by (auto simp: ilog2_def q Let_def bitlen_def floorlog_def)
qed

lemma f64_of_int:
  assumes "\<bar>n\<bar> < 2 ^ 53"
  shows "f64 (of_int n) = of_int n"
proof (cases "n = 0")
  case True
  then show ?thesis by (simp add: f64_def)
next
  case False
  define e where "e = ilog2 \<bar>of_int n\<bar> - 52"
  have "ilog2 (of_int \<bar>n\<bar>) \<le> 52"
    using False assms by (intro ilog2_of_int_bound) auto
  then have e: "e \<le> 0" by (simp add: e_def)
  have "of_int n / 2 powi e = (of_int n * 2 ^ nat (- e) :: rat)"
    using e by (auto simp: power_int_def field_simps)
  also have "\<dots> = of_int (n * 2 ^ nat (- e))" by simp
  finally have quot: "of_int n / 2 powi e = (of_int (n * 2 ^ nat (- e)) :: rat)" .
  have "f64 (of_int n) = of_int (round_half_even (of_int n / 2 powi e)) * 2 powi e"
    using False by (simp add: f64_def e_def Let_def)
  also have "\<dots> = of_int n * (2 ^ nat (- e) * 2 powi e)"
    by (simp only: quot round_half_even_of_int) simp
  also have "\<dots> = of_int n"
    using e by (auto simp: power_int_def power_mult_distrib [symmetric])
  finally show ?thesis .
qed

lemma f64_0 [simp]: "f64 0 = 0"
  by (simp add: f64_def)

text \<open>A whole number of seconds survives the trip through \<open>float64\<close>.\<close>

lemma Seconds_whole:
  assumes "0 \<le> m" and "m < 2 ^ 53"
  shows "Seconds (m * Second) = of_int m"
proof -
  have "(m * Second) sdiv Second = m" and "(m * Second) smod Second = 0"
    using assms by (cases "m = 0";
        simp add: Second_def signed_divide_int_def signed_modulo_int_def sgn_if)+
  then show ?thesis
    using assms f64_of_int [of m] by (simp add: Seconds_def)
qed

lemma f64_to_int_of_int [simp]: "f64_to_int (of_int n) = n"
  by (simp add: f64_to_int_def)

end
