(* ===== verification/Entry.thy ===== *)
theory Entry
  imports Go_Time
begin

text \<open>
  \<open>lsm/kvsm/entry.go\<close>: the cells of the in-memory store and the pool they are recycled
  through. A cell lives at an address of a heap; \<open>prev\<close> and \<open>next\<close> are pointers to other
  cells. The value pointer \<open>p\<close> is an \<open>unsafe.Pointer\<close> to an \<open>interface{}\<close>: \<open>None\<close> is the
  nil pointer of a cell that was never written, \<open>Some None\<close> points to the nil interface
  (\<open>noContent\<close>), and \<open>Some (Some v)\<close> to the value \<open>v\<close>.
\<close>

record 'v entry =
  e_key :: "u64 option"
  e_expireAt :: time
  e_p :: "'v option option"
  e_prev :: "addr option"
  e_next :: "addr option"

type_synonym 'v heap = "addr \<Rightarrow> 'v entry"

text \<open>\<open>&entry{}\<close>, what the pool allocates when it is empty.\<close>

definition zero_entry :: "'v entry" where
  "zero_entry = \<lparr>e_key = None, e_expireAt = 0, e_p = None, e_prev = None, e_next = None\<rparr>"

definition entry_Expired :: "time \<Rightarrow> 'v entry \<Rightarrow> bool" where
  "entry_Expired now e \<longleftrightarrow> now > e_expireAt e"

definition entry_Value :: "'v option \<Rightarrow> 'v entry \<Rightarrow> 'v entry" where
  "entry_Value v e = e\<lparr>e_p := Some v\<rparr>"

definition entry_ValueReset :: "'v entry \<Rightarrow> 'v entry" where
  "entry_ValueReset e = e\<lparr>e_p := Some None\<rparr>"

text \<open>\<open>GetValue\<close> and \<open>SwapValue\<close> dereference the pointer, and panic when it is nil.\<close>

definition entry_GetValue :: "'v entry \<Rightarrow> 'v option go" where
  "entry_GetValue e = e_p e"

definition entry_SwapValue :: "'v option \<Rightarrow> 'v entry \<Rightarrow> ('v option \<times> 'v entry) go" where
  "entry_SwapValue v e =
     (let e' = e\<lparr>e_p := Some v\<rparr> in
      case e_p e of None \<Rightarrow> None | Some old \<Rightarrow> Some (old, e'))"

text \<open>What \<open>putEntry\<close> does to the cell before it goes back to the pool.\<close>

definition entry_clear :: "'v entry \<Rightarrow> 'v entry" where
  "entry_clear e =
     (entry_ValueReset e)\<lparr>e_prev := None, e_next := None, e_key := None, e_expireAt := 0\<rparr>"

section \<open>The pool of cells\<close>

text \<open>
  \<open>sync.Pool\<close> may hand out any cell that was put into it, or a new one: \<open>entryPool_Get\<close> is
  the relation between the pool and the cells it may return. Cells from \<open>fresh\<close> on have
  never been allocated.
\<close>

definition entryPool_Get :: "addr list \<Rightarrow> addr \<Rightarrow> addr \<Rightarrow> bool" where
  "entryPool_Get pool fresh a \<longleftrightarrow> a \<in> set pool \<or> a = fresh"

definition entryPool_rest :: "addr list \<Rightarrow> addr \<Rightarrow> addr list" where
  "entryPool_rest pool a = remove1 a pool"

definition putEntry :: "'v heap \<Rightarrow> addr list \<Rightarrow> addr \<Rightarrow> 'v heap \<times> addr list" where
  "putEntry h pool a = (h(a := entry_clear (h a)), a # pool)"

definition newEntry :: "'v heap \<Rightarrow> addr \<Rightarrow> 'v option \<Rightarrow> 'v heap" where
  "newEntry h a v = h(a := entry_Value v (h a))"

lemmas entry_ops_def =
  entry_Expired_def entry_Value_def entry_ValueReset_def entry_GetValue_def
  entry_SwapValue_def entry_clear_def zero_entry_def

end
