(* ===== verification/Linked_List.thy ===== *)
theory Linked_List
  imports Entry
begin

text \<open>
  \<open>lsm/kvsm/list.go\<close>: the doubly linked list that holds the entries of one TTL, in the
  order they expire. The list is a pair of pointers and a size; its cells are in the heap.
  \<open>ll_Add\<close> and \<open>ll_Remove\<close> return \<open>None\<close> where the code panics.

  \<open>ll_inv h el xs\<close> says that \<open>el\<close> holds exactly the cells \<open>xs\<close>, in order. The locale
  \<open>ttl_list\<close> is the contract the store relies on; it is interpreted by these functions.
\<close>

record linkedListTTL =
  l_root :: "addr option"
  l_last :: "addr option"
  l_size :: int

definition ll_empty :: linkedListTTL where
  "ll_empty = \<lparr>l_root = None, l_last = None, l_size = 0\<rparr>"

definition ll_Prev :: "'v heap \<Rightarrow> linkedListTTL \<Rightarrow> addr option \<Rightarrow> addr option" where
  "ll_Prev h el e = (case e of None \<Rightarrow> l_last el | Some a \<Rightarrow> e_prev (h a))"

definition ll_Next :: "'v heap \<Rightarrow> linkedListTTL \<Rightarrow> addr option \<Rightarrow> addr option" where
  "ll_Next h el e = (case e of None \<Rightarrow> l_root el | Some a \<Rightarrow> e_next (h a))"

definition ll_Len :: "linkedListTTL \<Rightarrow> int" where
  "ll_Len el = l_size el"

text \<open>Stores to one pointer field of one cell.\<close>

definition set_prev :: "addr \<Rightarrow> addr option \<Rightarrow> 'v heap \<Rightarrow> 'v heap" where
  "set_prev a p h = h(a := (h a)\<lparr>e_prev := p\<rparr>)"

definition set_next :: "addr \<Rightarrow> addr option \<Rightarrow> 'v heap \<Rightarrow> 'v heap" where
  "set_next a p h = h(a := (h a)\<lparr>e_next := p\<rparr>)"

definition ll_Add :: "'v heap \<Rightarrow> linkedListTTL \<Rightarrow> addr \<Rightarrow> ('v heap \<times> linkedListTTL) go" where
  "ll_Add h el e =
     (let el1 = el\<lparr>l_size := l_size el + 1\<rparr>; currLast = l_last el1 in
      if l_root el1 = None
      then Some (set_next e None (set_prev e None h), el1\<lparr>l_root := Some e, l_last := Some e\<rparr>)
      else case currLast of
          None \<Rightarrow> None
        | Some c \<Rightarrow>
            Some (set_next c (Some e) (set_next e None (set_prev e currLast h)),
                  el1\<lparr>l_last := Some e\<rparr>))"

definition ll_Replace ::
  "'v heap \<Rightarrow> linkedListTTL \<Rightarrow> addr \<Rightarrow> addr \<Rightarrow> 'v heap \<times> linkedListTTL" where
  "ll_Replace h el old new =
     (let h1 = set_prev new (e_prev (h old)) h;
          h2 = set_next new (e_next (h1 old)) h1;
          (h3, el3) = (case e_prev (h2 new) of
              None \<Rightarrow> (h2, el\<lparr>l_root := Some new\<rparr>)
            | Some p \<Rightarrow> (set_next p (Some new) h2, el))
      in case e_next (h3 new) of
           None \<Rightarrow> (h3, el3\<lparr>l_last := Some new\<rparr>)
         | Some n \<Rightarrow> (set_prev n (Some new) h3, el3))"

text \<open>The body of \<open>Remove\<close> after the size check; the deferred function runs after it.\<close>

definition ll_unlink :: "'v heap \<Rightarrow> linkedListTTL \<Rightarrow> addr \<Rightarrow> 'v heap \<times> linkedListTTL" where
  "ll_unlink h el e =
     (if l_size el = 0 then (h, el\<lparr>l_root := None, l_last := None\<rparr>)
      else if l_root el = Some e then (h, el\<lparr>l_root := e_next (h e)\<rparr>)
      else if l_last el = Some e
           then (let h1 = set_next e None h in (h1, el\<lparr>l_last := e_prev (h1 e)\<rparr>))
      else
        let l = e_prev (h e);
            r = e_next (h e);
            (h1, el1) = (case l of
                None \<Rightarrow> (h, el\<lparr>l_root := l\<rparr>)
              | Some a \<Rightarrow> (set_next a r h, el))
        in case r of
             None \<Rightarrow> (h1, el1\<lparr>l_last := l\<rparr>)
           | Some b \<Rightarrow> (set_prev b l h1, el1))"

definition ll_Remove :: "'v heap \<Rightarrow> linkedListTTL \<Rightarrow> addr \<Rightarrow> ('v heap \<times> linkedListTTL) go" where
  "ll_Remove h el e =
     (if l_size el = 0 then None
      else let (h', el') = ll_unlink h (el\<lparr>l_size := l_size el - 1\<rparr>) e
           in Some (set_next e None (set_prev e None h'), el'))"

section \<open>The cells a list holds\<close>

text \<open>
  \<open>fwd h r xs\<close>: following \<open>next\<close> from \<open>r\<close> visits exactly \<open>xs\<close> and ends in nil.
  \<open>bwd h xs\<close>: each cell of \<open>xs\<close> but the first points back to the one before it. The first
  cell's \<open>prev\<close> is left free: removing the root does not clear its successor's \<open>prev\<close>.
\<close>

fun fwd :: "'v heap \<Rightarrow> addr option \<Rightarrow> addr list \<Rightarrow> bool" where
  "fwd h r [] \<longleftrightarrow> r = None"
| "fwd h r (a # as) \<longleftrightarrow> r = Some a \<and> fwd h (e_next (h a)) as"

fun bwd :: "'v heap \<Rightarrow> addr list \<Rightarrow> bool" where
  "bwd h (a # b # as) \<longleftrightarrow> e_prev (h b) = Some a \<and> bwd h (b # as)"
| "bwd h _ \<longleftrightarrow> True"

definition ll_inv :: "'v heap \<Rightarrow> linkedListTTL \<Rightarrow> addr list \<Rightarrow> bool" where
  "ll_inv h el xs \<longleftrightarrow>
     distinct xs \<and> l_size el = int (length xs) \<and> fwd h (l_root el) xs \<and> bwd h xs \<and>
     l_last el = (if xs = [] then None else Some (last xs))"

text \<open>The cells a list holds, read off the heap.\<close>

fun chain :: "nat \<Rightarrow> 'v heap \<Rightarrow> addr option \<Rightarrow> addr list" where
  "chain (Suc n) h (Some a) = a # chain n h (e_next (h a))"
| "chain _ h _ = []"

definition ll_elems :: "'v heap \<Rightarrow> linkedListTTL \<Rightarrow> addr list" where
  "ll_elems h el = chain (nat (l_size el)) h (l_root el)"

lemma fwd_chain: "fwd h r xs \<Longrightarrow> chain (length xs) h r = xs"
  by (induction xs arbitrary: r) auto

lemma ll_inv_elems: "ll_inv h el xs \<Longrightarrow> ll_elems h el = xs"
  by (simp add: ll_inv_def ll_elems_def fwd_chain)

text \<open>The two predicates only read the pointer fields of the cells they name.\<close>

lemma fwd_cong:
  "(\<And>a. a \<in> set xs \<Longrightarrow> e_next (h' a) = e_next (h a)) \<Longrightarrow> fwd h' r xs = fwd h r xs"
  by (induction xs arbitrary: r) auto

lemma bwd_cong:
  "(\<And>a. a \<in> set (tl xs) \<Longrightarrow> e_prev (h' a) = e_prev (h a)) \<Longrightarrow> bwd h' xs = bwd h xs"
  by (induction h xs rule: bwd.induct) auto

lemma ll_inv_cong:
  assumes "\<And>a. a \<in> set xs \<Longrightarrow> e_next (h' a) = e_next (h a) \<and> e_prev (h' a) = e_prev (h a)"
  shows "ll_inv h' el xs = ll_inv h el xs"
proof -
  have "fwd h' (l_root el) xs = fwd h (l_root el) xs"
    using assms by (intro fwd_cong) blast
  moreover have "bwd h' xs = bwd h xs"
    using assms by (cases xs) (auto intro!: bwd_cong)
  ultimately show ?thesis by (simp add: ll_inv_def)
qed

lemma set_ptr_fields [simp]:
  "e_next (set_prev a p h b) = e_next (h b)"
  "e_prev (set_next a p h b) = e_prev (h b)"
  "e_next (set_next a p h b) = (if b = a then p else e_next (h b))"
  "e_prev (set_prev a p h b) = (if b = a then p else e_prev (h b))"
  by (auto simp: set_prev_def set_next_def)

lemma set_ptr_data [frame_simps]:
  "e_key (set_prev a p h b) = e_key (h b)" "e_key (set_next a p h b) = e_key (h b)"
  "e_expireAt (set_prev a p h b) = e_expireAt (h b)"
  "e_expireAt (set_next a p h b) = e_expireAt (h b)"
  "e_p (set_prev a p h b) = e_p (h b)" "e_p (set_next a p h b) = e_p (h b)"
  by (auto simp: set_prev_def set_next_def)

lemma set_ptr_other [frame_simps]:
  "b \<noteq> a \<Longrightarrow> set_prev a p h b = h b" "b \<noteq> a \<Longrightarrow> set_next a p h b = h b"
  by (auto simp: set_prev_def set_next_def)

lemma fwd_set_prev [simp]: "fwd (set_prev a p h) r xs = fwd h r xs"
  by (rule fwd_cong) simp

lemma bwd_set_next [simp]: "bwd (set_next a p h) xs = bwd h xs"
  by (rule bwd_cong) simp

lemma fwd_set_next [simp]: "a \<notin> set xs \<Longrightarrow> fwd (set_next a p h) r xs = fwd h r xs"
  by (rule fwd_cong) auto

lemma bwd_set_prev [simp]: "a \<notin> set (tl xs) \<Longrightarrow> bwd (set_prev a p h) xs = bwd h xs"
  by (rule bwd_cong) auto

text \<open>Linking a cell behind the last one.\<close>

lemma fwd_snoc:
  assumes "fwd h r xs" "xs \<noteq> []" "distinct xs" "a \<notin> set xs" "e_next (h a) = None"
  shows "fwd (set_next (last xs) (Some a) h) r (xs @ [a])"
  using assms
proof (induction xs arbitrary: r)
  case Nil
  then show ?case by simp
next
  case (Cons x xs)
  then show ?case
    by (cases "xs = []") auto
qed

text \<open>Linking past a cell in the middle.\<close>

lemma fwd_unlink:
  assumes "fwd h r (ys @ a # zs)" "ys \<noteq> []" "distinct (ys @ a # zs)"
  shows "fwd (set_next (last ys) (e_next (h a)) h) r (ys @ zs)"
  using assms
proof (induction ys arbitrary: r)
  case Nil
  then show ?case by simp
next
  case (Cons y ys)
  then show ?case
    by (cases "ys = []") auto
qed

lemma fwd_next:
  "fwd h r (ys @ a # zs) \<Longrightarrow> e_next (h a) = (case zs of [] \<Rightarrow> None | z # _ \<Rightarrow> Some z)"
  by (induction ys arbitrary: r) (auto split: list.splits)

lemma fwd_unique: "fwd h r xs \<Longrightarrow> fwd h r ys \<Longrightarrow> xs = ys"
proof (induction xs arbitrary: r ys)
  case Nil
  then show ?case by (cases ys) auto
next
  case (Cons x xs)
  then show ?case by (cases ys) auto
qed

lemma fwd_same_next:
  assumes "fwd h r xs" and "\<And>b. b \<in> set xs \<Longrightarrow> e_next (h' b) = e_next (h b)"
  shows "fwd h' r xs"
  using assms(1) fwd_cong [of xs h' h r, OF assms(2)] by blast

lemma bwd_append:
  "bwd h (xs @ y # ys) \<longleftrightarrow>
     bwd h xs \<and> (xs \<noteq> [] \<longrightarrow> e_prev (h y) = Some (last xs)) \<and> bwd h (y # ys)"
  by (induction h xs rule: bwd.induct) auto

section \<open>The operations on a well-formed list\<close>

lemma ll_inv_empty: "ll_inv h ll_empty []"
  by (simp add: ll_inv_def ll_empty_def)

lemma ll_inv_root: "ll_inv h el xs \<Longrightarrow> l_root el = (case xs of [] \<Rightarrow> None | x # _ \<Rightarrow> Some x)"
  by (cases xs) (auto simp: ll_inv_def)

lemma ll_Next_None: "ll_inv h el xs \<Longrightarrow> ll_Next h el None = (case xs of [] \<Rightarrow> None | x # _ \<Rightarrow> Some x)"
  by (simp add: ll_Next_def ll_inv_root)

lemma ll_Len_inv: "ll_inv h el xs \<Longrightarrow> ll_Len el = int (length xs)"
  by (simp add: ll_Len_def ll_inv_def)

text \<open>\<open>Add\<close> appends: the new cell is the last to expire.\<close>

lemma ll_Add_ok:
  assumes inv: "ll_inv h el xs" and new: "a \<notin> set xs"
  shows "\<exists>h' el'. ll_Add h el a = Some (h', el') \<and> ll_inv h' el' (xs @ [a])"
proof (cases "xs = []")
  case True
  with inv show ?thesis
    by (auto simp: ll_Add_def ll_inv_def Let_def)
next
  case False
  define c where "c = last xs"
  have c: "c \<in> set xs" "c \<noteq> a" using False new by (auto simp: c_def)
  define h1 where "h1 = set_next a None (set_prev a (Some c) h)"
  define el1 where "el1 = el\<lparr>l_size := l_size el + 1, l_last := Some a\<rparr>"
  have add: "ll_Add h el a = Some (set_next c (Some a) h1, el1)"
    using inv False by (cases xs) (auto simp: ll_Add_def ll_inv_def Let_def c_def h1_def el1_def)
  have "fwd h1 (l_root el) xs" and "e_next (h1 a) = None"
    using inv new by (auto simp: ll_inv_def h1_def)
  then have fw: "fwd (set_next c (Some a) h1) (l_root el) (xs @ [a])"
    using inv new False unfolding c_def by (intro fwd_snoc) (auto simp: ll_inv_def)
  have "bwd (set_prev a (Some c) h) xs"
    using inv new by (metis bwd_set_prev list.set_sel(2) tl_Nil ll_inv_def)
  then have "bwd (set_prev a (Some c) h) (xs @ [a])"
    using False by (simp add: bwd_append c_def)
  then show ?thesis
    using inv new add fw by (auto simp: ll_inv_def h1_def el1_def)
qed

text \<open>
  \<open>Remove\<close> of the root, the only removal the store performs, and of a cell in the middle.
\<close>

lemma ll_Remove_root:
  assumes "ll_inv h el (a # xs)"
  shows "\<exists>h' el'. ll_Remove h el a = Some (h', el') \<and> ll_inv h' el' xs"
proof (cases xs)
  case Nil
  with assms show ?thesis
    by (auto simp: ll_inv_def ll_Remove_def ll_unlink_def)
next
  case (Cons b ys)
  have "bwd (set_prev a None h) xs"
    using assms Cons by (auto simp: ll_inv_def intro!: bwd_set_prev [THEN iffD2])
  with assms Cons show ?thesis
    by (auto simp: ll_inv_def ll_Remove_def ll_unlink_def)
qed

lemma ll_Remove_middle:
  assumes inv: "ll_inv h el (ys @ a # zs)" and ne: "ys \<noteq> []" "zs \<noteq> []"
  shows "\<exists>h' el'. ll_Remove h el a = Some (h', el') \<and> ll_inv h' el' (ys @ zs)"
proof -
  define l where "l = last ys"
  obtain r zs' where zs: "zs = r # zs'" using ne by (cases zs) auto
  have dist: "distinct (ys @ a # zs)" using inv by (simp add: ll_inv_def)
  have nxt: "e_next (h a) = Some r" and prv: "e_prev (h a) = Some l"
    using inv ne fwd_next [of h _ ys a zs] by (auto simp: ll_inv_def bwd_append zs l_def)
  have la: "l \<in> set ys" "l \<noteq> a" "l \<noteq> r" "r \<noteq> a" using ne dist zs by (auto simp: l_def)
  define h' where "h' = set_next a None (set_prev a None (set_prev r (Some l) (set_next l (Some r) h)))"
  have root: "l_root el \<noteq> Some a" and lst: "l_last el \<noteq> Some a" and size: "l_size el > 1"
    using inv ne dist by (cases ys; auto simp: ll_inv_def zs)+
  have rem: "ll_Remove h el a = Some (h', el\<lparr>l_size := l_size el - 1\<rparr>)"
    using root lst size by (simp add: ll_Remove_def ll_unlink_def h'_def nxt prv Let_def)
  have "fwd (set_next l (Some r) h) (l_root el) (ys @ zs)"
    using fwd_unlink [of h "l_root el" ys a zs] inv ne dist nxt by (simp add: ll_inv_def l_def)
  then have fw: "fwd h' (l_root el) (ys @ zs)"
    by (rule fwd_same_next) (use dist in \<open>auto simp: h'_def\<close>)
  have "bwd h ys" "bwd h zs"
    using inv by (auto simp: ll_inv_def bwd_append zs)
  then have "bwd h' ys" "bwd h' zs" "e_prev (h' r) = Some l"
    using dist la unfolding h'_def
    by (auto simp: zs intro!: bwd_set_prev [THEN iffD2]
        dest: in_set_tlD)
  then have bw: "bwd h' (ys @ zs)"
    by (simp add: zs bwd_append l_def)
  show ?thesis
    using rem fw bw inv ne by (auto simp: ll_inv_def)
qed

text \<open>
  \<open>Remove\<close> of the last of several cells moves \<open>last\<close> back but leaves the new last cell's
  \<open>next\<close> in place: a forward traversal still reaches the removed cell.
\<close>

lemma ll_Remove_last:
  assumes inv: "ll_inv h el (xs @ [a])" and ne: "xs \<noteq> []"
  shows "\<exists>h' el'. ll_Remove h el a = Some (h', el') \<and> l_size el' = int (length xs) \<and>
           l_last el' = Some (last xs) \<and> fwd h' (l_root el') (xs @ [a])"
proof -
  have dist: "distinct (xs @ [a])" using inv by (simp add: ll_inv_def)
  have prv: "e_prev (h a) = Some (last xs)"
    using inv ne by (simp add: ll_inv_def bwd_append)
  have root: "l_root el \<noteq> Some a" "l_last el = Some a" "l_size el > 1"
    using inv ne dist by (cases xs; auto simp: ll_inv_def)+
  have "fwd (set_next a None (set_prev a None (set_next a None h))) (l_root el) (xs @ [a])"
    by (rule fwd_same_next [of h])
      (use inv fwd_next [of h _ xs a "[]"] in \<open>auto simp: ll_inv_def\<close>)
  then show ?thesis
    using inv root prv
    by (auto simp: ll_Remove_def ll_unlink_def ll_inv_def Let_def)
qed

text \<open>
  \<open>Replace\<close> puts a new cell in the place of an old one. It trusts \<open>prev\<close> of the old cell, so
  at the root it needs that pointer to be nil.
\<close>

lemma fwd_replace:
  assumes "fwd h r (ys @ old # zs)" "distinct (ys @ old # zs)"
    and "\<And>b. b \<in> set ys \<Longrightarrow> b \<noteq> last ys \<Longrightarrow> e_next (h' b) = e_next (h b)"
    and "ys \<noteq> [] \<Longrightarrow> e_next (h' (last ys)) = Some new"
    and "e_next (h' new) = e_next (h old)"
    and "\<And>b. b \<in> set zs \<Longrightarrow> e_next (h' b) = e_next (h b)"
  shows "fwd h' (if ys = [] then Some new else r) (ys @ new # zs)"
  using assms
proof (induction ys arbitrary: r)
  case Nil
  then show ?case by (auto intro: fwd_same_next)
next
  case (Cons y ys)
  show ?case
  proof (cases "ys = []")
    case True
    with Cons.prems show ?thesis by (auto intro: fwd_same_next)
  next
    case False
    then have "y \<noteq> last ys" using Cons.prems(2) last_in_set [of ys] by auto
    then have "e_next (h' y) = e_next (h y)" using Cons.prems(3) [of y] False by simp
    moreover have "fwd h' (e_next (h y)) (ys @ new # zs)"
      using Cons.IH [of "e_next (h y)"] Cons.prems False by simp
    ultimately show ?thesis using Cons.prems(1) by simp
  qed
qed

lemma ll_Replace_ok:
  assumes inv: "ll_inv h el (ys @ old # zs)" and new: "new \<notin> set (ys @ old # zs)"
    and root: "ys = [] \<Longrightarrow> e_prev (h old) = None"
  shows "case ll_Replace h el old new of (h', el') \<Rightarrow> ll_inv h' el' (ys @ new # zs)"
proof -
  define h2 where "h2 = set_next new (e_next (h old)) (set_prev new (e_prev (h old)) h)"
  define h3 where "h3 = (if ys = [] then h2 else set_next (last ys) (Some new) h2)"
  define h' where "h' = (if zs = [] then h3 else set_prev (hd zs) (Some new) h3)"
  define el' where "el' = el\<lparr>l_root := (if ys = [] then Some new else l_root el),
      l_last := (if zs = [] then Some new else l_last el)\<rparr>"
  have dist: "distinct (ys @ old # zs)" and nold: "new \<noteq> old"
    using inv new by (auto simp: ll_inv_def)
  have mem: "ys \<noteq> [] \<Longrightarrow> last ys \<in> set ys" "zs \<noteq> [] \<Longrightarrow> hd zs \<in> set zs" by auto
  have nxt: "e_next (h old) = (if zs = [] then None else Some (hd zs))"
    using inv fwd_next [of h _ ys old zs] by (auto simp: ll_inv_def split: list.splits)
  have prv: "e_prev (h old) = (if ys = [] then None else Some (last ys))"
    using inv root by (auto simp: ll_inv_def bwd_append)
  have rep: "ll_Replace h el old new = (h', el')"
    using nold new mem nxt prv
    by (auto simp: ll_Replace_def Let_def h2_def h3_def h'_def el'_def)
  have disj: "ys \<noteq> [] \<Longrightarrow> last ys \<notin> set zs"
    using dist mem(1) by (metis disjoint_iff distinct_append list.set_intros(2))
  have en: "e_next (h' b) = (if ys \<noteq> [] \<and> b = last ys then Some new
      else if b = new then e_next (h old) else e_next (h b))" for b
    by (simp add: h'_def h3_def h2_def)
  have ep: "e_prev (h' b) = (if zs \<noteq> [] \<and> b = hd zs then Some new
      else if b = new then e_prev (h old) else e_prev (h b))" for b
    by (simp add: h'_def h3_def h2_def)
  have "fwd h (l_root el) (ys @ old # zs)" using inv by (simp add: ll_inv_def)
  then have "fwd h' (if ys = [] then Some new else l_root el) (ys @ new # zs)"
    by (rule fwd_replace [OF _ dist]) (use dist new mem disj in \<open>auto simp: en\<close>)
  then have fw: "fwd h' (l_root el') (ys @ new # zs)" by (simp add: el'_def)
  have "bwd h (ys @ old # zs)" using inv by (simp add: ll_inv_def)
  then have "bwd h ys" "bwd h zs" by (auto simp: bwd_append elim: bwd.elims)
  have "bwd h' ys = bwd h ys"
    by (rule bwd_cong) (use dist new mem in \<open>auto simp: ep dest!: in_set_tlD\<close>)
  moreover have "bwd h' zs = bwd h zs"
    by (rule bwd_cong) (use dist new in \<open>cases zs; auto simp: ep\<close>)
  moreover have "zs \<noteq> [] \<Longrightarrow> e_prev (h' (hd zs)) = Some new" by (simp add: ep)
  moreover have "ys \<noteq> [] \<Longrightarrow> e_prev (h' new) = Some (last ys)"
    using new mem prv by (auto simp: ep)
  ultimately have "bwd h' (ys @ new # zs)"
    using \<open>bwd h ys\<close> \<open>bwd h zs\<close> by (cases zs) (auto simp: bwd_append)
  then show ?thesis
    using rep fw inv new by (auto simp: ll_inv_def el'_def)
qed

section \<open>Frame\<close>

text \<open>The part of a cell that the list operations never write.\<close>

definition cell_data :: "'v entry \<Rightarrow> u64 option \<times> time \<times> 'v option option" where
  "cell_data e = (e_key e, e_expireAt e, e_p e)"

lemma cell_data_set_ptr [simp]:
  "cell_data (set_prev a p h b) = cell_data (h b)"
  "cell_data (set_next a p h b) = cell_data (h b)"
  by (simp_all add: cell_data_def frame_simps)

lemma ll_Add_data: "ll_Add h el a = Some (h', el') \<Longrightarrow> cell_data (h' b) = cell_data (h b)"
  by (auto simp: ll_Add_def Let_def split: if_splits option.splits)

lemma ll_unlink_data: "ll_unlink h el a = (h', el') \<Longrightarrow> cell_data (h' b) = cell_data (h b)"
  by (auto simp: ll_unlink_def Let_def split: if_splits option.splits)

lemma ll_Remove_data: "ll_Remove h el a = Some (h', el') \<Longrightarrow> cell_data (h' b) = cell_data (h b)"
  by (auto simp: ll_Remove_def dest: ll_unlink_data split: if_splits prod.splits)

lemma ll_Add_frame:
  assumes "ll_inv h el xs" "ll_Add h el a = Some (h', el')" "b \<notin> set (xs @ [a])"
  shows "h' b = h b"
proof -
  have "l_last el \<noteq> Some b" using assms(1,3) by (auto simp: ll_inv_def split: if_splits)
  then show ?thesis
    using assms(2,3) by (auto simp: ll_Add_def Let_def frame_simps split: if_splits option.splits)
qed

lemma ll_Remove_root_frame:
  assumes "ll_inv h el (a # xs)" "ll_Remove h el a = Some (h', el')" "b \<noteq> a"
  shows "h' b = h b"
  using assms by (auto simp: ll_inv_def ll_Remove_def ll_unlink_def frame_simps split: if_splits)

lemma ll_Remove_next: "ll_Remove h el a = Some (h', el') \<Longrightarrow> e_next (h' a) = None"
  by (auto simp: ll_Remove_def split: if_splits prod.splits)

section \<open>The contract\<close>

text \<open>
  What the store relies on: a list that is filled at the back and emptied at the front, whose
  cells live in a heap shared with the other lists. \<open>holds h l xs\<close> is the contents; it only
  depends on the cells \<open>xs\<close>, and the operations write no other cell and no cell's data.
\<close>

locale ttl_list =
  fixes add :: "'h \<Rightarrow> 'l \<Rightarrow> addr \<Rightarrow> ('h \<times> 'l) option"
    and front :: "'h \<Rightarrow> 'l \<Rightarrow> addr option"
    and remove :: "'h \<Rightarrow> 'l \<Rightarrow> addr \<Rightarrow> ('h \<times> 'l) option"
    and holds :: "'h \<Rightarrow> 'l \<Rightarrow> addr list \<Rightarrow> bool"
    and cell :: "'h \<Rightarrow> addr \<Rightarrow> 'c"
    and data :: "'c \<Rightarrow> 'd"
  assumes holds_distinct: "holds h l xs \<Longrightarrow> distinct xs"
    and holds_frame:
      "holds h l xs \<Longrightarrow> (\<And>a. a \<in> set xs \<Longrightarrow> cell h' a = cell h a) \<Longrightarrow> holds h' l xs"
    and front_holds: "holds h l xs \<Longrightarrow> front h l = (case xs of [] \<Rightarrow> None | x # _ \<Rightarrow> Some x)"
    and add_holds:
      "holds h l xs \<Longrightarrow> a \<notin> set xs \<Longrightarrow>
       \<exists>h' l'. add h l a = Some (h', l') \<and> holds h' l' (xs @ [a])"
    and add_frame:
      "holds h l xs \<Longrightarrow> add h l a = Some (h', l') \<Longrightarrow> b \<notin> set (xs @ [a]) \<Longrightarrow> cell h' b = cell h b"
    and add_data: "add h l a = Some (h', l') \<Longrightarrow> data (cell h' b) = data (cell h b)"
    and remove_holds:
      "holds h l (a # xs) \<Longrightarrow> \<exists>h' l'. remove h l a = Some (h', l') \<and> holds h' l' xs"
    and remove_frame:
      "holds h l (a # xs) \<Longrightarrow> remove h l a = Some (h', l') \<Longrightarrow> b \<noteq> a \<Longrightarrow> cell h' b = cell h b"
    and remove_data: "remove h l a = Some (h', l') \<Longrightarrow> data (cell h' b) = data (cell h b)"
begin

text \<open>An operation on one list leaves the lists that share no cell with it alone.\<close>

lemma add_other:
  assumes "holds h l xs" "add h l a = Some (h', l')" "holds h k ys" "set ys \<inter> set (xs @ [a]) = {}"
  shows "holds h' k ys"
proof (rule holds_frame [OF assms(3)])
  fix b assume "b \<in> set ys"
  with assms(4) have "b \<notin> set (xs @ [a])" by blast
  then show "cell h' b = cell h b" by (rule add_frame [OF assms(1,2)])
qed

lemma remove_other:
  assumes "holds h l (a # xs)" "remove h l a = Some (h', l')" "holds h k ys" "a \<notin> set ys"
  shows "holds h' k ys"
proof (rule holds_frame [OF assms(3)])
  fix b assume "b \<in> set ys"
  with assms(4) have "b \<noteq> a" by blast
  then show "cell h' b = cell h b" by (rule remove_frame [OF assms(1,2)])
qed

text \<open>Filling appends in order, and emptying from the front takes out in the same order.\<close>

lemma fill:
  assumes "holds h l xs" "distinct (xs @ as)"
  shows "\<exists>h' l'. foldM (\<lambda>a (h, l). add h l a) as (h, l) = Some (h', l') \<and> holds h' l' (xs @ as)"
  using assms
proof (induction as arbitrary: h l xs)
  case Nil
  then show ?case by simp
next
  case (Cons a as)
  obtain h1 l1 where "add h l a = Some (h1, l1)" "holds h1 l1 (xs @ [a])"
    using add_holds [OF Cons.prems(1), of a] Cons.prems(2) by auto
  with Cons.IH [of h1 l1 "xs @ [a]"] Cons.prems show ?case by simp
qed

lemma drain:
  assumes "holds h l (xs @ ys)"
  shows "\<exists>h' l'. foldM (\<lambda>a (h, l). remove h l a) xs (h, l) = Some (h', l') \<and> holds h' l' ys"
  using assms
proof (induction xs arbitrary: h l)
  case Nil
  then show ?case by simp
next
  case (Cons a xs)
  obtain h1 l1 where "remove h l a = Some (h1, l1)" "holds h1 l1 (xs @ ys)"
    using remove_holds [of h l a "xs @ ys"] Cons.prems by auto
  with Cons.IH show ?case by simp
qed

end

interpretation ll: ttl_list ll_Add "\<lambda>h el. ll_Next h el None" ll_Remove ll_inv "\<lambda>h a. h a" cell_data
proof unfold_locales
  show "ll_inv h el xs \<Longrightarrow> distinct xs" for h :: "'v heap" and el xs
    by (simp add: ll_inv_def)
  show "ll_inv h el xs \<Longrightarrow> (\<And>a. a \<in> set xs \<Longrightarrow> h' a = h a) \<Longrightarrow> ll_inv h' el xs"
    for h :: "'v heap" and el xs h'
    using ll_inv_cong [of xs h' h el] by simp
qed (auto simp: ll_Next_None ll_Add_ok ll_Add_data ll_Remove_root ll_Remove_data
    dest: ll_Add_frame ll_Remove_root_frame)

section \<open>Properties\<close>

text \<open>
  C37. The list is a queue: adding distinct new cells to a list that holds \<open>xs\<close> never panics
  and appends them in order, and removing the cells \<open>xs\<close> from the front then leaves exactly
  the added ones, in order.
\<close>

theorem linked_list_fifo:
  assumes "ll_inv h el xs" and "distinct (xs @ as)"
  shows "\<exists>h1 el1. foldM (\<lambda>a (h, el). ll_Add h el a) as (h, el) = Some (h1, el1) \<and>
           ll_inv h1 el1 (xs @ as) \<and> ll_Len el1 = int (length xs + length as) \<and>
           (\<exists>h2 el2. foldM (\<lambda>a (h, el). ll_Remove h el a) xs (h1, el1) = Some (h2, el2) \<and>
              ll_inv h2 el2 as)"
proof -
  obtain h1 el1 where "foldM (\<lambda>a (h, el). ll_Add h el a) as (h, el) = Some (h1, el1)"
    and inv: "ll_inv h1 el1 (xs @ as)"
    using ll.fill [OF assms] by blast
  moreover from inv have "ll_Len el1 = int (length xs + length as)" by (simp add: ll_Len_inv)
  ultimately show ?thesis using ll.drain [OF inv] by blast
qed

theorem linked_list_fifo_witness:
  "\<exists>h1 el1. foldM (\<lambda>a (h, el). ll_Add h el a) [4, 2] ((\<lambda>_. zero_entry :: bool entry), ll_empty)
     = Some (h1, el1) \<and> ll_inv h1 el1 ([] @ [4, 2])"
  using linked_list_fifo [of "\<lambda>_. zero_entry :: bool entry" ll_empty "[]" "[4, 2]"] ll_inv_empty
  by auto

text \<open>
  Removing a cell from the middle of a list, and replacing a cell that is not the root,
  keep the order of all other cells.
\<close>

theorem linked_list_middle:
  assumes "ll_inv h el (ys @ a # zs)" and "ys \<noteq> []" and "n \<notin> set (ys @ a # zs)"
  shows "(zs \<noteq> [] \<longrightarrow> (\<exists>h' el'. ll_Remove h el a = Some (h', el') \<and> ll_inv h' el' (ys @ zs))) \<and>
    (\<exists>h' el'. ll_Replace h el a n = (h', el') \<and> ll_inv h' el' (ys @ n # zs))"
  using ll_Remove_middle [OF assms(1,2)] ll_Replace_ok [OF assms(1,3)] assms(2) by fastforce

theorem linked_list_middle_witness:
  "\<exists>h el h' el'. ll_inv h el ([0] @ 1 # [2]) \<and>
     ll_Remove (h :: bool heap) el 1 = Some (h', el') \<and> ll_inv h' el' ([0] @ [2])"
proof -
  let ?h = "(\<lambda>_. zero_entry :: bool entry)
    (0 := zero_entry\<lparr>e_next := Some 1\<rparr>, 1 := zero_entry\<lparr>e_prev := Some 0, e_next := Some 2\<rparr>,
     2 := zero_entry\<lparr>e_prev := Some 1\<rparr>)"
  let ?el = "\<lparr>l_root = Some 0, l_last = Some 2, l_size = 3\<rparr>"
  have inv: "ll_inv ?h ?el ([0] @ 1 # [2])" by (simp add: ll_inv_def zero_entry_def)
  from linked_list_middle [OF inv, of 3] obtain h' el' where
    "ll_Remove ?h ?el 1 = Some (h', el')" "ll_inv h' el' ([0] @ [2])" by auto
  with inv show ?thesis by blast
qed

text \<open>
  Removing the last of several cells does not unlink it: the size goes down and \<open>last\<close>
  moves back, but a forward traversal from the root still visits the removed cell.
\<close>

theorem linked_list_remove_last_dangles:
  assumes "ll_inv h el (xs @ [a])" and "xs \<noteq> []"
  shows "\<exists>h' el'. ll_Remove h el a = Some (h', el') \<and> ll_Len el' = int (length xs) \<and>
           ll_Prev h' el' None = Some (last xs) \<and>
           fwd h' (ll_Next h' el' None) (xs @ [a]) \<and> \<not> ll_inv h' el' xs"
proof -
  obtain h' el' where rem: "ll_Remove h el a = Some (h', el')" "l_size el' = int (length xs)"
    "l_last el' = Some (last xs)" "fwd h' (l_root el') (xs @ [a])"
    using ll_Remove_last [OF assms] by blast
  have "\<not> fwd h' (l_root el') xs"
    using rem(4) fwd_unique by fastforce
  with rem show ?thesis by (auto simp: ll_Len_def ll_Prev_def ll_Next_def ll_inv_def)
qed

theorem linked_list_remove_last_dangles_witness:
  "\<exists>h el h' el'. ll_inv h el ([0] @ [1]) \<and> ll_Remove (h :: bool heap) el 1 = Some (h', el') \<and>
     ll_Len el' = 1 \<and> fwd h' (ll_Next h' el' None) ([0] @ [1])"
proof -
  let ?h = "(\<lambda>_. zero_entry :: bool entry)
    (0 := zero_entry\<lparr>e_next := Some 1\<rparr>, 1 := zero_entry\<lparr>e_prev := Some 0\<rparr>)"
  let ?el = "\<lparr>l_root = Some 0, l_last = Some 1, l_size = 2\<rparr>"
  have inv: "ll_inv ?h ?el ([0] @ [1])" by (simp add: ll_inv_def zero_entry_def)
  from linked_list_remove_last_dangles [OF inv] obtain h' el' where
    "ll_Remove ?h ?el 1 = Some (h', el')" "ll_Len el' = 1" "fwd h' (ll_Next h' el' None) ([0] @ [1])"
    by auto
  with inv show ?thesis by blast
qed

end
