(* ===== verification/KVSM.thy ===== *)
theory KVSM
  imports Linked_List
begin

text \<open>
  \<open>lsm/kvsm/kvsm.go\<close>: the in-memory store. \<open>items\<close> is the \<open>sync.Map\<close> from keys to cells;
  every cell that \<open>Set\<close> creates is also sent to the expiration worker over the channel
  \<open>addLLCh\<close>, and the worker files it in the list of its TTL. \<open>kv_recv\<close> and \<open>kv_tick\<close> are the
  two cases of the worker's \<open>select\<close>. Each operation is one atomic step; \<open>kv_step\<close> is their
  interleaving.

  The eviction callback acts on the state \<open>env\<close> of whoever installed it. Arguments \<open>now\<close>
  and \<open>clk\<close> are the readings of the clock, \<open>a\<close> the cell that the pool handed out.
\<close>

record expMsg =
  m_ttl :: duration
  m_entry :: addr

record ('v, 'x) kvsm =
  heap :: "'v heap"
  entryPool :: "addr list"
  fresh :: addr
  items :: "u64 \<Rightarrow> addr option"
  n_items :: int
  addLLCh :: "expMsg list"
  listTTL :: "(duration \<times> linkedListTTL) list"
  onEvicted :: "('v option \<Rightarrow> 'x \<Rightarrow> 'x) option"
  env :: 'x

definition actionsBuffer :: nat where "actionsBuffer = 1024"

definition kv_New :: "'x \<Rightarrow> ('v, 'x) kvsm" where
  "kv_New x = \<lparr>heap = (\<lambda>_. zero_entry), entryPool = [], fresh = 0, items = (\<lambda>_. None),
     n_items = 0, addLLCh = [], listTTL = [], onEvicted = None, env = x\<rparr>"

definition kv_SetOnEvicted ::
  "('v option \<Rightarrow> 'x \<Rightarrow> 'x) \<Rightarrow> ('v, 'x) kvsm \<Rightarrow> ('v, 'x) kvsm" where
  "kv_SetOnEvicted f s = s\<lparr>onEvicted := Some f\<rparr>"

definition kv_Len :: "('v, 'x) kvsm \<Rightarrow> int" where
  "kv_Len s = n_items s"

section \<open>The operations of the clients\<close>

definition kv_Set ::
  "time \<Rightarrow> addr \<Rightarrow> u64 \<Rightarrow> 'v option \<Rightarrow> duration \<Rightarrow> ('v, 'x) kvsm \<Rightarrow> ('v, 'x) kvsm" where
  "kv_Set now a k v ttl s =
     (let e = entry_Value v ((heap s a)\<lparr>e_key := Some k, e_expireAt := now + ttl\<rparr>) in
      s\<lparr>heap := (heap s)(a := e),
        entryPool := entryPool_rest (entryPool s) a,
        fresh := (if a = fresh s then fresh s + 1 else fresh s),
        items := (items s)(k \<mapsto> a),
        n_items := n_items s + 1,
        addLLCh := addLLCh s @ [\<lparr>m_ttl = ttl, m_entry = a\<rparr>]\<rparr>)"

text \<open>\<open>Get\<close> returns the value, whether it is expired, and whether the key was found.\<close>

definition kv_Get :: "time \<Rightarrow> u64 \<Rightarrow> ('v, 'x) kvsm \<Rightarrow> ('v option \<times> bool \<times> bool) go" where
  "kv_Get now k s =
     (case items s k of
        None \<Rightarrow> Some (None, True, False)
      | Some a \<Rightarrow>
          (case entry_GetValue (heap s a) of
             None \<Rightarrow> None
           | Some v \<Rightarrow> Some (v, entry_Expired now (heap s a), True)))"

text \<open>Calling the eviction callback, when there is one.\<close>

definition kv_callback :: "'v option \<Rightarrow> ('v, 'x) kvsm \<Rightarrow> ('v, 'x) kvsm" where
  "kv_callback v s = (case onEvicted s of None \<Rightarrow> s | Some f \<Rightarrow> s\<lparr>env := f v (env s)\<rparr>)"

definition kv_Swap ::
  "time \<Rightarrow> addr \<Rightarrow> u64 \<Rightarrow> 'v option \<Rightarrow> duration \<Rightarrow> ('v, 'x) kvsm \<Rightarrow> (bool \<times> ('v, 'x) kvsm) go"
  where
  "kv_Swap now a k v ttl s =
     (case items s k of
        None \<Rightarrow> Some (True, kv_Set now a k v ttl s)
      | Some b \<Rightarrow>
          (case entry_SwapValue v (heap s b) of
             None \<Rightarrow> None
           | Some (old, e) \<Rightarrow> Some (True, kv_callback old (s\<lparr>heap := (heap s)(b := e)\<rparr>))))"

definition kv_RemoveByKey :: "u64 \<Rightarrow> ('v, 'x) kvsm \<Rightarrow> ('v, 'x) kvsm" where
  "kv_RemoveByKey k s =
     (case items s k of
        None \<Rightarrow> s
      | Some a \<Rightarrow>
          s\<lparr>items := (items s)(k := None),
            heap := (heap s)(a := (entry_ValueReset (heap s a))\<lparr>e_expireAt := 0\<rparr>)\<rparr>)"

section \<open>The operations of the expiration worker\<close>

definition kv_eviction :: "addr \<Rightarrow> ('v, 'x) kvsm \<Rightarrow> ('v, 'x) kvsm go" where
  "kv_eviction a s =
     (case (if onEvicted s = None then Some s
            else (case entry_GetValue (heap s a) of
                    None \<Rightarrow> None
                  | Some p \<Rightarrow> Some (if p \<noteq> None then kv_callback p s else s))) of
        None \<Rightarrow> None
      | Some s' \<Rightarrow>
          (case putEntry (heap s') (entryPool s') a of
             (h, pool) \<Rightarrow> Some (s'\<lparr>heap := h, entryPool := pool\<rparr>)))"

definition kv_Remove :: "addr \<Rightarrow> ('v, 'x) kvsm \<Rightarrow> ('v, 'x) kvsm go" where
  "kv_Remove a s =
     kv_eviction a
       (s\<lparr>items := (case e_key (heap s a) of None \<Rightarrow> items s | Some k \<Rightarrow> (items s)(k := None)),
          n_items := n_items s - 1\<rparr>)"

text \<open>\<open>case e := <-kv.addLLCh\<close>\<close>

definition kv_recv :: "('v, 'x) kvsm \<Rightarrow> ('v, 'x) kvsm go" where
  "kv_recv s =
     (case addLLCh s of
        [] \<Rightarrow> Some s
      | m # ms \<Rightarrow>
          (let ttl = (if m_ttl m < Second then Second else m_ttl m);
               lists = (if map_of (listTTL s) ttl = None
                        then AList.update ttl ll_empty (listTTL s) else listTTL s)
           in case map_of lists ttl of
                None \<Rightarrow> None
              | Some ce \<Rightarrow>
                  (case ll_Add (heap s) ce (m_entry m) of
                     None \<Rightarrow> None
                   | Some (h, ce') \<Rightarrow>
                       Some (s\<lparr>heap := h, addLLCh := ms, listTTL := AList.update ttl ce' lists\<rparr>))))"

text \<open>
  The inner loop of \<open>case <-move.C\<close> over the list of one TTL, from the cell \<open>e\<close> (nil at the
  start). It terminates because a removed cell is cleared before \<open>Next\<close> reads it again.
\<close>

lemma kv_Remove_next: "kv_Remove a s = Some s' \<Longrightarrow> e_next (heap s' a) = None"
  by (auto simp: kv_Remove_def kv_eviction_def putEntry_def entry_clear_def Let_def
      split: option.splits if_splits)

function kv_sweep ::
  "time \<Rightarrow> duration \<Rightarrow> ('v, 'x) kvsm \<Rightarrow> addr option \<Rightarrow> ('v, 'x) kvsm go" where
  "kv_sweep now tkd s e =
     (case map_of (listTTL s) tkd of
        None \<Rightarrow> None
      | Some el \<Rightarrow>
          (case ll_Next (heap s) el e of
             None \<Rightarrow> Some s
           | Some a \<Rightarrow>
               (case entry_GetValue (heap s a) of
                  None \<Rightarrow> None
                | Some p \<Rightarrow>
                    if p = None \<or> entry_Expired now (heap s a)
                    then (case ll_Remove (heap s) el a of
                            None \<Rightarrow> None
                          | Some (h, el') \<Rightarrow>
                              (case kv_Remove a (s\<lparr>heap := h,
                                      listTTL := AList.update tkd el' (listTTL s)\<rparr>) of
                                 None \<Rightarrow> None
                               | Some s' \<Rightarrow> kv_sweep now tkd s' (Some a)))
                    else Some s)))"
  by pat_completeness auto
termination
  by (relation "measure (\<lambda>(now, tkd, s, e).
        case e of None \<Rightarrow> 2 | Some a \<Rightarrow> if e_next (heap s a) = None then 0 else 1)")
    (auto simp: ll_Next_def dest!: kv_Remove_next split: option.splits)

declare kv_sweep.simps [simp del]

text \<open>
  The outer loop, over the TTLs in seconds, in ascending order. \<open>clk\<close> gives the reading of
  the clock for each list, by the number of lists left to scan.
\<close>

fun kv_scan :: "(nat \<Rightarrow> time) \<Rightarrow> float64 list \<Rightarrow> ('v, 'x) kvsm \<Rightarrow> ('v, 'x) kvsm go" where
  "kv_scan clk [] s = Some s"
| "kv_scan clk (k # ks) s =
     (let tkd = f64_to_int k * Second in
      case map_of (listTTL s) tkd of
        None \<Rightarrow> kv_scan clk ks s
      | Some el \<Rightarrow>
          if ll_Len el = 0 then kv_scan clk ks s
          else (case kv_sweep (clk (length ks)) tkd s None of
                  None \<Rightarrow> None
                | Some s' \<Rightarrow> kv_scan clk ks s'))"

definition kv_tick :: "(nat \<Rightarrow> time) \<Rightarrow> ('v, 'x) kvsm \<Rightarrow> ('v, 'x) kvsm go" where
  "kv_tick clk s = kv_scan clk (sort (map (\<lambda>(d, _). Seconds d) (listTTL s))) s"

section \<open>Interleaving\<close>

text \<open>
  Any number of client goroutines and the worker, one operation at a time. \<open>Set\<close> takes a
  cell from the pool and blocks while the channel is full.
\<close>

inductive kv_step :: "('v, 'x) kvsm \<Rightarrow> ('v, 'x) kvsm \<Rightarrow> bool" where
  step_Set: "entryPool_Get (entryPool s) (fresh s) a \<Longrightarrow> length (addLLCh s) < actionsBuffer \<Longrightarrow>
     kv_step s (kv_Set now a k v ttl s)"
| step_Swap:
    "(items s k = None \<Longrightarrow>
        entryPool_Get (entryPool s) (fresh s) a \<and> length (addLLCh s) < actionsBuffer) \<Longrightarrow>
     kv_Swap now a k v ttl s = Some (b, s') \<Longrightarrow> kv_step s s'"
| step_RemoveByKey: "kv_step s (kv_RemoveByKey k s)"
| step_recv: "kv_recv s = Some s' \<Longrightarrow> kv_step s s'"
| step_tick: "kv_tick clk s = Some s' \<Longrightarrow> kv_step s s'"

inductive kv_reachable :: "'x \<Rightarrow> ('v, 'x) kvsm \<Rightarrow> bool" for x where
  reach_New: "kv_reachable x (kv_New x)"
| reach_SetOnEvicted: "kv_reachable x (kv_SetOnEvicted f (kv_New x))"
| reach_step: "kv_reachable x s \<Longrightarrow> kv_step s s' \<Longrightarrow> kv_reachable x s'"

inductive_cases kv_stepE: "kv_step s s'"

end
