(* ===== verification/KVSM_Inv.thy ===== *)
theory KVSM_Inv
  imports KVSM
begin

text \<open>
  The invariant of the in-memory store and its preservation by every operation. The cells
  are split between the channel and the TTL lists (\<open>kv_live\<close>) and the pool; a key maps to a
  live cell that carries that key; the counter \<open>n\<close> is the number of live cells.
\<close>

section \<open>The cells of all lists\<close>

definition lists_of :: "'v heap \<Rightarrow> (duration \<times> linkedListTTL) list \<Rightarrow> addr list" where
  "lists_of h al = concat (map (\<lambda>(_, el). ll_elems h el) al)"

definition lists_ok :: "'v heap \<Rightarrow> (duration \<times> linkedListTTL) list \<Rightarrow> bool" where
  "lists_ok h al \<longleftrightarrow> (\<forall>(d, el) \<in> set al. Second \<le> d \<and> ll_inv h el (ll_elems h el))"

lemma lists_of_simps [simp]:
  "lists_of h [] = []"
  "lists_of h ((d, el) # al) = ll_elems h el @ lists_of h al"
  "lists_of h (al @ bl) = lists_of h al @ lists_of h bl"
  by (simp_all add: lists_of_def)

lemma lists_ok_simps [simp]:
  "lists_ok h []"
  "lists_ok h ((d, el) # al) \<longleftrightarrow>
     Second \<le> d \<and> ll_inv h el (ll_elems h el) \<and> lists_ok h al"
  "lists_ok h (al @ bl) \<longleftrightarrow> lists_ok h al \<and> lists_ok h bl"
  by (auto simp: lists_ok_def)

lemma elems_in_lists: "(d, el) \<in> set al \<Longrightarrow> a \<in> set (ll_elems h el) \<Longrightarrow> a \<in> set (lists_of h al)"
  by (auto simp: lists_of_def)

text \<open>Writing to cells of no list, or to the data of cells, leaves all lists as they are.\<close>

lemma lists_frame:
  assumes "lists_ok h al"
    and "\<And>a. a \<in> set (lists_of h al) \<Longrightarrow> e_next (h' a) = e_next (h a) \<and> e_prev (h' a) = e_prev (h a)"
  shows "lists_ok h' al \<and> lists_of h' al = lists_of h al \<and>
    (\<forall>(d, el) \<in> set al. ll_elems h' el = ll_elems h el)"
  using assms
proof (induction al)
  case Nil
  then show ?case by simp
next
  case (Cons p al)
  obtain d el where p: "p = (d, el)" by (cases p)
  have "ll_inv h' el (ll_elems h el)"
    using Cons.prems p ll_inv_cong [of "ll_elems h el" h' h el] by auto
  moreover from this have "ll_elems h' el = ll_elems h el" by (rule ll_inv_elems)
  ultimately show ?case using Cons p by auto
qed

definition list_map :: "'v heap \<Rightarrow> (duration \<times> linkedListTTL) list \<Rightarrow> duration \<Rightarrow> addr list" where
  "list_map h al d = (case map_of al d of None \<Rightarrow> [] | Some el \<Rightarrow> ll_elems h el)"

text \<open>Replacing one list by an operation that writes no cell of the others.\<close>

lemma lists_update_one:
  assumes ok: "lists_ok h (l @ (d, el) # r)" and dist: "distinct (map fst (l @ (d, el) # r))"
    and new: "ll_inv h' el' xs'"
    and frame: "\<And>b. b \<in> set (lists_of h l @ lists_of h r) \<Longrightarrow> h' b = h b"
  shows "lists_ok h' (l @ (d, el') # r)"
    and "lists_of h' (l @ (d, el') # r) = lists_of h l @ xs' @ lists_of h r"
    and "list_map h' (l @ (d, el') # r) = (list_map h (l @ (d, el) # r))(d := xs')"
proof -
  have lr: "lists_ok h' (l @ r) \<and> lists_of h' (l @ r) = lists_of h (l @ r) \<and>
      (\<forall>(d, el) \<in> set (l @ r). ll_elems h' el = ll_elems h el)"
    using ok frame by (intro lists_frame) auto
  moreover have "lists_of h' l = lists_of h l"
    using lists_frame [of h l h'] ok frame by auto
  moreover have "lists_of h' r = lists_of h r"
    using lists_frame [of h r h'] ok frame by auto
  moreover have elems: "ll_elems h' el' = xs'" using new by (rule ll_inv_elems)
  ultimately show "lists_ok h' (l @ (d, el') # r)"
    and "lists_of h' (l @ (d, el') # r) = lists_of h l @ xs' @ lists_of h r"
    using ok new by auto
  show "list_map h' (l @ (d, el') # r) = (list_map h (l @ (d, el) # r))(d := xs')"
  proof
    fix x
    show "list_map h' (l @ (d, el') # r) x = ((list_map h (l @ (d, el) # r))(d := xs')) x"
    proof (cases "x = d")
      case True
      have "d \<notin> fst ` set l" using dist by auto
      then show ?thesis
        using True elems by (auto simp: list_map_def map_add_def map_of_None_fst [THEN iffD2]
            split: option.splits)
    next
      case False
      then have eq: "map_of (l @ (d, e) # r) x = map_of (l @ r) x" for e :: linkedListTTL
        by (simp add: map_add_def split: option.split)
      have "list_map h' (l @ (d, el') # r) x = list_map h (l @ (d, el) # r) x"
      proof (cases "map_of (l @ r) x")
        case None
        then show ?thesis unfolding list_map_def eq None by simp
      next
        case (Some e)
        then have "(x, e) \<in> set (l @ r)" by (rule map_of_SomeD)
        then have "ll_elems h' e = ll_elems h e" using lr by blast
        then show ?thesis unfolding list_map_def eq Some by simp
      qed
      then show ?thesis using False by simp
    qed
  qed
qed

lemma elems_of_list_map:
  "map_of al d = Some el \<Longrightarrow> ll_elems h el = list_map h al d"
  by (simp add: list_map_def)

section \<open>The invariant\<close>

definition kv_live :: "('v, 'x) kvsm \<Rightarrow> addr list" where
  "kv_live s = map m_entry (addLLCh s) @ lists_of (heap s) (listTTL s)"

text \<open>The cells of the list of one TTL, in order: the abstract state of the worker.\<close>

definition kv_list :: "('v, 'x) kvsm \<Rightarrow> duration \<Rightarrow> addr list" where
  "kv_list s d = list_map (heap s) (listTTL s) d"

definition kv_items_ok :: "('v, 'x) kvsm \<Rightarrow> bool" where
  "kv_items_ok s \<longleftrightarrow>
     (\<forall>k a. items s k = Some a \<longrightarrow> a \<in> set (kv_live s) \<and> e_key (heap s a) = Some k)"

definition kv_cells_ok :: "('v, 'x) kvsm \<Rightarrow> bool" where
  "kv_cells_ok s \<longleftrightarrow>
     (\<forall>a \<in> set (kv_live s). e_key (heap s a) \<noteq> None \<and> e_p (heap s a) \<noteq> None)"

definition kv_inv :: "('v, 'x) kvsm \<Rightarrow> bool" where
  "kv_inv s \<longleftrightarrow>
     lists_ok (heap s) (listTTL s) \<and> distinct (map fst (listTTL s)) \<and>
     distinct (kv_live s @ entryPool s) \<and>
     (\<forall>a \<in> set (kv_live s @ entryPool s). a < fresh s) \<and>
     n_items s = int (length (kv_live s)) \<and> kv_cells_ok s \<and> kv_items_ok s"

lemma kv_inv_New: "kv_inv (kv_New x)"
  by (simp add: kv_inv_def kv_New_def kv_live_def kv_cells_ok_def kv_items_ok_def)

lemma kv_inv_SetOnEvicted: "kv_inv (kv_SetOnEvicted f s) = kv_inv s"
  by (simp add: kv_inv_def kv_SetOnEvicted_def kv_live_def kv_cells_ok_def kv_items_ok_def)

lemma kv_inv_callback: "kv_inv (kv_callback v s) = kv_inv s"
  by (simp add: kv_inv_def kv_callback_def kv_live_def kv_cells_ok_def kv_items_ok_def
      split: option.splits)

text \<open>Writing the data of one live cell, with its key kept and its pointer set.\<close>

lemma kv_inv_write:
  assumes inv: "kv_inv s"
    and e: "e_next e = e_next (heap s a)" "e_prev e = e_prev (heap s a)"
      "e_key e = e_key (heap s a)" "e_p e \<noteq> None"
  shows "kv_inv (s\<lparr>heap := (heap s)(a := e)\<rparr>)"
proof -
  have "lists_ok ((heap s)(a := e)) (listTTL s) \<and>
      lists_of ((heap s)(a := e)) (listTTL s) = lists_of (heap s) (listTTL s)"
    using lists_frame [of "heap s" "listTTL s" "(heap s)(a := e)"] inv e by (auto simp: kv_inv_def)
  then show ?thesis
    using inv e by (auto simp: kv_inv_def kv_live_def kv_cells_ok_def kv_items_ok_def)
qed

lemma kv_items_live: "kv_inv s \<Longrightarrow> items s k = Some a \<Longrightarrow> a \<in> set (kv_live s)"
  by (auto simp: kv_inv_def kv_items_ok_def)

lemma kv_live_ptr: "kv_inv s \<Longrightarrow> a \<in> set (kv_live s) \<Longrightarrow> \<exists>v. e_p (heap s a) = Some v"
  by (auto simp: kv_inv_def kv_cells_ok_def)

lemma kv_items_ptr: "kv_inv s \<Longrightarrow> items s k = Some a \<Longrightarrow> \<exists>v. e_p (heap s a) = Some v"
  by (blast intro: kv_live_ptr kv_items_live)

section \<open>The operations of the clients keep it\<close>

lemma entryPool_Get_fresh:
  assumes "kv_inv s" "entryPool_Get (entryPool s) (fresh s) a"
  shows "a \<notin> set (kv_live s)"
  using assms by (fastforce simp: kv_inv_def entryPool_Get_def)

lemma kv_inv_Set [inv_intros]:
  assumes inv: "kv_inv s" and get: "entryPool_Get (entryPool s) (fresh s) a"
  shows "kv_inv (kv_Set now a k v ttl s)"
proof -
  define s' where "s' = kv_Set now a k v ttl s"
  have a: "a \<notin> set (kv_live s)" using inv get by (rule entryPool_Get_fresh)
  have h: "b \<noteq> a \<Longrightarrow> heap s' b = heap s b" for b
    by (simp add: s'_def kv_Set_def Let_def)
  have frame: "lists_ok (heap s') (listTTL s) \<and>
      lists_of (heap s') (listTTL s) = lists_of (heap s) (listTTL s)"
    using lists_frame [of "heap s" "listTTL s" "heap s'"] inv a h
    by (fastforce simp: kv_inv_def kv_live_def)
  have live: "kv_live s' = map m_entry (addLLCh s) @ a # lists_of (heap s) (listTTL s)"
    using frame by (simp add: kv_live_def s'_def kv_Set_def Let_def)
  have fields: "listTTL s' = listTTL s" "entryPool s' = remove1 a (entryPool s)"
    "fresh s' = (if a = fresh s then fresh s + 1 else fresh s)" "n_items s' = n_items s + 1"
    "items s' = (items s)(k \<mapsto> a)" "e_key (heap s' a) = Some k" "e_p (heap s' a) = Some v"
    by (simp_all add: s'_def kv_Set_def Let_def entryPool_rest_def entry_Value_def)
  have set_live: "set (kv_live s') = insert a (set (kv_live s))"
    unfolding live by (auto simp: kv_live_def)
  have pool: "set (entryPool s') \<subseteq> set (entryPool s)"
    using set_remove1_subset [of a "entryPool s"] by (simp add: fields)
  have "a \<notin> set (entryPool s')" "distinct (entryPool s')"
    using inv by (auto simp: fields kv_inv_def)
  then have "distinct (kv_live s' @ entryPool s')"
    using inv a pool unfolding live by (auto simp: kv_inv_def kv_live_def)
  moreover have "\<forall>b \<in> set (kv_live s' @ entryPool s'). b < fresh s'"
  proof -
    have "a < fresh s'" using inv get by (auto simp: fields kv_inv_def entryPool_Get_def)
    moreover have "fresh s \<le> fresh s'" by (simp add: fields)
    ultimately have "\<forall>b \<in> set (a # kv_live s @ entryPool s). b < fresh s'"
      using inv unfolding kv_inv_def by (metis less_le_trans set_ConsD)
    then show ?thesis using pool by (auto simp: set_live)
  qed
  moreover have hl: "b \<in> set (kv_live s) \<Longrightarrow> heap s' b = heap s b" for b
    using a h by metis
  then have "kv_cells_ok s'"
    using inv by (auto simp: kv_cells_ok_def kv_inv_def set_live fields)
  moreover have "kv_items_ok s'"
    using inv hl unfolding kv_items_ok_def kv_inv_def set_live fields
    by (metis fields(6) fun_upd_apply insert_iff option.inject)
  moreover have "length (kv_live s') = Suc (length (kv_live s))"
    unfolding live by (simp add: kv_live_def)
  ultimately have "kv_inv s'"
    using inv frame by (simp add: kv_inv_def fields)
  then show ?thesis by (simp add: s'_def)
qed

lemma kv_inv_Swap [inv_intros]:
  assumes inv: "kv_inv s"
    and get: "items s k = None \<Longrightarrow> entryPool_Get (entryPool s) (fresh s) a"
  shows "\<exists>s'. kv_Swap now a k v ttl s = Some (True, s') \<and> kv_inv s'"
proof (cases "items s k")
  case None
  then show ?thesis using inv get by (simp add: kv_Swap_def kv_inv_Set)
next
  case (Some b)
  then obtain old where "e_p (heap s b) = Some old"
    using inv kv_items_ptr by blast
  then show ?thesis
    using inv Some
    by (simp add: kv_Swap_def entry_SwapValue_def kv_inv_callback kv_inv_write)
qed

lemma kv_inv_RemoveByKey [inv_intros]:
  assumes "kv_inv s" shows "kv_inv (kv_RemoveByKey k s)"
proof (cases "items s k")
  case None
  then show ?thesis using assms by (simp add: kv_RemoveByKey_def)
next
  case (Some a)
  let ?s = "s\<lparr>heap := (heap s)(a := (entry_ValueReset (heap s a))\<lparr>e_expireAt := 0\<rparr>)\<rparr>"
  have "kv_inv ?s"
    by (rule kv_inv_write [OF assms]) (simp_all add: entry_ValueReset_def)
  then have "kv_inv (?s\<lparr>items := (items s)(k := None)\<rparr>)"
    by (auto simp: kv_inv_def kv_live_def kv_cells_ok_def kv_items_ok_def)
  moreover have "kv_RemoveByKey k s = ?s\<lparr>items := (items s)(k := None)\<rparr>"
    using Some by (simp add: kv_RemoveByKey_def)
  ultimately show ?thesis by simp
qed

lemma kv_Get_total: "kv_inv s \<Longrightarrow> \<exists>r. kv_Get now k s = Some r"
  by (cases "items s k")
    (auto simp: kv_Get_def entry_GetValue_def dest: kv_items_ptr split: option.splits)

section \<open>Receiving a cell\<close>

text \<open>Cells with a TTL under a second are filed under one second.\<close>

definition recv_ttl :: "expMsg \<Rightarrow> duration" where
  "recv_ttl m = (if m_ttl m < Second then Second else m_ttl m)"

text \<open>Making an empty list for a new TTL changes no contents.\<close>

lemma lists_ensure:
  assumes "lists_ok h al" "distinct (map fst al)" "Second \<le> d"
  obtains l ce r where
    "(if map_of al d = None then AList.update d ll_empty al else al) = l @ (d, ce) # r"
    "d \<notin> fst ` set l" "lists_ok h (l @ (d, ce) # r)" "distinct (map fst (l @ (d, ce) # r))"
    "lists_of h (l @ (d, ce) # r) = lists_of h al"
    "list_map h (l @ (d, ce) # r) = list_map h al"
proof (cases "map_of al d")
  case None
  have e: "ll_elems h ll_empty = []" by (simp add: ll_elems_def ll_empty_def)
  have d: "d \<notin> fst ` set al" using None by (simp add: map_of_None_fst)
  have "list_map h (al @ [(d, ll_empty)]) = list_map h al"
    using None e by (auto simp: list_map_def map_add_def fun_eq_iff split: option.splits)
  then show ?thesis
    using assms None d e ll_inv_empty [of h] that [of al ll_empty "[]"]
    by (auto simp: alist_update_miss)
next
  case (Some ce)
  then obtain l r where "al = l @ (d, ce) # r" "d \<notin> fst ` set l" by (rule alist_split)
  then show ?thesis using assms Some that [of l ce r] by simp
qed

lemma kv_recv_ok:
  assumes inv: "kv_inv s" and ch: "addLLCh s = m # ms"
  shows "\<exists>s'. kv_recv s = Some s' \<and> kv_inv s' \<and>
    kv_list s' = (kv_list s)(recv_ttl m := kv_list s (recv_ttl m) @ [m_entry m]) \<and>
    addLLCh s' = ms \<and> items s' = items s \<and> n_items s' = n_items s \<and>
    entryPool s' = entryPool s \<and> onEvicted s' = onEvicted s \<and> env s' = env s \<and>
    (\<forall>b. cell_data (heap s' b) = cell_data (heap s b))"
proof -
  define d where "d = recv_ttl m"
  define a where "a = m_entry m"
  have d: "Second \<le> d" by (simp add: d_def recv_ttl_def)
  obtain l ce r where al:
    "(if map_of (listTTL s) d = None then AList.update d ll_empty (listTTL s) else listTTL s)
       = l @ (d, ce) # r"
    "d \<notin> fst ` set l" "lists_ok (heap s) (l @ (d, ce) # r)" "distinct (map fst (l @ (d, ce) # r))"
    "lists_of (heap s) (l @ (d, ce) # r) = lists_of (heap s) (listTTL s)"
    "list_map (heap s) (l @ (d, ce) # r) = list_map (heap s) (listTTL s)"
    using lists_ensure [of "heap s" "listTTL s" d] inv d by (auto simp: kv_inv_def)
  define xs where "xs = ll_elems (heap s) ce"
  have look: "map_of (l @ (d, ce) # r) d = Some ce"
    using al(2) by (auto simp: map_add_def map_of_None_fst [THEN iffD2] split: option.splits)
  have ce: "ll_inv (heap s) ce xs" using al(3) by (simp add: xs_def)
  have live: "kv_live s = a # map m_entry ms @ lists_of (heap s) l @ xs @ lists_of (heap s) r"
    using al(5) by (simp add: kv_live_def ch a_def xs_def)
  then have "distinct (a # xs)" using inv by (auto simp: kv_inv_def)
  then have "a \<notin> set xs" by simp
  then obtain h ce' where add: "ll_Add (heap s) ce a = Some (h, ce')" "ll_inv h ce' (xs @ [a])"
    using ll.add_holds [OF ce] by blast
  have data: "cell_data (h b) = cell_data (heap s b)" for b
    using add(1) by (rule ll.add_data)
  have frame: "b \<in> set (lists_of (heap s) l @ lists_of (heap s) r) \<Longrightarrow> h b = heap s b" for b
    using inv ll.add_frame [OF ce add(1), of b] unfolding kv_inv_def live by fastforce
  note upd = lists_update_one [OF al(3,4) add(2) frame]
  define s' where "s' = s\<lparr>heap := h, addLLCh := ms, listTTL := l @ (d, ce') # r\<rparr>"
  have rec: "kv_recv s = Some s'"
    using al(1) look add(1) ch
    by (simp add: kv_recv_def Let_def d_def [symmetric, unfolded recv_ttl_def] a_def [symmetric]
        s'_def alist_update_hit [OF al(2)])
  have live': "kv_live s' = map m_entry ms @ lists_of (heap s) l @ (xs @ [a]) @ lists_of (heap s) r"
    using upd(2) by (simp add: kv_live_def s'_def)
  have set_live: "set (kv_live s') = set (kv_live s)" and len: "length (kv_live s') = length (kv_live s)"
    unfolding live live' by auto
  have "distinct (kv_live s' @ entryPool s')"
    using inv unfolding kv_inv_def live live' by (auto simp: s'_def)
  moreover have keep: "e_key (h b) = e_key (heap s b)" "e_p (h b) = e_p (heap s b)" for b
    using data [of b] by (simp_all add: cell_data_def)
  moreover have "lists_ok h (listTTL s')" using upd(1) by (simp add: s'_def)
  ultimately have "kv_inv s'"
    using inv al(4) set_live len
    by (simp add: kv_inv_def kv_cells_ok_def kv_items_ok_def) (simp add: s'_def)
  moreover have "kv_list s' = (kv_list s)(d := kv_list s d @ [a])"
    using upd(3) al(6) elems_of_list_map [OF look, of "heap s"]
    by (simp add: kv_list_def [abs_def] s'_def xs_def)
  ultimately show ?thesis
    using rec data by (auto simp: d_def a_def s'_def)
qed

section \<open>Expiring a cell\<close>

text \<open>The worker expires a cell whose value was reset or whose time has come.\<close>

definition kv_dead :: "time \<Rightarrow> 'v entry \<Rightarrow> bool" where
  "kv_dead now e \<longleftrightarrow> e_p e = Some None \<or> entry_Expired now e"

text \<open>
  The abstract transition: the first cell of the list of TTL \<open>d\<close> leaves the list for the
  pool, its key is deleted, the counter goes down, and the callback runs on its value.
\<close>

definition kv_drops :: "duration \<Rightarrow> addr \<Rightarrow> ('v, 'x) kvsm \<Rightarrow> ('v, 'x) kvsm \<Rightarrow> bool" where
  "kv_drops d a s s' \<longleftrightarrow>
     (\<exists>xs. kv_list s d = a # xs \<and> kv_list s' = (kv_list s)(d := xs)) \<and>
     entryPool s' = a # entryPool s \<and>
     n_items s' = n_items s - 1 \<and>
     (\<exists>k. e_key (heap s a) = Some k \<and> items s' = (items s)(k := None)) \<and>
     addLLCh s' = addLLCh s \<and> onEvicted s' = onEvicted s \<and>
     map fst (listTTL s') = map fst (listTTL s) \<and>
     (\<forall>b. b \<noteq> a \<longrightarrow> cell_data (heap s' b) = cell_data (heap s b)) \<and>
     env s' = (case (onEvicted s, e_p (heap s a)) of
         (Some f, Some (Some v)) \<Rightarrow> f (Some v) (env s) | _ \<Rightarrow> env s)"

lemma kv_Remove_eq:
  assumes "e_p (heap s a) = Some v" "e_key (heap s a) = Some k"
  shows "kv_Remove a s = Some (s\<lparr>
    heap := (heap s)(a := entry_clear (heap s a)), entryPool := a # entryPool s,
    items := (items s)(k := None), n_items := n_items s - 1,
    env := (case (onEvicted s, v) of (Some f, Some w) \<Rightarrow> f (Some w) (env s) | _ \<Rightarrow> env s)\<rparr>)"
  using assms
  by (cases "onEvicted s"; cases v)
    (simp_all add: kv_Remove_def kv_eviction_def kv_callback_def putEntry_def entry_GetValue_def)

lemma kv_sweep_live:
  assumes "kv_inv s" "map_of (listTTL s) d = Some el" "kv_list s d = a # xs"
    "\<not> kv_dead now (heap s a)"
  shows "kv_sweep now d s None = Some s"
proof -
  have el: "(d, el) \<in> set (listTTL s)" using assms(2) by (rule map_of_SomeD)
  have xs: "ll_elems (heap s) el = a # xs"
    using assms(2,3) by (simp add: kv_list_def list_map_def)
  have "ll_inv (heap s) el (a # xs)"
    using assms(1) el xs by (auto simp: kv_inv_def lists_ok_def)
  then have "ll_Next (heap s) el None = Some a" by (simp add: ll.front_holds)
  moreover have "a \<in> set (kv_live s)"
    using elems_in_lists [OF el, of a "heap s"] xs by (simp add: kv_live_def)
  ultimately show ?thesis
    using assms kv_live_ptr
    by (subst kv_sweep.simps) (fastforce simp: entry_GetValue_def kv_dead_def)
qed

text \<open>
  A dead first cell is removed, and the loop stops: the cell it continues from has just been
  cleared, so \<open>Next\<close> returns nil.
\<close>

lemma kv_sweep_dead:
  assumes inv: "kv_inv s" and look: "map_of (listTTL s) d = Some el"
    and list: "kv_list s d = a # xs" and dead: "kv_dead now (heap s a)"
  shows "\<exists>s'. kv_sweep now d s None = Some s' \<and> kv_inv s' \<and> kv_drops d a s s'"
proof -
  obtain l r where al: "listTTL s = l @ (d, el) # r" "d \<notin> fst ` set l"
    using look by (rule alist_split)
  have elems: "ll_elems (heap s) el = a # xs"
    using look list by (simp add: kv_list_def list_map_def)
  have ok: "lists_ok (heap s) (l @ (d, el) # r)" and dist: "distinct (map fst (l @ (d, el) # r))"
    using inv al by (simp_all add: kv_inv_def)
  then have el: "ll_inv (heap s) el (a # xs)" using elems by simp
  have live: "kv_live s = map m_entry (addLLCh s) @ lists_of (heap s) l @ (a # xs) @ lists_of (heap s) r"
    by (simp add: kv_live_def al elems)
  have fr: "\<forall>b \<in> set (map m_entry (addLLCh s) @ lists_of (heap s) l @ xs @ lists_of (heap s) r). b \<noteq> a"
    using inv unfolding kv_inv_def live by auto
  obtain h el' where rem: "ll_Remove (heap s) el a = Some (h, el')" "ll_inv h el' xs"
    using ll.remove_holds [OF el] by blast
  have data: "cell_data (h b) = cell_data (heap s b)" for b
    using rem(1) by (rule ll.remove_data)
  have frame: "b \<noteq> a \<Longrightarrow> h b = heap s b" for b
    using ll.remove_frame [OF el rem(1)] by blast
  define h' where "h' = h(a := entry_clear (h a))"
  have "a \<notin> set xs" using fr by auto
  then have el': "ll_inv h' el' xs"
    by (intro ll.holds_frame [OF rem(2)]) (auto simp: h'_def)
  have frame': "b \<in> set (lists_of (heap s) l @ lists_of (heap s) r) \<Longrightarrow> h' b = heap s b" for b
    using fr frame by (auto simp: h'_def)
  note upd = lists_update_one [OF ok dist el' frame']
  obtain v k where v: "e_p (heap s a) = Some v" and k: "e_key (heap s a) = Some k"
    using inv by (auto simp: kv_inv_def kv_cells_ok_def live)
  define s1 where "s1 = s\<lparr>heap := h, listTTL := l @ (d, el') # r\<rparr>"
  define s' where "s' = s1\<lparr>heap := h', entryPool := a # entryPool s,
      items := (items s)(k := None), n_items := n_items s - 1,
      env := (case (onEvicted s, v) of (Some f, Some w) \<Rightarrow> f (Some w) (env s) | _ \<Rightarrow> env s)\<rparr>"
  have "e_p (h a) = Some v" "e_key (h a) = Some k"
    using data [of a] v k by (simp_all add: cell_data_def)
  then have kvrem: "kv_Remove a s1 = Some s'"
    using kv_Remove_eq [of s1 a v k] by (simp add: s'_def s1_def h'_def cong: option.case_cong)
  have look': "map_of (listTTL s') d = Some el'"
    using al(2) by (auto simp: s'_def s1_def map_add_def map_of_None_fst [THEN iffD2] split: option.splits)
  have "kv_sweep now d s' (Some a) = Some s'"
    by (subst kv_sweep.simps) (simp add: look' ll_Next_def kv_Remove_next [OF kvrem])
  moreover have "ll_Next (heap s) el None = Some a" using el by (simp add: ll.front_holds)
  moreover have "AList.update d el' (listTTL s) = l @ (d, el') # r"
    using al by (simp add: alist_update_hit)
  ultimately have sweep: "kv_sweep now d s None = Some s'"
    using dead kvrem rem(1) v
    by (subst kv_sweep.simps) (simp add: look entry_GetValue_def kv_dead_def s1_def)
  have live': "kv_live s' = map m_entry (addLLCh s) @ lists_of (heap s) l @ xs @ lists_of (heap s) r"
    using upd(2) by (simp add: kv_live_def s'_def s1_def)
  have keep: "b \<noteq> a \<Longrightarrow> heap s' b = heap s b" for b
    using frame by (simp add: s'_def h'_def)
  have sub: "set (kv_live s) = insert a (set (kv_live s'))" "a \<notin> set (kv_live s')"
    using fr unfolding live live' by auto
  have "lists_ok (heap s') (listTTL s')" "distinct (map fst (listTTL s'))"
    using upd(1) dist by (simp_all add: s'_def s1_def)
  moreover have "distinct (kv_live s' @ entryPool s')"
    using inv unfolding kv_inv_def live live' by (auto simp: s'_def)
  moreover have "\<forall>b \<in> set (kv_live s' @ entryPool s'). b < fresh s'"
    using inv sub by (auto simp: kv_inv_def s'_def s1_def)
  moreover have "n_items s' = int (length (kv_live s'))"
    using inv unfolding kv_inv_def live live' by (simp add: s'_def)
  moreover have "kv_cells_ok s'"
    using inv sub keep unfolding kv_inv_def kv_cells_ok_def by (metis insertI2)
  moreover have "kv_items_ok s'"
    unfolding kv_items_ok_def
  proof (intro allI impI)
    fix j b assume "items s' j = Some b"
    then have j: "items s j = Some b" "j \<noteq> k" by (auto simp: s'_def split: if_splits)
    then have b: "b \<in> set (kv_live s)" "e_key (heap s b) = Some j"
      using inv by (auto simp: kv_inv_def kv_items_ok_def)
    then have "b \<noteq> a" using j k by auto
    then show "b \<in> set (kv_live s') \<and> e_key (heap s' b) = Some j"
      using b sub keep by simp
  qed
  ultimately have "kv_inv s'" by (simp add: kv_inv_def)
  moreover have "kv_list s' = (kv_list s)(d := xs)"
    using upd(3) by (simp add: kv_list_def [abs_def] s'_def s1_def al)
  moreover have "cell_data (heap s' b) = cell_data (heap s b)" if "b \<noteq> a" for b
    using keep that by simp
  ultimately show ?thesis
    using sweep list k v al
    by (auto simp: kv_drops_def s'_def s1_def split: option.splits)
qed

end
