(* ===== verification/KVSM_Spec.thy ===== *)
theory KVSM_Spec
  imports KVSM_Inv
begin

text \<open>
  What the expiration worker does to the abstract state of the store: for every TTL the
  cells that wait for it, in order, and the map from keys to cells. \<open>kv_tick\<close> refines
  \<open>spec_scan\<close>, which looks at the first cell of each list and drops it if it is dead.
\<close>

type_synonym spec_state = "(duration \<Rightarrow> addr list) \<times> (u64 \<Rightarrow> addr option)"

definition spec_pop ::
  "(addr \<Rightarrow> u64 option) \<Rightarrow> (addr \<Rightarrow> bool) \<Rightarrow> duration \<Rightarrow> spec_state \<Rightarrow> spec_state" where
  "spec_pop key dead d = (\<lambda>(L, M).
     case L d of
       [] \<Rightarrow> (L, M)
     | a # xs \<Rightarrow>
         if dead a
         then (L(d := xs), case key a of None \<Rightarrow> M | Some k \<Rightarrow> M(k := None))
         else (L, M))"

definition tick_ttl :: "float64 \<Rightarrow> duration" where
  "tick_ttl k = f64_to_int k * Second"

fun spec_scan ::
  "(addr \<Rightarrow> u64 option) \<Rightarrow> (time \<Rightarrow> addr \<Rightarrow> bool) \<Rightarrow> (nat \<Rightarrow> time) \<Rightarrow> float64 list \<Rightarrow> spec_state \<Rightarrow> spec_state"
  where
  "spec_scan key dead clk [] S = S"
| "spec_scan key dead clk (k # ks) S =
     spec_scan key dead clk ks (spec_pop key (dead (clk (length ks))) (tick_ttl k) S)"

lemma spec_pop_subset: "b \<in> set (fst (spec_pop key dead d S) d') \<Longrightarrow> b \<in> set (fst S d')"
  by (cases S) (auto simp: spec_pop_def split: list.splits if_splits)

lemma spec_pop_cong:
  assumes "\<And>b. b \<in> set (fst S d) \<Longrightarrow> key' b = key b \<and> dead' b = dead b"
  shows "spec_pop key' dead' d S = spec_pop key dead d S"
  using assms by (cases S) (auto simp: spec_pop_def split: list.splits)

lemma spec_scan_cong:
  assumes "\<And>d b now. b \<in> set (fst S d) \<Longrightarrow> key' b = key b \<and> dead' now b = dead now b"
  shows "spec_scan key' dead' clk ks S = spec_scan key dead clk ks S"
  using assms
proof (induction ks arbitrary: S)
  case Nil
  then show ?case by simp
next
  case (Cons k ks)
  let ?S = "spec_pop key (dead (clk (length ks))) (tick_ttl k) S"
  have "spec_pop key' (dead' (clk (length ks))) (tick_ttl k) S = ?S"
    using Cons.prems by (intro spec_pop_cong) blast
  moreover have "spec_scan key' dead' clk ks ?S = spec_scan key dead clk ks ?S"
    using Cons.prems spec_pop_subset by (intro Cons.IH) blast
  ultimately show ?case by simp
qed

lemma spec_scan_subset:
  "b \<in> set (fst (spec_scan key dead clk ks S) d') \<Longrightarrow> b \<in> set (fst S d')"
proof (induction ks arbitrary: S)
  case Nil
  then show ?case by simp
next
  case (Cons k ks)
  then show ?case using spec_pop_subset by (metis spec_scan.simps(2))
qed

section \<open>Refinement\<close>

lemma cell_data_eqD:
  "cell_data e' = cell_data e \<Longrightarrow> e_key e' = e_key e \<and> kv_dead now e' = kv_dead now e"
  by (simp add: cell_data_def kv_dead_def entry_Expired_def)

lemma kv_list_live:
  assumes "b \<in> set (kv_list s d)" shows "b \<in> set (kv_live s)"
proof (cases "map_of (listTTL s) d")
  case None
  with assms show ?thesis by (simp add: kv_list_def list_map_def)
next
  case (Some el)
  with assms have "b \<in> set (ll_elems (heap s) el)" by (simp add: kv_list_def list_map_def)
  with map_of_SomeD [OF Some] show ?thesis by (simp add: kv_live_def elems_in_lists)
qed

lemma kv_list_Len:
  assumes "kv_inv s" "map_of (listTTL s) d = Some el"
  shows "ll_Len el = int (length (kv_list s d))"
proof -
  have "ll_inv (heap s) el (kv_list s d)"
    using assms map_of_SomeD [OF assms(2)]
    by (auto simp: kv_inv_def lists_ok_def kv_list_def list_map_def)
  then show ?thesis by (rule ll_Len_inv)
qed

text \<open>One list: the step of the code and of the specification agree.\<close>

lemma kv_scan_one:
  assumes inv: "kv_inv s"
  obtains s1 where
    "kv_scan clk (k # ks) s = kv_scan clk ks s1" "kv_inv s1"
    "(kv_list s1, items s1) = spec_pop (\<lambda>a. e_key (heap s a))
        (\<lambda>a. kv_dead (clk (length ks)) (heap s a)) (tick_ttl k) (kv_list s, items s)"
    "\<And>b d. b \<in> set (kv_list s1 d) \<Longrightarrow> cell_data (heap s1 b) = cell_data (heap s b)"
    "map fst (listTTL s1) = map fst (listTTL s)"
proof -
  let ?now = "clk (length ks)" and ?d = "tick_ttl k"
  show ?thesis
  proof (cases "kv_list s ?d")
    case Nil
    have "kv_scan clk (k # ks) s = kv_scan clk ks s"
      using Nil kv_list_Len [OF inv, of ?d]
      by (auto simp: Let_def tick_ttl_def [symmetric] split: option.split)
    then show ?thesis using that [of s] inv Nil by (simp add: spec_pop_def)
  next
    case (Cons a xs)
    then obtain el where el: "map_of (listTTL s) ?d = Some el"
      by (auto simp: kv_list_def list_map_def split: option.splits)
    have scan: "kv_scan clk (k # ks) s =
        (case kv_sweep ?now ?d s None of None \<Rightarrow> None | Some s' \<Rightarrow> kv_scan clk ks s')"
      using el Cons kv_list_Len [OF inv el] by (simp add: Let_def tick_ttl_def [symmetric])
    show ?thesis
    proof (cases "kv_dead ?now (heap s a)")
      case False
      then have "kv_sweep ?now ?d s None = Some s"
        using kv_sweep_live inv el Cons by blast
      then show ?thesis using that [of s] scan inv Cons False by (simp add: spec_pop_def)
    next
      case True
      then obtain s1 where s1: "kv_sweep ?now ?d s None = Some s1" "kv_inv s1" "kv_drops ?d a s s1"
        using kv_sweep_dead inv el Cons by blast
      have "a \<in> set (entryPool s1)" using s1(3) by (simp add: kv_drops_def)
      then have "b \<in> set (kv_list s1 d) \<Longrightarrow> b \<noteq> a" for b d
        using kv_list_live [of b s1 d] s1(2) by (auto simp: kv_inv_def)
      then show ?thesis
        using that [of s1] scan s1 Cons True by (auto simp: kv_drops_def spec_pop_def)
    qed
  qed
qed

lemma kv_scan_refines:
  assumes "kv_inv s"
  shows "\<exists>s'. kv_scan clk ks s = Some s' \<and> kv_inv s' \<and>
    (kv_list s', items s') = spec_scan (\<lambda>a. e_key (heap s a))
       (\<lambda>now a. kv_dead now (heap s a)) clk ks (kv_list s, items s) \<and>
    (\<forall>d. \<forall>b \<in> set (kv_list s' d). cell_data (heap s' b) = cell_data (heap s b)) \<and>
    map fst (listTTL s') = map fst (listTTL s)"
  using assms
proof (induction ks arbitrary: s)
  case Nil
  then show ?case by simp
next
  case (Cons k ks)
  obtain s1 where s1: "kv_scan clk (k # ks) s = kv_scan clk ks s1" "kv_inv s1"
    "(kv_list s1, items s1) = spec_pop (\<lambda>a. e_key (heap s a))
        (\<lambda>a. kv_dead (clk (length ks)) (heap s a)) (tick_ttl k) (kv_list s, items s)"
    "\<And>b d. b \<in> set (kv_list s1 d) \<Longrightarrow> cell_data (heap s1 b) = cell_data (heap s b)"
    "map fst (listTTL s1) = map fst (listTTL s)"
    using kv_scan_one [OF Cons.prems] by blast
  obtain s' where s': "kv_scan clk ks s1 = Some s'" "kv_inv s'"
    "(kv_list s', items s') = spec_scan (\<lambda>a. e_key (heap s1 a))
       (\<lambda>now a. kv_dead now (heap s1 a)) clk ks (kv_list s1, items s1)"
    "\<And>b d. b \<in> set (kv_list s' d) \<Longrightarrow> cell_data (heap s' b) = cell_data (heap s1 b)"
    "map fst (listTTL s') = map fst (listTTL s1)"
    using Cons.IH [OF s1(2)] by blast
  have "spec_scan (\<lambda>a. e_key (heap s1 a)) (\<lambda>now a. kv_dead now (heap s1 a)) clk ks
        (kv_list s1, items s1)
      = spec_scan (\<lambda>a. e_key (heap s a)) (\<lambda>now a. kv_dead now (heap s a)) clk ks
        (kv_list s1, items s1)"
  proof (rule spec_scan_cong)
    fix d b now
    assume "b \<in> set (fst (kv_list s1, items s1) d)"
    then have "cell_data (heap s1 b) = cell_data (heap s b)" using s1(4) by simp
    then show "e_key (heap s1 b) = e_key (heap s b) \<and>
        kv_dead now (heap s1 b) = kv_dead now (heap s b)"
      by (rule cell_data_eqD)
  qed
  with s1(3) s'(3) have spec: "(kv_list s', items s') =
      spec_scan (\<lambda>a. e_key (heap s a)) (\<lambda>now a. kv_dead now (heap s a)) clk (k # ks)
        (kv_list s, items s)"
    by simp
  have "b \<in> set (kv_list s1 d)" if "b \<in> set (kv_list s' d)" for b d
    using spec_scan_subset [of b "\<lambda>a. e_key (heap s1 a)" "\<lambda>now a. kv_dead now (heap s1 a)"
        clk ks "(kv_list s1, items s1)" d] that s'(3) [symmetric] by simp
  then have "cell_data (heap s' b) = cell_data (heap s b)" if "b \<in> set (kv_list s' d)" for b d
    using that s1(4) s'(4) by metis
  moreover have "kv_scan clk (k # ks) s = Some s'" using s1(1) s'(1) by simp
  moreover have "map fst (listTTL s') = map fst (listTTL s)" using s1(5) s'(5) by simp
  ultimately show ?case using s'(2) spec by blast
qed

lemma kv_tick_refines:
  assumes "kv_inv s"
  shows "\<exists>s'. kv_tick clk s = Some s' \<and> kv_inv s' \<and>
    (kv_list s', items s') = spec_scan (\<lambda>a. e_key (heap s a))
       (\<lambda>now a. kv_dead now (heap s a)) clk (sort (map (\<lambda>(d, _). Seconds d) (listTTL s)))
       (kv_list s, items s) \<and>
    (\<forall>d. \<forall>b \<in> set (kv_list s' d). cell_data (heap s' b) = cell_data (heap s b)) \<and>
    map fst (listTTL s') = map fst (listTTL s)"
  unfolding kv_tick_def using assms by (rule kv_scan_refines)

lemma kv_inv_tick [inv_intros]: "kv_inv s \<Longrightarrow> kv_tick clk s = Some s' \<Longrightarrow> kv_inv s'"
  using kv_tick_refines [of s clk] by auto

lemma kv_inv_recv [inv_intros]: "kv_inv s \<Longrightarrow> kv_recv s = Some s' \<Longrightarrow> kv_inv s'"
  using kv_recv_ok [of s] by (cases "addLLCh s") (auto simp: kv_recv_def)

lemma kv_recv_total: "kv_inv s \<Longrightarrow> \<exists>s'. kv_recv s = Some s'"
  using kv_recv_ok [of s] by (cases "addLLCh s") (auto simp: kv_recv_def)

section \<open>Reachable states\<close>

lemma kv_inv_step: "kv_step s s' \<Longrightarrow> kv_inv s \<Longrightarrow> kv_inv s'"
proof (induction rule: kv_step.induct)
  case (step_Swap s k a now v ttl b s')
  then show ?case using kv_inv_Swap [of s k a now v ttl] by auto
next
  case (step_Set s a now k v ttl)
  then show ?case by (intro kv_inv_Set)
next
  case (step_RemoveByKey s k)
  then show ?case by (intro kv_inv_RemoveByKey)
next
  case (step_recv s s')
  then show ?case by (blast intro: kv_inv_recv)
next
  case (step_tick clk s s')
  then show ?case by (blast intro: kv_inv_tick)
qed

lemma kv_reachable_inv: "kv_reachable x s \<Longrightarrow> kv_inv s"
  by (induction rule: kv_reachable.induct)
    (auto simp: kv_inv_New kv_inv_SetOnEvicted intro: kv_inv_step)

end
