(* ===== verification/KVSM_Expiry.thy ===== *)
theory KVSM_Expiry
  imports KVSM_Spec
begin

text \<open>
  What one tick of the expiration worker does, and what a series of ticks does, read off
  the specification: which TTLs are scanned, how many cells leave a list, which keys go.
\<close>

section \<open>Which lists a tick looks at\<close>

lemma tick_ttl_whole: "tick_ttl k mod Second = 0"
  by (simp add: tick_ttl_def)

text \<open>Every \<open>time.Duration\<close> that is a whole number of seconds is found again.\<close>

lemma tick_ttl_Seconds:
  assumes "Second \<le> d" "d < 2 ^ 63" "d mod Second = 0"
  shows "tick_ttl (Seconds d) = d"
proof -
  have d: "(d div Second) * Second = d" using assms(3) by (simp add: mult.commute mod_0_imp_dvd)
  have "0 \<le> d div Second" and "d div Second < 2 ^ 53"
    using assms by (auto simp: Second_def pos_imp_zdiv_nonneg_iff)
  then have "Seconds d = of_int (d div Second)"
    using Seconds_whole [of "d div Second"] by (simp only: d)
  then show ?thesis using d by (simp add: tick_ttl_def)
qed

lemma spec_pop_other: "d' \<noteq> d \<Longrightarrow> fst (spec_pop key dead d S) d' = fst S d'"
  by (cases S) (auto simp: spec_pop_def split: list.splits)

lemma spec_scan_other:
  "(\<And>k. k \<in> set ks \<Longrightarrow> tick_ttl k \<noteq> d) \<Longrightarrow> fst (spec_scan key dead clk ks S) d = fst S d"
proof (induction ks arbitrary: S)
  case Nil
  then show ?case by simp
next
  case (Cons k ks)
  have "fst (spec_scan key dead clk ks (spec_pop key (dead (clk (length ks))) (tick_ttl k) S)) d
      = fst (spec_pop key (dead (clk (length ks))) (tick_ttl k) S) d"
    using Cons.prems by (intro Cons.IH) simp
  moreover have "tick_ttl k \<noteq> d" using Cons.prems by simp
  ultimately show ?case by (simp add: spec_pop_other)
qed

definition pop_dead :: "(addr \<Rightarrow> bool) \<Rightarrow> addr list \<Rightarrow> addr list" where
  "pop_dead dead xs = (case xs of [] \<Rightarrow> [] | a # ys \<Rightarrow> if dead a then ys else a # ys)"

lemma spec_pop_same: "fst (spec_pop key dead d S) d = pop_dead dead (fst S d)"
  by (cases S) (auto simp: spec_pop_def pop_dead_def split: list.splits)

lemma spec_scan_once:
  assumes "distinct (map tick_ttl ks)" "d \<in> tick_ttl ` set ks"
  shows "\<exists>i. fst (spec_scan key dead clk ks S) d = pop_dead (dead (clk i)) (fst S d)"
  using assms
proof (induction ks arbitrary: S)
  case Nil
  then show ?case by simp
next
  case (Cons k ks)
  show ?case
  proof (cases "tick_ttl k = d")
    case True
    then have "k' \<in> set ks \<Longrightarrow> tick_ttl k' \<noteq> d" for k'
      using Cons.prems(1) by (metis distinct.simps(2) image_eqI list.set_map list.simps(9))
    then show ?thesis using True by (auto simp: spec_scan_other spec_pop_same)
  next
    case False
    then show ?thesis
      using Cons.IH [of "spec_pop key (dead (clk (length ks))) (tick_ttl k) S"] Cons.prems
      by (auto simp: spec_pop_other)
  qed
qed

section \<open>Keys only leave\<close>

lemma spec_pop_None: "snd S k = None \<Longrightarrow> snd (spec_pop key dead d S) k = None"
  by (cases S) (auto simp: spec_pop_def split: list.splits option.splits)

lemma spec_scan_None: "snd S k = None \<Longrightarrow> snd (spec_scan key dead clk ks S) k = None"
  by (induction ks arbitrary: S) (auto simp: spec_pop_None)

lemma spec_scan_drops_key:
  assumes "fst S d = a # xs" "\<And>i. dead (clk i) a" "key a = Some k" "d \<in> tick_ttl ` set ks"
  shows "snd (spec_scan key dead clk ks S) k = None"
  using assms
proof (induction ks arbitrary: S)
  case Nil
  then show ?case by simp
next
  case (Cons q ks)
  let ?S = "spec_pop key (dead (clk (length ks))) (tick_ttl q) S"
  show ?case
  proof (cases "tick_ttl q = d")
    case True
    then have "snd ?S k = None" using Cons.prems by (cases S) (simp add: spec_pop_def)
    then show ?thesis by (simp add: spec_scan_None)
  next
    case False
    then show ?thesis using Cons.prems Cons.IH [of ?S] by (auto simp: spec_pop_other)
  qed
qed

section \<open>One tick\<close>

text \<open>All TTLs in use are whole seconds.\<close>

definition ttls_whole :: "('v, 'x) kvsm \<Rightarrow> bool" where
  "ttls_whole s \<longleftrightarrow> (\<forall>d \<in> set (map fst (listTTL s)). d mod Second = 0 \<and> d < 2 ^ 63)"

lemma kv_list_ttl: "kv_list s d \<noteq> [] \<Longrightarrow> d \<in> set (map fst (listTTL s))"
  by (auto simp: kv_list_def list_map_def image_iff split: option.splits dest: map_of_SomeD
      intro: rev_bexI)

lemma ttl_ge_Second: "kv_inv s \<Longrightarrow> d \<in> set (map fst (listTTL s)) \<Longrightarrow> Second \<le> d"
  by (auto simp: kv_inv_def lists_ok_def)

lemma tick_keys:
  fixes al :: "(duration \<times> 'b) list"
  defines "ks \<equiv> sort (map (\<lambda>(d, _). Seconds d) al)"
  assumes "distinct (map fst al)"
    and "\<And>d. d \<in> set (map fst al) \<Longrightarrow> Second \<le> d \<and> d mod Second = 0 \<and> d < 2 ^ 63"
  shows "distinct (map tick_ttl ks)" and "tick_ttl ` set ks = set (map fst al)"
proof -
  have eq: "map tick_ttl (map (\<lambda>(d, _). Seconds d) al) = map fst al"
  proof (rule nth_equalityI)
    fix i assume "i < length (map tick_ttl (map (\<lambda>(d, _). Seconds d) al))"
    then have i: "i < length al" by simp
    then have "fst (al ! i) \<in> set (map fst al)" by simp
    from assms(3) [OF this] i
    show "map tick_ttl (map (\<lambda>(d, _). Seconds d) al) ! i = map fst al ! i"
      by (simp add: tick_ttl_Seconds case_prod_beta)
  qed simp
  have "mset (map tick_ttl ks) = mset (map tick_ttl (map (\<lambda>(d, _). Seconds d) al))"
    unfolding ks_def by (simp only: mset_map mset_sort)
  then have "mset (map tick_ttl ks) = mset (map fst al)" unfolding eq .
  then show "distinct (map tick_ttl ks)" and "tick_ttl ` set ks = set (map fst al)"
    using assms(2) mset_eq_imp_distinct_iff mset_eq_setD by (metis, metis list.set_map)
qed

lemma kv_tick_whole:
  assumes inv: "kv_inv s" and whole: "ttls_whole s" and tick: "kv_tick clk s = Some s'"
  shows "\<exists>i. kv_list s' d = pop_dead (\<lambda>a. kv_dead (clk i) (heap s a)) (kv_list s d)"
proof -
  define ks where "ks = sort (map (\<lambda>(d, _). Seconds d) (listTTL s))"
  have spec: "(kv_list s', items s') = spec_scan (\<lambda>a. e_key (heap s a))
       (\<lambda>now a. kv_dead now (heap s a)) clk ks (kv_list s, items s)"
    using kv_tick_refines [OF inv, of clk] tick by (auto simp: ks_def)
  have dist: "distinct (map fst (listTTL s))" using inv by (simp add: kv_inv_def)
  have "Second \<le> x \<and> x mod Second = 0 \<and> x < 2 ^ 63" if "x \<in> set (map fst (listTTL s))" for x
    using that whole ttl_ge_Second [OF inv that] unfolding ttls_whole_def by blast
  note ks = tick_keys [OF dist this, folded ks_def]
  define S' where "S' = spec_scan (\<lambda>a. e_key (heap s a))
       (\<lambda>now a. kv_dead now (heap s a)) clk ks (kv_list s, items s)"
  have S': "kv_list s' = fst S'"
    using arg_cong [OF spec, of fst] by (simp add: S'_def)
  show ?thesis
  proof (cases "d \<in> tick_ttl ` set ks")
    case True
    show ?thesis
      using spec_scan_once [OF ks(1) True, of "\<lambda>a. e_key (heap s a)"
          "\<lambda>now a. kv_dead now (heap s a)" clk "(kv_list s, items s)"]
      unfolding S' S'_def by simp
  next
    case False
    then have d: "kv_list s d = []" using ks(2) kv_list_ttl by blast
    have "b \<in> set (kv_list s' d) \<Longrightarrow> b \<in> set (kv_list s d)" for b
      unfolding S' S'_def by (drule spec_scan_subset) simp
    then have "kv_list s' d = []" using d by (cases "kv_list s' d") auto
    with d show ?thesis by (simp add: pop_dead_def)
  qed
qed

text \<open>TTLs with a fraction of a second are never looked at.\<close>

lemma kv_tick_fraction:
  assumes inv: "kv_inv s" and tick: "kv_tick clk s = Some s'" and d: "d mod Second \<noteq> 0"
  shows "kv_list s' d = kv_list s d"
proof -
  define ks where "ks = sort (map (\<lambda>(d, _). Seconds d) (listTTL s))"
  have "(kv_list s', items s') = spec_scan (\<lambda>a. e_key (heap s a))
       (\<lambda>now a. kv_dead now (heap s a)) clk ks (kv_list s, items s)"
    using kv_tick_refines [OF inv, of clk] tick by (auto simp: ks_def)
  from arg_cong [OF this, of fst] show ?thesis
    using d spec_scan_other [of ks d] tick_ttl_whole by fastforce
qed

text \<open>A dead first cell takes its key along, whatever cell the key maps to by then.\<close>

lemma kv_tick_drops_key:
  assumes inv: "kv_inv s" and tick: "kv_tick clk s = Some s'"
    and list: "kv_list s d = a # xs" and d: "d mod Second = 0" "d < 2 ^ 63"
    and dead: "\<And>i. kv_dead (clk i) (heap s a)" and key: "e_key (heap s a) = Some k"
  shows "items s' k = None"
proof -
  define ks where "ks = sort (map (\<lambda>(d, _). Seconds d) (listTTL s))"
  have spec: "(kv_list s', items s') = spec_scan (\<lambda>a. e_key (heap s a))
       (\<lambda>now a. kv_dead now (heap s a)) clk ks (kv_list s, items s)"
    using kv_tick_refines [OF inv, of clk] tick by (auto simp: ks_def)
  have "d \<in> set (map fst (listTTL s))" using list kv_list_ttl [of s d] by simp
  then have "Second \<le> d" and "Seconds d \<in> set ks"
    using ttl_ge_Second [OF inv] by (auto simp: ks_def rev_image_eqI)
  then have mem: "d \<in> tick_ttl ` set ks" using d tick_ttl_Seconds [of d] by (metis rev_image_eqI)
  have "snd (spec_scan (\<lambda>a. e_key (heap s a)) (\<lambda>now a. kv_dead now (heap s a)) clk ks
      (kv_list s, items s)) k = None"
    by (rule spec_scan_drops_key [where a = a and xs = xs, OF _ _ _ mem])
      (simp_all add: list dead key)
  then show ?thesis unfolding spec [symmetric] by simp
qed

lemma kv_tick_frame:
  assumes "kv_inv s" "kv_tick clk s = Some s'"
  shows "kv_inv s'" and "map fst (listTTL s') = map fst (listTTL s)"
    and "b \<in> set (kv_list s' d) \<Longrightarrow> cell_data (heap s' b) = cell_data (heap s b)"
  using kv_tick_refines [OF assms(1), of clk] assms(2) by auto

section \<open>Many ticks\<close>

text \<open>
  Once all cells of a list have expired, every tick takes out exactly one of them: the list
  drains at the rate of one cell per tick.
\<close>

lemma kv_ticks_drain:
  assumes "kv_inv s" "ttls_whole s"
    and "\<And>clk i a. clk \<in> set clks \<Longrightarrow> a \<in> set (kv_list s d) \<Longrightarrow> e_expireAt (heap s a) < clk i"
  shows "\<exists>s'. foldM kv_tick clks s = Some s' \<and> kv_list s' d = drop (length clks) (kv_list s d)"
  using assms
proof (induction clks arbitrary: s)
  case Nil
  then show ?case by simp
next
  case (Cons clk clks)
  obtain s1 where s1: "kv_tick clk s = Some s1" using kv_tick_refines [OF Cons.prems(1)] by blast
  obtain i where "kv_list s1 d = pop_dead (\<lambda>a. kv_dead (clk i) (heap s a)) (kv_list s d)"
    using kv_tick_whole [OF Cons.prems(1,2) s1] by blast
  moreover have "a \<in> set (kv_list s d) \<Longrightarrow> kv_dead (clk i) (heap s a)" for a
    using Cons.prems(3) by (simp add: kv_dead_def entry_Expired_def)
  ultimately have tl: "kv_list s1 d = tl (kv_list s d)"
    by (auto simp: pop_dead_def split: list.splits)
  have "\<exists>s'. foldM kv_tick clks s1 = Some s' \<and> kv_list s' d = drop (length clks) (kv_list s1 d)"
  proof (rule Cons.IH)
    show "kv_inv s1" using kv_tick_frame(1) [OF Cons.prems(1) s1] .
    show "ttls_whole s1"
      using Cons.prems(2) kv_tick_frame(2) [OF Cons.prems(1) s1] unfolding ttls_whole_def by simp
    fix clk' i a assume "clk' \<in> set clks" "a \<in> set (kv_list s1 d)"
    then show "e_expireAt (heap s1 a) < clk' i"
      using Cons.prems(3) [of clk' a i] kv_tick_frame(3) [OF Cons.prems(1) s1, of a d] tl
      by (simp add: cell_data_def in_set_tlD)
  qed
  then show ?case using s1 by (simp add: tl drop_Suc)
qed

end
