(* ===== verification/KVSM_Store.thy ===== *)
theory KVSM_Store
  imports KVSM_Expiry
begin

text \<open>
  The contract of the in-memory store towards the cache built on it: what a lookup returns
  after each operation of a client. The locale \<open>cache_store\<close> states it, the cache proves its
  own lemmas from it, and the store's model discharges it.
\<close>

locale cache_store =
  fixes ok :: "'s \<Rightarrow> bool"
    and room :: "'s \<Rightarrow> addr \<Rightarrow> bool"
    and st_set :: "time \<Rightarrow> addr \<Rightarrow> u64 \<Rightarrow> 'v option \<Rightarrow> duration \<Rightarrow> 's \<Rightarrow> 's"
    and st_get :: "time \<Rightarrow> u64 \<Rightarrow> 's \<Rightarrow> ('v option \<times> bool \<times> bool) go"
    and st_swap :: "time \<Rightarrow> addr \<Rightarrow> u64 \<Rightarrow> 'v option \<Rightarrow> duration \<Rightarrow> 's \<Rightarrow> (bool \<times> 's) go"
    and st_del :: "u64 \<Rightarrow> 's \<Rightarrow> 's"
  assumes ok_set: "ok s \<Longrightarrow> room s a \<Longrightarrow> ok (st_set now a k v ttl s)"
    and ok_del: "ok s \<Longrightarrow> ok (st_del k s)"
    and get_total: "ok s \<Longrightarrow> \<exists>r. st_get now k s = Some r"
    and get_set: "st_get now' k (st_set now a k v ttl s) = Some (v, now + ttl < now', True)"
    and get_set_other:
      "ok s \<Longrightarrow> room s a \<Longrightarrow> k' \<noteq> k \<Longrightarrow> st_get now' k' (st_set now a k v ttl s) = st_get now' k' s"
    and get_del: "st_get now k (st_del k s) = Some (None, True, False)"
    and get_del_other: "ok s \<Longrightarrow> k' \<noteq> k \<Longrightarrow> st_get now k' (st_del k s) = st_get now k' s"
    and swap_hit:
      "ok s \<Longrightarrow> st_get t k s = Some (old, x, True) \<Longrightarrow>
       \<exists>s'. st_swap now a k v ttl s = Some (True, s') \<and> ok s' \<and>
         (\<forall>now' w e b. st_get now' k s = Some (w, e, b) \<longrightarrow> st_get now' k s' = Some (v, e, True)) \<and>
         (\<forall>now' k'. k' \<noteq> k \<longrightarrow> st_get now' k' s' = st_get now' k' s)"
    and swap_miss:
      "st_get t k s = Some (old, x, False) \<Longrightarrow>
       st_swap now a k v ttl s = Some (True, st_set now a k v ttl s)"
begin

text \<open>A key that was just stored is found with its value, until its time is over.\<close>

lemma set_del: "st_get now' k (st_del k (st_set now a k v ttl s)) = Some (None, True, False)"
  by (rule get_del)

text \<open>Swapping the value of a stored key keeps the expiry it was stored with.\<close>

lemma set_swap:
  assumes "ok s" "room s a"
  shows "\<exists>s'. st_swap t2 b k w ttl2 (st_set t1 a k v ttl1 s) = Some (True, s') \<and> ok s' \<and>
    (\<forall>now. st_get now k s' = Some (w, t1 + ttl1 < now, True))"
proof -
  let ?s = "st_set t1 a k v ttl1 s"
  obtain s' where "st_swap t2 b k w ttl2 ?s = Some (True, s')" "ok s'"
    "\<And>now' u e b. st_get now' k ?s = Some (u, e, b) \<Longrightarrow> st_get now' k s' = Some (w, e, True)"
    using swap_hit [OF ok_set [OF assms] get_set] by blast
  then show ?thesis using get_set by blast
qed

text \<open>Storing a run of distinct keys keeps every one of them.\<close>

lemma sets_get:
  assumes "ok s" "distinct (map fst kvs)" "(k, v) \<in> set kvs"
    and "\<And>s. ok s \<Longrightarrow> room s (alloc s)"
  shows "st_get now' k (fold (\<lambda>(k, v) s. st_set now (alloc s) k v ttl s) kvs s)
     = Some (v, now + ttl < now', True)"
proof -
  have later: "st_get now' k (fold (\<lambda>(k, v) s. st_set now (alloc s) k v ttl s) kvs s) = st_get now' k s"
    if "ok s" "k \<notin> fst ` set kvs" for kvs s
    using that
  proof (induction kvs arbitrary: s)
    case Nil
    then show ?case by simp
  next
    case (Cons p kvs)
    then show ?case
      by (cases p) (auto simp: assms(4) ok_set get_set_other)
  qed
  show ?thesis
    using assms(1-3)
  proof (induction kvs arbitrary: s)
    case Nil
    then show ?case by simp
  next
    case (Cons p kvs)
    obtain k1 v1 where p: "p = (k1, v1)" by (cases p)
    have ok1: "ok (st_set now (alloc s) k1 v1 ttl s)"
      using Cons.prems(1) assms(4) ok_set by blast
    show ?case
    proof (cases "(k, v) \<in> set kvs")
      case True
      then show ?thesis using Cons.IH [OF ok1] Cons.prems(2) p by simp
    next
      case False
      then have "k = k1" "v = v1" using Cons.prems(3) p by auto
      then show ?thesis using later [OF ok1, of kvs] Cons.prems(2) p by (simp add: get_set)
    qed
  qed
qed

end

section \<open>The store fulfils it\<close>

lemma kv_Get_Set: "kv_Get now' k (kv_Set now a k v ttl s) = Some (v, now + ttl < now', True)"
  by (simp add: kv_Get_def kv_Set_def Let_def entry_ops_def)

lemma kv_Get_Set_other:
  assumes "kv_inv s" "entryPool_Get (entryPool s) (fresh s) a" "k' \<noteq> k"
  shows "kv_Get now' k' (kv_Set now a k v ttl s) = kv_Get now' k' s"
proof -
  have "items s k' \<noteq> Some a"
    using assms entryPool_Get_fresh kv_items_live by blast
  then show ?thesis
    using assms(3) by (auto simp: kv_Get_def kv_Set_def Let_def split: option.split)
qed

lemma kv_Get_RemoveByKey: "kv_Get now k (kv_RemoveByKey k s) = Some (None, True, False)"
  by (simp add: kv_Get_def kv_RemoveByKey_def split: option.split)

text \<open>Two keys never share a cell.\<close>

lemma kv_items_inj: "kv_inv s \<Longrightarrow> items s k = Some a \<Longrightarrow> items s k' = Some a \<Longrightarrow> k = k'"
  unfolding kv_inv_def kv_items_ok_def by (metis option.inject)

lemma kv_Get_RemoveByKey_other:
  assumes "kv_inv s" "k' \<noteq> k"
  shows "kv_Get now k' (kv_RemoveByKey k s) = kv_Get now k' s"
  using assms kv_items_inj [OF assms(1), of k _ k']
  by (auto simp: kv_Get_def kv_RemoveByKey_def split: option.split)

lemma kv_Swap_hit:
  assumes inv: "kv_inv s" and get: "kv_Get t k s = Some (old, x, True)"
  shows "\<exists>s'. kv_Swap now a k v ttl s = Some (True, s') \<and> kv_inv s' \<and>
    (\<forall>now' w e b. kv_Get now' k s = Some (w, e, b) \<longrightarrow> kv_Get now' k s' = Some (v, e, True)) \<and>
    (\<forall>now' k'. k' \<noteq> k \<longrightarrow> kv_Get now' k' s' = kv_Get now' k' s)"
proof -
  obtain b where b: "items s k = Some b"
    using get by (auto simp: kv_Get_def split: option.splits)
  then obtain p where p: "e_p (heap s b) = Some p" using inv kv_items_ptr by blast
  define s' where "s' = kv_callback p (s\<lparr>heap := (heap s)(b := (heap s b)\<lparr>e_p := Some v\<rparr>)\<rparr>)"
  have "kv_Swap now a k v ttl s = Some (True, s')"
    by (simp add: kv_Swap_def b entry_SwapValue_def p s'_def)
  moreover from this have "kv_inv s'"
    using kv_inv_Swap [OF inv, of k a now v ttl] b by auto
  moreover have items: "items s' = items s"
    and heap: "heap s' = (heap s)(b := (heap s b)\<lparr>e_p := Some v\<rparr>)"
    by (simp_all add: s'_def kv_callback_def split: option.split)
  moreover have "kv_Get now' k' s' = kv_Get now' k' s" if "k' \<noteq> k" for now' k'
    using kv_items_inj [OF inv b, of k'] that
    by (auto simp: kv_Get_def items heap split: option.split)
  ultimately show ?thesis
    by (auto simp: kv_Get_def b p entry_GetValue_def entry_Expired_def)
qed

lemma kv_Swap_miss:
  "kv_Get t k s = Some (old, x, False) \<Longrightarrow>
   kv_Swap now a k v ttl s = Some (True, kv_Set now a k v ttl s)"
  by (auto simp: kv_Get_def kv_Swap_def split: option.splits)

interpretation kv: cache_store
  kv_inv "\<lambda>s a. entryPool_Get (entryPool s) (fresh s) a" kv_Set kv_Get kv_Swap kv_RemoveByKey
  by unfold_locales
    (rule kv_inv_Set kv_inv_RemoveByKey kv_Get_total kv_Get_Set kv_Get_Set_other
      kv_Get_RemoveByKey kv_Get_RemoveByKey_other kv_Swap_hit kv_Swap_miss; assumption)+

end
