(* ===== verification/KVSM_Props.thy ===== *)
theory KVSM_Props
  imports KVSM_Store
begin

text \<open>
  The properties of the in-memory store, over its reachable states, with a witness for each
  property that has a hypothesis.
\<close>

section \<open>Example states\<close>

text \<open>One key stored for a second and filed, then stored again for ten seconds.\<close>

definition demo_set :: "(bool, unit) kvsm" where
  "demo_set = kv_Set 0 0 7 (Some True) Second (kv_New ())"

definition demo_filed :: "(bool, unit) kvsm" where
  "demo_filed = the (kv_recv demo_set)"

definition demo_refreshed :: "(bool, unit) kvsm" where
  "demo_refreshed = kv_Set 500000000 1 7 (Some False) (10 * Second) demo_filed"

lemma demo_set_reachable: "kv_reachable () demo_set"
  unfolding demo_set_def
  by (rule reach_step [OF reach_New step_Set])
    (simp_all add: entryPool_Get_def kv_New_def actionsBuffer_def)

lemma demo_filed_recv: "kv_recv demo_set = Some demo_filed"
  using kv_recv_total [OF kv_reachable_inv [OF demo_set_reachable]] by (auto simp: demo_filed_def)

lemma demo_filed_reachable: "kv_reachable () demo_filed"
  by (rule reach_step [OF demo_set_reachable step_recv [OF demo_filed_recv]])

lemma demo_filed_eq: "demo_filed = \<lparr>
    heap = (\<lambda>_. zero_entry)(0 := \<lparr>e_key = Some 7, e_expireAt = Second, e_p = Some (Some True),
       e_prev = None, e_next = None\<rparr>),
    entryPool = [], fresh = 1, items = (\<lambda>_. None)(7 := Some 0), n_items = 1, addLLCh = [],
    listTTL = [(Second, \<lparr>l_root = Some 0, l_last = Some 0, l_size = 1\<rparr>)],
    onEvicted = None, env = ()\<rparr>"
  by (simp add: demo_filed_def demo_set_def kv_recv_def kv_Set_def kv_New_def Let_def
      entry_ops_def entryPool_rest_def ll_Add_def ll_empty_def set_prev_def set_next_def)

lemma demo_refreshed_reachable: "kv_reachable () demo_refreshed"
  unfolding demo_refreshed_def
  by (rule reach_step [OF demo_filed_reachable step_Set])
    (simp_all add: entryPool_Get_def demo_filed_eq actionsBuffer_def)

lemma demo_lists:
  "kv_list demo_filed Second = [0]" "kv_list demo_refreshed Second = [0]"
  by (simp_all add: kv_list_def list_map_def ll_elems_def demo_filed_eq demo_refreshed_def
      kv_Set_def Let_def)

text \<open>A key stored for a second and a half, and filed.\<close>

definition demo_frac_set :: "(bool, unit) kvsm" where
  "demo_frac_set = kv_Set 0 0 7 (Some True) 1500000000 (kv_New ())"

definition demo_frac :: "(bool, unit) kvsm" where
  "demo_frac = the (kv_recv demo_frac_set)"

lemma demo_frac_set_reachable: "kv_reachable () demo_frac_set"
  unfolding demo_frac_set_def
  by (rule reach_step [OF reach_New step_Set])
    (simp_all add: entryPool_Get_def kv_New_def actionsBuffer_def)

lemma demo_frac_reachable: "kv_reachable () demo_frac"
  using kv_recv_total [OF kv_reachable_inv [OF demo_frac_set_reachable]] demo_frac_set_reachable
  by (auto simp: demo_frac_def intro: reach_step [OF _ step_recv])

lemma demo_frac_list: "kv_list demo_frac 1500000000 = [0]"
  by (simp add: demo_frac_def demo_frac_set_def kv_recv_def kv_Set_def kv_New_def Let_def
      entry_ops_def entryPool_rest_def ll_Add_def ll_empty_def set_prev_def set_next_def
      kv_list_def list_map_def ll_elems_def Second_def)

section \<open>Safety\<close>

text \<open>
  C33. In every reachable state, whatever the interleaving of clients and worker, no
  operation of the store panics (no nil dereference, no removal from an empty list).
\<close>

theorem kv_never_panics:
  assumes "kv_reachable x s"
  shows "kv_Get now k s \<noteq> None \<and> kv_Swap now a k v ttl s \<noteq> None \<and>
    kv_recv s \<noteq> None \<and> kv_tick clk s \<noteq> None"
proof -
  have inv: "kv_inv s" using assms by (rule kv_reachable_inv)
  have "kv_Get now k s \<noteq> None" "kv_recv s \<noteq> None" "kv_tick clk s \<noteq> None"
    using kv_Get_total [OF inv] kv_recv_total [OF inv] kv_tick_refines [OF inv] by fastforce+
  moreover have "kv_Swap now a k v ttl s \<noteq> None"
    using kv_items_ptr [OF inv] by (fastforce simp: kv_Swap_def entry_SwapValue_def split: option.split)
  ultimately show ?thesis by blast
qed

theorem kv_never_panics_witness:
  "kv_reachable () demo_refreshed \<and> kv_tick (\<lambda>_. 2 * Second) demo_refreshed \<noteq> None"
  using demo_refreshed_reachable kv_never_panics [OF demo_refreshed_reachable] by blast

text \<open>
  C34. A key never maps to a recycled or unallocated cell: in every reachable state the cell of
  a key carries that key, waits in the channel or in exactly one TTL list, and is not in
  the pool; and two keys never share a cell.
\<close>

theorem kv_no_recycled_cell:
  assumes "kv_reachable x s" and "items s k = Some a"
  shows "e_key (heap s a) = Some k \<and> a \<in> set (kv_live s) \<and> distinct (kv_live s) \<and>
    a \<notin> set (entryPool s) \<and> a < fresh s \<and> (\<forall>k'. items s k' = Some a \<longrightarrow> k' = k)"
proof -
  have inv: "kv_inv s" using assms(1) by (rule kv_reachable_inv)
  then have a: "a \<in> set (kv_live s)" using assms(2) by (rule kv_items_live)
  moreover have "e_key (heap s a) = Some k"
    using inv assms(2) by (simp add: kv_inv_def kv_items_ok_def)
  moreover have "distinct (kv_live s)" "a \<notin> set (entryPool s)" "a < fresh s"
    using inv a by (auto simp: kv_inv_def)
  ultimately show ?thesis using kv_items_inj [OF inv assms(2)] by blast
qed

theorem kv_no_recycled_cell_witness:
  "items demo_refreshed 7 = Some 1 \<and> 1 \<notin> set (entryPool demo_refreshed)"
proof -
  have "items demo_refreshed 7 = Some 1" by (simp add: demo_refreshed_def kv_Set_def Let_def)
  with kv_no_recycled_cell [OF demo_refreshed_reachable this] show ?thesis by blast
qed

text \<open>
  \<open>Len\<close> counts the cells that wait to be expired, in the channel or in a TTL list. It is an
  upper bound of the number of keys, and deleting a key does not lower it.
\<close>

theorem kv_Len_counts_cells:
  assumes "kv_reachable x s"
  shows "kv_Len s = int (length (addLLCh s)) + int (length (lists_of (heap s) (listTTL s))) \<and>
    finite (dom (items s)) \<and> int (card (dom (items s))) \<le> kv_Len s \<and>
    kv_Len (kv_RemoveByKey k s) = kv_Len s"
proof -
  have inv: "kv_inv s" using assms by (rule kv_reachable_inv)
  then have len: "kv_Len s = int (length (kv_live s))" by (simp add: kv_inv_def kv_Len_def)
  have sub: "(\<lambda>k. the (items s k)) ` dom (items s) \<subseteq> set (kv_live s)"
  proof
    fix a assume "a \<in> (\<lambda>k. the (items s k)) ` dom (items s)"
    then obtain k where "items s k = Some a" by auto
    then show "a \<in> set (kv_live s)" by (rule kv_items_live [OF inv])
  qed
  have inj: "inj_on (\<lambda>k. the (items s k)) (dom (items s))"
    by (rule inj_onI) (metis domD kv_items_inj [OF inv] option.sel)
  have fin: "finite (dom (items s))"
    using finite_imageD [OF finite_subset [OF sub] inj] by simp
  have "card (dom (items s)) = card ((\<lambda>k. the (items s k)) ` dom (items s))"
    by (rule card_image [OF inj, symmetric])
  also have "\<dots> \<le> card (set (kv_live s))" by (rule card_mono [OF _ sub]) simp
  also have "\<dots> \<le> length (kv_live s)" by (rule card_length)
  finally show ?thesis
    using len fin by (simp add: kv_live_def kv_Len_def kv_RemoveByKey_def split: option.split)
qed

theorem kv_Len_counts_cells_witness:
  "kv_Len demo_refreshed = 2 \<and> int (card (dom (items demo_refreshed))) \<le> kv_Len demo_refreshed"
  using kv_Len_counts_cells [OF demo_refreshed_reachable]
  by (simp add: kv_Len_def demo_refreshed_def demo_filed_eq kv_Set_def Let_def)

section \<open>Clients\<close>

text \<open>
  A value swapped in under a stored key is what a lookup returns from then on, but it
  expires when the value it replaced would have: the TTL passed to \<open>Swap\<close> is not used.
\<close>

theorem kv_Swap_keeps_expiry:
  assumes "kv_reachable x s" and "entryPool_Get (entryPool s) (fresh s) a"
  shows "\<exists>s'. kv_Swap t2 b k w ttl2 (kv_Set t1 a k v ttl1 s) = Some (True, s') \<and>
    (\<forall>now. kv_Get now k s' = Some (w, t1 + ttl1 < now, True))"
  using kv.set_swap [OF kv_reachable_inv [OF assms(1)] assms(2)] by blast

theorem kv_Swap_keeps_expiry_witness:
  "\<exists>s'. kv_Swap 1 5 7 (Some False) Hour (kv_Set 0 0 7 (Some True) Second (kv_New ())) = Some (True, s')
     \<and> kv_Get (2 * Second) 7 s' = Some (Some False, True, True)"
proof -
  have "entryPool_Get (entryPool (kv_New () :: (bool, unit) kvsm)) (fresh (kv_New () :: (bool, unit) kvsm)) 0"
    by (simp add: kv_New_def entryPool_Get_def)
  from kv_Swap_keeps_expiry [OF reach_New this, of 1 5 7 "Some False" Hour 0 "Some True" Second]
  show ?thesis by (auto simp: Second_def)
qed

text \<open>
  Storing a run of distinct keys, a cell of the pool for each, keeps every one of them:
  each is found with its own value, until its TTL is over.
\<close>

theorem kv_Set_many:
  assumes "kv_reachable x s" and "distinct (map fst kvs)" and "(k, v) \<in> set kvs"
    and "\<And>s. entryPool_Get (entryPool s) (fresh s) (alloc s)"
  shows "kv_Get now' k (fold (\<lambda>(k, v) s. kv_Set now (alloc s) k v ttl s) kvs s)
     = Some (v, now + ttl < now', True)"
  using kv.sets_get [OF kv_reachable_inv [OF assms(1)] assms(2,3,4)] by blast

theorem kv_Set_many_witness:
  "kv_Get 5 9 (fold (\<lambda>(k, v) s. kv_Set 0 (fresh s) k v Second s) [(7, Some 1), (9, Some (2::nat))]
      (kv_New ())) = Some (Some 2, False, True)"
proof -
  have "kv_Get 5 9 (fold (\<lambda>(k, v) s. kv_Set 0 (fresh s) k v Second s)
      [(7, Some 1), (9, Some (2::nat))] (kv_New ())) = Some (Some 2, 0 + Second < 5, True)"
    by (rule kv_Set_many [OF reach_New]) (simp_all add: entryPool_Get_def)
  then show ?thesis by (simp add: Second_def)
qed

section \<open>Expiration\<close>

text \<open>
  C6. A tick of the worker implements the specification: scanning the TTLs in ascending order,
  it looks at the first cell of each list, and if that cell was reset or has expired, it
  leaves the list and its key leaves the map. Nothing else changes: the cells that stay
  keep their data.
\<close>

theorem kv_tick_implements_spec:
  assumes "kv_reachable x s"
  shows "\<exists>s'. kv_tick clk s = Some s' \<and>
    (kv_list s', items s') = spec_scan (\<lambda>a. e_key (heap s a))
       (\<lambda>now a. kv_dead now (heap s a)) clk (sort (map (\<lambda>(d, _). Seconds d) (listTTL s)))
       (kv_list s, items s) \<and>
    (\<forall>d. \<forall>b \<in> set (kv_list s' d). cell_data (heap s' b) = cell_data (heap s b))"
  using kv_tick_refines [OF kv_reachable_inv [OF assms], of clk] by blast

theorem kv_tick_implements_spec_witness:
  "\<exists>s'. kv_tick (\<lambda>_. 2 * Second) demo_filed = Some s' \<and>
    (kv_list s', items s') = spec_scan (\<lambda>a. e_key (heap demo_filed a))
       (\<lambda>now a. kv_dead now (heap demo_filed a)) (\<lambda>_. 2 * Second)
       (sort (map (\<lambda>(d, _). Seconds d) (listTTL demo_filed))) (kv_list demo_filed, items demo_filed)"
  using kv_tick_implements_spec [OF demo_filed_reachable, of "\<lambda>_. 2 * Second"] by blast

text \<open>
  C35. Liveness, and its rate: when the TTLs in use are whole seconds and every cell of a list
  has expired by the time of the coming ticks, each tick takes exactly one cell out of the
  list, so it is empty after as many ticks as it had cells, and not before.
\<close>

theorem kv_ticks_drain_one_by_one:
  assumes "kv_reachable x s" and "ttls_whole s"
    and "\<forall>clk \<in> set clks. \<forall>i. \<forall>a \<in> set (kv_list s d). e_expireAt (heap s a) < clk i"
  shows "\<exists>s'. foldM kv_tick clks s = Some s' \<and>
    kv_list s' d = drop (length clks) (kv_list s d) \<and>
    (kv_list s' d = [] \<longleftrightarrow> length (kv_list s d) \<le> length clks)"
proof -
  have "\<exists>s'. foldM kv_tick clks s = Some s' \<and> kv_list s' d = drop (length clks) (kv_list s d)"
    by (rule kv_ticks_drain [OF kv_reachable_inv [OF assms(1)] assms(2)]) (use assms(3) in blast)
  then show ?thesis by auto
qed

theorem kv_ticks_drain_one_by_one_witness:
  "\<exists>s'. foldM kv_tick [\<lambda>_. 3 * Second] demo_filed = Some s' \<and> kv_list s' Second = []"
proof -
  have "ttls_whole demo_filed" by (simp add: ttls_whole_def demo_filed_eq Second_def)
  from kv_ticks_drain_one_by_one [OF demo_filed_reachable this, of "[\<lambda>_. 3 * Second]" Second]
  show ?thesis by (auto simp: demo_lists) (simp add: demo_filed_eq Second_def)
qed

text \<open>
  A TTL with a fraction of a second is never scanned: the worker looks lists up under the
  TTL truncated to whole seconds, so no tick ever takes a cell out of such a list, however
  late it is.
\<close>

theorem kv_fractional_ttl_never_expires:
  assumes "kv_reachable x s" and "d mod Second \<noteq> 0"
  shows "\<exists>s'. foldM kv_tick clks s = Some s' \<and> kv_list s' d = kv_list s d"
proof -
  have "\<exists>s'. foldM kv_tick clks s = Some s' \<and> kv_inv s' \<and> kv_list s' d = kv_list s d"
  proof (rule foldM_invariant [of "\<lambda>t. kv_inv t \<and> kv_list t d = kv_list s d"])
    show "kv_inv s \<and> kv_list s d = kv_list s d" using kv_reachable_inv [OF assms(1)] by simp
    fix clk t assume t: "kv_inv t \<and> kv_list t d = kv_list s d"
    then obtain t' where "kv_tick clk t = Some t'" using kv_tick_refines by blast
    with t kv_tick_frame(1) kv_tick_fraction assms(2)
    show "\<exists>t'. kv_tick clk t = Some t' \<and> kv_inv t' \<and> kv_list t' d = kv_list s d" by metis
  qed
  then show ?thesis by blast
qed

theorem kv_fractional_ttl_never_expires_witness:
  "\<exists>s'. foldM kv_tick [\<lambda>_. 60 * Second, \<lambda>_. 120 * Second] demo_frac = Some s' \<and>
     kv_list s' 1500000000 = [0]"
  using kv_fractional_ttl_never_expires [OF demo_frac_reachable, of 1500000000
      "[\<lambda>_. 60 * Second, \<lambda>_. 120 * Second]"]
  by (simp add: demo_frac_list Second_def)

text \<open>
  C36. Storing a key again does not protect it from its old cell: when the old cell, first in
  its list, expires, the tick deletes the key, although the cell it maps to by now has not
  expired, and the lookup that found the new value no longer finds the key.
\<close>

theorem kv_stale_cell_deletes_fresh_key:
  assumes "kv_reachable x s" and "kv_list s d = a # xs" and "d mod Second = 0" and "d < 2 ^ 63"
    and "e_key (heap s a) = Some k" and "\<And>i. e_expireAt (heap s a) < clk i"
    and "items s k = Some b" and "\<And>i. clk i \<le> e_expireAt (heap s b)"
  shows "\<exists>v s'. kv_Get (clk i) k s = Some (v, False, True) \<and> kv_tick clk s = Some s' \<and>
    kv_Get (clk i) k s' = Some (None, True, False)"
proof -
  have inv: "kv_inv s" using assms(1) by (rule kv_reachable_inv)
  obtain s' where s': "kv_tick clk s = Some s'" using kv_tick_refines [OF inv] by blast
  have "items s' k = None"
    by (rule kv_tick_drops_key [OF inv s' assms(2-4) _ assms(5)])
      (simp add: kv_dead_def entry_Expired_def assms(6))
  moreover have "\<exists>v. kv_Get (clk i) k s = Some (v, False, True)"
    using kv_items_ptr [OF inv assms(7)] assms(7) assms(8) [of i]
    by (auto simp: kv_Get_def entry_GetValue_def entry_Expired_def)
  ultimately show ?thesis using s' by (auto simp: kv_Get_def)
qed

theorem kv_stale_cell_deletes_fresh_key_witness:
  "\<exists>v s'. kv_Get (2 * Second) 7 demo_refreshed = Some (v, False, True) \<and>
    kv_tick (\<lambda>_. 2 * Second) demo_refreshed = Some s' \<and>
    kv_Get (2 * Second) 7 s' = Some (None, True, False)"
  by (rule kv_stale_cell_deletes_fresh_key [OF demo_refreshed_reachable demo_lists(2), where b = 1])
    (simp_all add: demo_refreshed_def demo_filed_eq kv_Set_def Let_def Second_def entry_ops_def)

end
