(* ===== verification/Go_IO.thy ===== *)
theory Go_IO
  imports Prelude "HOL-Library.Sublist"
begin

text \<open>
  Go slices of bytes, \<open>io.Writer\<close>, and the outcomes of file operations. A slice is its
  backing array and its length; bytes between the length and the capacity are still there.
  A writer is a function on the state of what it writes to, returning the number of bytes
  written and an error. The locale \<open>sink\<close> is the contract of a writer that accepts every
  write while it is in a good state, and stays in one.
\<close>

datatype lsm_error =
    ErrWrongRange | ErrItemDiskWrite | ErrReadingItemDisk | ErrItemNotFound
  | ErrShortWrite | ErrClosed | ErrNegativeOffset | ErrOS | ErrNoBody

section \<open>int64\<close>

definition wrap64 :: "int \<Rightarrow> int" where
  "wrap64 x = (x + 2 ^ 63) mod 2 ^ 64 - 2 ^ 63"

lemma wrap64_id: "- (2 ^ 63) \<le> x \<Longrightarrow> x < 2 ^ 63 \<Longrightarrow> wrap64 x = x"
  by (simp add: wrap64_def)

section \<open>Slices\<close>

record gslice =
  garr :: "byte list"
  glen :: nat

definition gbytes :: "gslice \<Rightarrow> byte list" where
  "gbytes s = take (glen s) (garr s)"

definition gcap :: "gslice \<Rightarrow> nat" where
  "gcap s = length (garr s)"

definition gslice_ok :: "gslice \<Rightarrow> bool" where
  "gslice_ok s \<longleftrightarrow> glen s \<le> gcap s"

text \<open>\<open>make([]byte, 0, c)\<close> and \<open>s[:0]\<close>\<close>

definition gmake :: "nat \<Rightarrow> gslice" where
  "gmake c = \<lparr>garr = replicate c 0, glen = 0\<rparr>"

definition gtruncate :: "gslice \<Rightarrow> gslice" where
  "gtruncate s = s\<lparr>glen := 0\<rparr>"

text \<open>
  \<open>append(s, b...)\<close> writes into the backing array when it fits and otherwise copies to a new
  array, whose capacity the run-time system chooses: \<open>grow\<close> is that choice.
\<close>

definition gappend :: "(nat \<Rightarrow> nat \<Rightarrow> nat) \<Rightarrow> gslice \<Rightarrow> byte list \<Rightarrow> gslice" where
  "gappend grow s b =
     (let n = glen s + length b in
      if n \<le> gcap s
      then \<lparr>garr = gbytes s @ b @ drop n (garr s), glen = n\<rparr>
      else \<lparr>garr = gbytes s @ b @ replicate (grow (gcap s) n - n) 0, glen = n\<rparr>)"

text \<open>\<open>s[i:j]\<close> is bounded by the capacity, not by the length, and panics outside.\<close>

definition greslice :: "gslice \<Rightarrow> int \<Rightarrow> int \<Rightarrow> byte list go" where
  "greslice s i j =
     (if 0 \<le> i \<and> i \<le> j \<and> j \<le> int (gcap s)
      then Some (take (nat (j - i)) (drop (nat i) (garr s))) else None)"

lemma gmake_ok [simp]: "gslice_ok (gmake c)" "gbytes (gmake c) = []" "gcap (gmake c) = c"
  by (simp_all add: gmake_def gslice_ok_def gbytes_def gcap_def)

lemma gtruncate_ok [simp]: "gslice_ok (gtruncate s)" "gbytes (gtruncate s) = []"
  "gcap (gtruncate s) = gcap s" "glen (gtruncate s) = 0"
  by (simp_all add: gtruncate_def gslice_ok_def gbytes_def gcap_def)

lemma length_gbytes: "gslice_ok s \<Longrightarrow> length (gbytes s) = glen s"
  by (simp add: gbytes_def gslice_ok_def gcap_def)

lemma gappend_ok:
  assumes "gslice_ok s"
  shows "gslice_ok (gappend grow s b)" and "gbytes (gappend grow s b) = gbytes s @ b"
    and "gcap s \<le> gcap (gappend grow s b)"
  using assms length_gbytes [OF assms]
  by (auto simp: gappend_def Let_def gslice_ok_def gcap_def gbytes_def [of "\<lparr>garr = _, glen = _\<rparr>"])

lemma greslice_within:
  assumes "gslice_ok s" "0 \<le> i" "i \<le> j" "j \<le> int (glen s)"
  shows "greslice s i j = Some (take (nat (j - i)) (drop (nat i) (gbytes s)))"
proof -
  have "take (nat (j - i)) (drop (nat i) (gbytes s)) = take (nat (j - i)) (drop (nat i) (garr s))"
    using assms by (simp add: gbytes_def drop_take take_take nat_diff_distrib min_def)
  then show ?thesis using assms by (simp add: greslice_def gslice_ok_def)
qed

section \<open>Writers\<close>

type_synonym 'w writer = "byte list \<Rightarrow> 'w \<Rightarrow> int \<times> lsm_error option \<times> 'w"

locale sink =
  fixes wr :: "'w writer" and contents :: "'w \<Rightarrow> byte list" and good :: "'w \<Rightarrow> bool"
  assumes write_all: "good w \<Longrightarrow>
    \<exists>w'. wr b w = (int (length b), None, w') \<and> good w' \<and> contents w' = contents w @ b"
begin

lemma writeE:
  assumes "good w"
  obtains w' where "wr b w = (int (length b), None, w')" "good w'" "contents w' = contents w @ b"
  using write_all [OF assms] by blast

end

text \<open>\<open>bytes.Buffer\<close>\<close>

definition buf_Write :: "byte list writer" where
  "buf_Write b w = (int (length b), None, w @ b)"

interpretation buf: sink buf_Write "\<lambda>w. w" "\<lambda>_. True"
  by unfold_locales (simp add: buf_Write_def)

text \<open>\<open>io.Copy\<close> from a file that holds \<open>src\<close>, in chunks of 32 KB.\<close>

function io_Copy :: "'w writer \<Rightarrow> byte list \<Rightarrow> int \<Rightarrow> 'w \<Rightarrow> int \<times> lsm_error option \<times> 'w" where
  "io_Copy wr src written w =
     (if src = [] then (written, None, w)
      else case wr (take 32768 src) w of
        (nw, ew, w') \<Rightarrow>
          let written' = (if 0 < nw then written + nw else written) in
          if ew \<noteq> None then (written', ew, w')
          else if nw \<noteq> int (length (take 32768 src)) then (written', Some ErrShortWrite, w')
          else io_Copy wr (drop 32768 src) written' w')"
  by pat_completeness auto
termination
  by (relation "measure (\<lambda>(wr, src, written, w). length src)") auto

declare io_Copy.simps [simp del]

context sink
begin

lemma io_Copy_all:
  assumes "good w"
  shows "\<exists>w'. io_Copy wr src written w = (written + int (length src), None, w') \<and> good w' \<and>
     contents w' = contents w @ src"
  using assms
proof (induction "length src" arbitrary: src written w rule: less_induct)
  case less
  show ?case
  proof (cases "src = []")
    case True
    then show ?thesis using less.prems by (subst io_Copy.simps) simp
  next
    case False
    obtain w1 where w1: "wr (take 32768 src) w = (int (length (take 32768 src)), None, w1)"
      "good w1" "contents w1 = contents w @ take 32768 src" by (rule writeE [OF less.prems])
    have "length (drop 32768 src) < length src" using False by simp
    from less.hyps [OF this w1(2), of "written + int (length (take 32768 src))"]
    obtain w' where
      "io_Copy wr (drop 32768 src) (written + int (length (take 32768 src))) w1
        = (written + int (length (take 32768 src)) + int (length (drop 32768 src)), None, w')"
      "good w'" "contents w' = contents w1 @ drop 32768 src" by blast
    with w1 False show ?thesis
      by (subst io_Copy.simps) (auto simp: Let_def min_def)
  qed
qed

end

section \<open>Files\<close>

text \<open>
  The outcome of one \<open>write\<close> to a file: all bytes, or only the first \<open>k\<close> and an error. Reads
  of an open file return what the file holds; \<open>ReadAt\<close> signals the end of the file when it
  could not fill the buffer.
\<close>

datatype wres = W_ok | W_fail nat

definition file_Write :: "wres \<Rightarrow> byte list \<Rightarrow> byte list \<Rightarrow> int \<times> lsm_error option \<times> byte list" where
  "file_Write r b f =
     (case r of
        W_ok \<Rightarrow> (int (length b), None, f @ b)
      | W_fail k \<Rightarrow> (int (min k (length b)), Some ErrOS, f @ take k b))"

definition file_ReadAt :: "byte list \<Rightarrow> nat \<Rightarrow> nat \<Rightarrow> byte list \<times> bool" where
  "file_ReadAt f n off = (let b = take n (drop off f) in (b, length b < n))"

lemma file_ReadAt_full: "off + n \<le> length f \<Longrightarrow> file_ReadAt f n off = (take n (drop off f), False)"
  by (simp add: file_ReadAt_def)

end
