(* ===== verification/VFile.thy ===== *)
theory VFile
  imports Go_IO Go_Time
begin

text \<open>
  \<open>lsm/vfile.go\<close>: the append-only file that the bodies of responses are moved into. A file
  is open for writing (\<open>vf_w\<close>) and for reading (\<open>vf_r\<close>) or not; \<open>vf_file\<close> is what it holds
  on disk and \<open>vf_size\<close> the number of bytes that the program counts, which \<open>Seek\<close> returns.
  Times are in nanoseconds. The log lines and the finalizer of the run-time system are left
  out.
\<close>

record vfile =
  vf_ttl :: int
  vf_expireAt :: int
  vf_no :: nat
  vf_w :: bool
  vf_r :: bool
  vf_size :: int
  vf_autoExpire :: nat
  vf_file :: "byte list"
  vf_linked :: bool

definition maxWaiting :: int where "maxWaiting = Hour * 1"

text \<open>
  \<open>VFileNew\<close> takes the next number of the global counter for the name; it panics when the
  file cannot be created or opened.
\<close>

definition VFileNew :: "bool \<Rightarrow> bool \<Rightarrow> int \<Rightarrow> int \<Rightarrow> nat \<Rightarrow> (vfile \<times> nat) go" where
  "VFileNew create_ok open_ok now ttl fileNo =
     (if create_ok \<and> open_ok
      then Some (\<lparr>vf_ttl = ttl, vf_expireAt = now + ttl + 5 * Second, vf_no = fileNo + 1,
             vf_w = True, vf_r = True, vf_size = 0, vf_autoExpire = 0, vf_file = [],
             vf_linked = True\<rparr>, fileNo + 1)
      else None)"

definition vf_Expired :: "int \<Rightarrow> vfile \<Rightarrow> bool" where
  "vf_Expired now vf \<longleftrightarrow> now > vf_expireAt vf"

text \<open>Reading: the bytes, and \<open>io.EOF\<close> or another error.\<close>

datatype read_err = EOF | ReadErr lsm_error

definition vf_ReadAt :: "vfile \<Rightarrow> nat \<Rightarrow> int \<Rightarrow> byte list \<times> read_err option" where
  "vf_ReadAt vf n off =
     (if \<not> vf_r vf then ([], Some (ReadErr ErrClosed))
      else if off < 0 then ([], Some (ReadErr ErrNegativeOffset))
      else case file_ReadAt (vf_file vf) n (nat off) of
          (b, eof) \<Rightarrow> (b, if eof then Some EOF else None))"

text \<open>
  \<open>Write\<close> moves the expiry first, whether the write succeeds or not, and counts the bytes
  only of a write that succeeded.
\<close>

definition vf_Write :: "int \<Rightarrow> wres \<Rightarrow> byte list \<Rightarrow> vfile \<Rightarrow> int \<times> lsm_error option \<times> vfile" where
  "vf_Write now r b vf =
     (let vf1 = vf\<lparr>vf_expireAt := now + vf_ttl vf + 5 * Second\<rparr> in
      if \<not> vf_w vf then (0, Some ErrClosed, vf1)
      else case file_Write r b (vf_file vf) of
          (n, err, f) \<Rightarrow>
            if err \<noteq> None then (n, err, vf1\<lparr>vf_file := f\<rparr>)
            else (n, err, vf1\<lparr>vf_file := f, vf_size := vf_size vf + n\<rparr>))"

definition vf_Seek :: "vfile \<Rightarrow> int" where
  "vf_Seek vf = vf_size vf"

definition vf_CloseWriter :: "vfile \<Rightarrow> vfile" where
  "vf_CloseWriter vf = vf\<lparr>vf_w := False\<rparr>"

definition vf_CloseReader :: "vfile \<Rightarrow> vfile" where
  "vf_CloseReader vf = vf\<lparr>vf_r := False\<rparr>"

definition vf_Close :: "vfile \<Rightarrow> vfile" where
  "vf_Close vf = (vf_CloseReader (vf_CloseWriter vf))\<lparr>vf_linked := False\<rparr>"

text \<open>
  \<open>AutoExpire\<close> closes the writer and starts, the first time it is called, a goroutine that
  closes the file after a delay. The result has the delay of the goroutine, if one starts.
\<close>

definition vf_expire_delay :: "int \<Rightarrow> int" where
  "vf_expire_delay ttl =
     (let max = f64_to_int (f64 (Seconds ttl * (1 / 4))) * Second in
      ttl + (if max > maxWaiting then maxWaiting else max))"

definition vf_AutoExpire :: "vfile \<Rightarrow> vfile \<times> int option" where
  "vf_AutoExpire vf =
     (let vf1 = vf\<lparr>vf_autoExpire := vf_autoExpire vf + 1\<rparr> in
      if vf_autoExpire vf1 > 1 then (vf1, None)
      else (vf_CloseWriter vf1, Some (vf_expire_delay (vf_ttl vf))))"

section \<open>The size that is counted\<close>

definition vf_ok :: "vfile \<Rightarrow> bool" where
  "vf_ok vf \<longleftrightarrow> vf_size vf = int (length (vf_file vf))"

lemma VFileNew_ok:
  "VFileNew c r now ttl no = Some (vf, no') \<Longrightarrow>
     vf_ok vf \<and> vf_w vf \<and> vf_r vf \<and> vf_no vf = no' \<and> no < no' \<and> vf_ttl vf = ttl"
  by (auto simp: VFileNew_def vf_ok_def split: if_splits)

lemma vf_Write_ok:
  assumes "vf_Write now r b vf = (n, err, vf')" "vf_ok vf"
  shows "err = None \<Longrightarrow> n = int (length b) \<and> vf_file vf' = vf_file vf @ b \<and> vf_ok vf'"
    and "prefix (vf_file vf) (vf_file vf')"
    and "vf_expireAt vf' = now + vf_ttl vf + 5 * Second"
    and "vf_w vf' = vf_w vf" "vf_r vf' = vf_r vf" "vf_ttl vf' = vf_ttl vf" "vf_no vf' = vf_no vf"
    and "vf_autoExpire vf' = vf_autoExpire vf" "vf_linked vf' = vf_linked vf"
  using assms
  by (auto simp: vf_Write_def vf_ok_def file_Write_def Let_def take_is_prefix
      split: if_splits wres.splits)

lemma vf_Write_open:
  "vf_w vf \<Longrightarrow> vf_Write now W_ok b vf = (int (length b), None,
     vf\<lparr>vf_expireAt := now + vf_ttl vf + 5 * Second, vf_file := vf_file vf @ b,
        vf_size := vf_size vf + int (length b)\<rparr>)"
  by (simp add: vf_Write_def file_Write_def Let_def)

text \<open>What was written stays readable at its place, whatever is appended.\<close>

lemma vf_ReadAt_full:
  "vf_r vf \<Longrightarrow> 0 \<le> off \<Longrightarrow> nat off + n \<le> length (vf_file vf) \<Longrightarrow>
     vf_ReadAt vf n off = (take n (drop (nat off) (vf_file vf)), None)"
  by (simp add: vf_ReadAt_def file_ReadAt_full)

lemma prefix_take_drop:
  "prefix f f' \<Longrightarrow> off + n \<le> length f \<Longrightarrow> take n (drop off f') = take n (drop off f)"
  by (auto simp: prefix_def)

end
