(* ===== verification/Cached_Item.thy ===== *)
theory Cached_Item
  imports Go_IO
begin

text \<open>
  The part of the interface \<open>Item\<close> of \<open>lsm/item.go\<close> that the handler reads responses with,
  as a locale, and the range check that both implementations share. \<open>body\<close> is the
  abstraction: the bytes of the response. The laws are those of an item whose storage can be
  read, and of a sink that accepts every write.
\<close>

section \<open>The range check\<close>

text \<open>
  \<open>ValidRange\<close> is the same code for items in memory and on disk. \<open>reqEnd\<close> is the last byte
  that is asked for; the result is the first byte, the byte after the last, and the length.
\<close>

definition valid_range :: "int \<Rightarrow> int \<Rightarrow> int \<Rightarrow> lsm_error + (int \<times> int \<times> int)" where
  "valid_range itmLen reqStart reqEnd =
     (if reqStart < 0 then Inl ErrWrongRange
      else
        let reqEnd' = (if reqEnd \<ge> itmLen then itmLen else reqEnd + 1) in
        if reqStart = 0 \<and> reqEnd' = 0 then Inr (0, itmLen, itmLen)
        else
          let reqLength = wrap64 (reqEnd' - reqStart) in
          if reqLength = 0 then Inl ErrWrongRange else Inr (reqStart, reqEnd', reqLength))"

lemma valid_range_satisfiable:
  assumes "0 \<le> s" "s \<le> e" "s < len" "len < 2 ^ 63"
  shows "valid_range len s e = Inr (s, min (e + 1) len, min (e + 1) len - s)"
  using assms by (auto simp: valid_range_def Let_def wrap64_id)

text \<open>A range that starts after the last byte is only refused when it starts right after it.\<close>

lemma valid_range_past_end:
  assumes "0 < len" "len \<le> s" "s \<le> e" "s < 2 ^ 63"
  shows "valid_range len s e = (if s = len then Inl ErrWrongRange else Inr (s, len, len - s))"
  using assms by (auto simp: valid_range_def Let_def wrap64_id)

section \<open>The interface\<close>

type_synonym 'w io_result = "(int \<times> lsm_error option \<times> 'w) go option"

text \<open>The outer option is \<open>None\<close> when the call does not return, the inner one when it panics.\<close>

locale cached_item = sink wr contents good
  for wr :: "'w writer" and contents :: "'w \<Rightarrow> byte list" and good :: "'w \<Rightarrow> bool" +
  fixes ok :: "'i \<Rightarrow> bool"
    and body :: "'i \<Rightarrow> byte list"
    and len :: "'i \<Rightarrow> int"
    and vrange :: "'i \<Rightarrow> int \<Rightarrow> int \<Rightarrow> lsm_error + (int \<times> int \<times> int)"
    and write_to :: "'i \<Rightarrow> 'w \<Rightarrow> 'w io_result"
    and write_to_range :: "'i \<Rightarrow> int \<Rightarrow> int \<Rightarrow> 'w \<Rightarrow> 'w io_result"
  assumes len_body: "ok i \<Longrightarrow> len i = int (length (body i))"
    and len_bound: "ok i \<Longrightarrow> len i < 2 ^ 63"
    and vrange_is: "vrange i s e = valid_range (len i) s e"
    and write_to_law: "ok i \<Longrightarrow> good w \<Longrightarrow>
      \<exists>w'. write_to i w = Some (Some (len i, None, w')) \<and> good w' \<and> contents w' = contents w @ body i"
    and write_to_range_law: "ok i \<Longrightarrow> good w \<Longrightarrow> 0 \<le> f \<Longrightarrow> f < t \<Longrightarrow> t \<le> len i \<Longrightarrow>
      \<exists>w'. write_to_range i f t w = Some (Some (t - f, None, w')) \<and> good w' \<and>
        contents w' = contents w @ take (nat (t - f)) (drop (nat f) (body i))"
begin

lemma len_nonneg: "ok i \<Longrightarrow> 0 \<le> len i"
  by (simp add: len_body)

text \<open>
  A satisfiable range is checked, and the bytes that are written are the bytes from the first
  to the last asked for, as many as the check announced.
\<close>

lemma range_served:
  assumes "ok i" "good w" "0 \<le> s" "s \<le> e" "s < len i"
  obtains t n w' where "vrange i s e = Inr (s, t, n)" "n = min (e + 1) (len i) - s" "0 < n"
    and "write_to_range i s t w = Some (Some (n, None, w'))" and "good w'"
    and "contents w' = contents w @ take (nat n) (drop (nat s) (body i))"
proof -
  let ?t = "min (e + 1) (len i)"
  have v: "vrange i s e = Inr (s, ?t, ?t - s)"
    using valid_range_satisfiable [OF assms(3,4,5) len_bound [OF assms(1)]] by (simp add: vrange_is)
  have "s < ?t" "?t \<le> len i" using assms by auto
  with write_to_range_law [OF assms(1-3), of ?t] obtain w' where
    w: "write_to_range i s ?t w = Some (Some (?t - s, None, w'))" "good w'"
      "contents w' = contents w @ take (nat (?t - s)) (drop (nat s) (body i))" by blast
  show thesis by (rule that [OF v refl _ w]) (use \<open>s < ?t\<close> in simp)
qed

end

end
