(* ===== verification/Http_Header.thy ===== *)
theory Http_Header
  imports Prelude "HOL-Library.Char_ord" "HOL-Library.List_Lexorder"
begin

text \<open>
  Go's \<open>http.Header\<close> as far as the cache uses it: lookup, deletion, replacement, and the wire
  format that a header is written to a file in and parsed back from. A Go string is its
  bytes, a \<open>string\<close> here. A header is an association list with distinct canonical keys, in
  the order in which a loop over the map meets them.
\<close>

type_synonym header = "(string \<times> string list) list"

definition CR :: char where "CR = CHR 0x0D"
definition LF :: char where "LF = CHR 0x0A"
definition TAB :: char where "TAB = CHR 0x09"
definition SP :: char where "SP = CHR '' ''"

lemmas char_defs = CR_def LF_def TAB_def SP_def

definition crlf :: string where "crlf = [CR, LF]"

section \<open>Strings and bytes\<close>

definition bytes_of :: "string \<Rightarrow> byte list" where
  "bytes_of s = map (\<lambda>c. word_of_nat (of_char c)) s"

definition string_of :: "byte list \<Rightarrow> string" where
  "string_of b = map (\<lambda>x. char_of (unat x)) b"

lemma string_of_bytes_of [simp]: "string_of (bytes_of s) = s"
proof -
  have "char_of (unat (word_of_nat (of_char c) :: byte)) = c" for c
    by (simp add: unat_of_nat)
  then show ?thesis by (simp add: string_of_def bytes_of_def o_def)
qed

lemma bytes_of_append [simp]: "bytes_of (s @ t) = bytes_of s @ bytes_of t"
  by (simp add: bytes_of_def)

lemma length_bytes_of [simp]: "length (bytes_of s) = length s"
  by (simp add: bytes_of_def)

section \<open>Trimming\<close>

definition trim_by :: "(char \<Rightarrow> bool) \<Rightarrow> string \<Rightarrow> string" where
  "trim_by p s = rev (dropWhile p (rev (dropWhile p s)))"

definition is_blank :: "char \<Rightarrow> bool" where
  "is_blank c \<longleftrightarrow> c = SP \<or> c = TAB"

definition is_ascii_space :: "char \<Rightarrow> bool" where
  "is_ascii_space c \<longleftrightarrow> c = SP \<or> c = TAB \<or> c = LF \<or> c = CR"

lemma trim_by_id:
  "s = [] \<or> (\<not> p (hd s) \<and> \<not> p (last s)) \<Longrightarrow> trim_by p s = s"
proof (elim disjE)
  assume "s = []"
  then show ?thesis by (simp add: trim_by_def)
next
  assume e: "\<not> p (hd s) \<and> \<not> p (last s)"
  then have "dropWhile p s = s" "dropWhile p (rev s) = rev s"
    by (auto simp: dropWhile_eq_self_iff hd_rev)
  then show ?thesis by (simp add: trim_by_def)
qed

lemma trim_by_ends:
  "trim_by p s = [] \<or> (\<not> p (hd (trim_by p s)) \<and> \<not> p (last (trim_by p s)))"
proof (cases "trim_by p s = []")
  case True
  then show ?thesis by simp
next
  case False
  let ?t = "dropWhile p s" and ?u = "dropWhile p (rev (dropWhile p s))"
  have u: "?u \<noteq> []" using False by (simp add: trim_by_def)
  have "\<not> p (hd ?u)" using u by (rule hd_dropWhile)
  then have l: "\<not> p (last (trim_by p s))" using u by (simp add: trim_by_def last_rev)
  have t: "?t \<noteq> []"
  proof
    assume "?t = []"
    then have "?u = []" by (simp only: rev.simps dropWhile.simps)
    with u show False by contradiction
  qed
  have "\<not> p (last ?u)"
  proof -
    have "last ?u = last (rev ?t)"
      using u by (metis append_Nil2 last_appendR takeWhile_dropWhile_id)
    then show ?thesis using t hd_dropWhile [OF t] by (simp add: last_rev)
  qed
  then have "\<not> p (hd (trim_by p s))" using u by (simp add: trim_by_def hd_rev)
  with l show ?thesis by simp
qed

lemma set_trim_by: "set (trim_by p s) \<subseteq> set s"
proof
  fix c assume "c \<in> set (trim_by p s)"
  then have "c \<in> set (dropWhile p (rev (dropWhile p s)))" by (simp add: trim_by_def)
  then have "c \<in> set (rev (dropWhile p s))" by (rule set_dropWhileD)
  then show "c \<in> set s" using set_dropWhileD [of c p s] by simp
qed

section \<open>Canonical keys\<close>

definition token_punct :: string where
  "token_punct = ''!#$%&'' @ [CHR 0x27] @ ''*+-.^_'' @ [CHR 0x60] @ ''|~''"

definition is_upper :: "char \<Rightarrow> bool" where "is_upper c \<longleftrightarrow> CHR ''A'' \<le> c \<and> c \<le> CHR ''Z''"
definition is_lower :: "char \<Rightarrow> bool" where "is_lower c \<longleftrightarrow> CHR ''a'' \<le> c \<and> c \<le> CHR ''z''"
definition is_digit :: "char \<Rightarrow> bool" where "is_digit c \<longleftrightarrow> CHR ''0'' \<le> c \<and> c \<le> CHR ''9''"

definition valid_field_byte :: "char \<Rightarrow> bool" where
  "valid_field_byte c \<longleftrightarrow> is_upper c \<or> is_lower c \<or> is_digit c \<or> c \<in> set token_punct"

definition to_upper :: "char \<Rightarrow> char" where
  "to_upper c = (if is_lower c then char_of (of_char c - 32 :: nat) else c)"

definition to_lower :: "char \<Rightarrow> char" where
  "to_lower c = (if is_upper c then char_of (of_char c + 32 :: nat) else c)"

fun canon_from :: "bool \<Rightarrow> string \<Rightarrow> string" where
  "canon_from up [] = []"
| "canon_from up (c # cs) = (if up then to_upper c else to_lower c) # canon_from (c = CHR ''-'') cs"

definition canonical_key :: "string \<Rightarrow> string" where
  "canonical_key k = (if list_all valid_field_byte k then canon_from True k else k)"

section \<open>Get, Set, Del\<close>

definition header_Get :: "header \<Rightarrow> string \<Rightarrow> string" where
  "header_Get h k =
     (case map_of h (canonical_key k) of Some (v # _) \<Rightarrow> v | _ \<Rightarrow> [])"

definition header_Set :: "string \<Rightarrow> string \<Rightarrow> header \<Rightarrow> header" where
  "header_Set k v h = AList.update (canonical_key k) [v] h"

definition header_Del :: "string \<Rightarrow> header \<Rightarrow> header" where
  "header_Del k h = AList.delete (canonical_key k) h"

lemma map_of_header_Set: "map_of (header_Set k v h) = (map_of h)(canonical_key k \<mapsto> [v])"
  by (simp add: header_Set_def update_conv')

lemma map_of_header_Del: "map_of (header_Del k h) = (map_of h)(canonical_key k := None)"
  by (simp add: header_Del_def delete_conv')

section \<open>Writing\<close>

text \<open>
  \<open>Header.Write\<close> sorts the keys and writes one line for each value, with line breaks in the
  value replaced by spaces and the ends trimmed.
\<close>

definition norm_value :: "string \<Rightarrow> string" where
  "norm_value v = trim_by is_ascii_space (map (\<lambda>c. if c = LF \<or> c = CR then SP else c) v)"

definition header_line :: "string \<Rightarrow> string \<Rightarrow> string" where
  "header_line k v = k @ '': '' @ norm_value v @ crlf"

definition header_bytes :: "header \<Rightarrow> string" where
  "header_bytes h = concat (map (\<lambda>(k, vs). concat (map (header_line k) vs)) (sort_key fst h))"

section \<open>Parsing\<close>

text \<open>
  \<open>textproto.ReadMIMEHeader\<close> over what the reader holds. A parser that comes to the end of it
  before the empty line asks the reader for more: \<open>Mime_more\<close>.
\<close>

datatype mime_result = Mime_ok header | Mime_malformed | Mime_more

definition strip_cr :: "string \<Rightarrow> string" where
  "strip_cr l = (if l \<noteq> [] \<and> last l = CR then butlast l else l)"

definition read_line :: "string \<Rightarrow> (string \<times> string) option" where
  "read_line s =
     (case dropWhile (\<lambda>c. c \<noteq> LF) s of
        [] \<Rightarrow> None
      | _ # rest \<Rightarrow> Some (strip_cr (takeWhile (\<lambda>c. c \<noteq> LF) s), rest))"

lemma read_line_shorter: "read_line s = Some (l, rest) \<Longrightarrow> length rest < length s"
proof -
  assume "read_line s = Some (l, rest)"
  then obtain c where "dropWhile (\<lambda>c. c \<noteq> LF) s = c # rest"
    by (auto simp: read_line_def split: list.splits)
  then show ?thesis
    by (metis length_Cons length_dropWhile_le less_eq_Suc_le)
qed

text \<open>The lines that continue the one before start with a blank.\<close>

function read_continued :: "string \<Rightarrow> string \<Rightarrow> (string \<times> string) option" where
  "read_continued acc s =
     (case s of
        [] \<Rightarrow> None
      | c # _ \<Rightarrow>
          if is_blank c then
            (case read_line (dropWhile is_blank s) of
               None \<Rightarrow> None
             | Some (l, rest) \<Rightarrow> read_continued (acc @ [SP] @ trim_by is_blank l) rest)
          else Some (acc, s))"
  by pat_completeness auto
termination
proof (relation "measure (\<lambda>(acc, s). length s)", goal_cases)
  case 1
  then show ?case by simp
next
  case (2 acc s c cs x l rest)
  then show ?case
    using read_line_shorter [of "dropWhile is_blank s" l rest] length_dropWhile_le [of is_blank s]
    by simp
qed

declare read_continued.simps [simp del]

definition read_continued_line :: "string \<Rightarrow> (string \<times> string) option" where
  "read_continued_line s =
     (case read_line s of
        None \<Rightarrow> None
      | Some (l, rest) \<Rightarrow> if l = [] then Some ([], rest) else read_continued (trim_by is_blank l) rest)"

lemma read_continued_le:
  "read_continued acc s = Some (l, rest) \<Longrightarrow> length rest \<le> length s"
proof (induction acc s rule: read_continued.induct)
  case (1 acc s)
  show ?case
  proof (cases s)
    case Nil
    then show ?thesis using 1(2) by (simp add: read_continued.simps)
  next
    case (Cons c cs)
    show ?thesis
    proof (cases "is_blank c")
      case True
      then obtain l1 r1 where r1: "read_line (dropWhile is_blank s) = Some (l1, r1)"
        "read_continued (acc @ [SP] @ trim_by is_blank l1) r1 = Some (l, rest)"
        using 1(2) Cons by (subst (asm) read_continued.simps) (auto split: option.splits)
      have "length rest \<le> length r1"
        by (rule 1(1) [OF Cons True r1(1) refl r1(2)])
      moreover have "length r1 < length (dropWhile is_blank s)" by (rule read_line_shorter [OF r1(1)])
      ultimately show ?thesis using length_dropWhile_le [of is_blank s] by linarith
    next
      case False
      then show ?thesis using 1(2) Cons by (subst (asm) read_continued.simps) auto
    qed
  qed
qed

lemma read_continued_line_shorter:
  assumes "read_continued_line s = Some (l, rest)"
  shows "length rest < length s"
proof -
  from assms obtain l1 r1 where r1: "read_line s = Some (l1, r1)"
    by (auto simp: read_continued_line_def split: option.splits)
  have "length r1 < length s" by (rule read_line_shorter [OF r1])
  moreover have "length rest \<le> length r1"
    using assms r1 read_continued_le [of "trim_by is_blank l1" r1 l rest]
    by (auto simp: read_continued_line_def split: if_splits)
  ultimately show ?thesis by simp
qed

text \<open>The loop over the lines: \<open>m\<close> is the header so far.\<close>

definition mime_add :: "string \<Rightarrow> string \<Rightarrow> header \<Rightarrow> header" where
  "mime_add k v m =
     AList.update k ((case map_of m k of None \<Rightarrow> [] | Some vs \<Rightarrow> vs) @ [v]) m"

text \<open>
  With the outcome come the bytes that the parser has not consumed. The first line of a field
  must have the colon; it is checked before the lines that continue it are read.
\<close>

function read_mime_loop :: "string \<Rightarrow> header \<Rightarrow> mime_result \<times> string" where
  "read_mime_loop s m =
     (case read_line s of
        None \<Rightarrow> (Mime_more, s)
      | Some (l, after) \<Rightarrow>
          if l = [] then (Mime_ok m, after)
          else if CHR '':'' \<notin> set l then (Mime_malformed, after)
          else case read_continued_line s of
              None \<Rightarrow> (Mime_more, s)
            | Some (kv, rest) \<Rightarrow>
                let key = canonical_key (takeWhile (\<lambda>c. c \<noteq> CHR '':'') kv);
                    v = dropWhile is_blank (tl (dropWhile (\<lambda>c. c \<noteq> CHR '':'') kv)) in
                read_mime_loop rest (if key = [] then m else mime_add key v m))"
  by pat_completeness auto
termination
  by (relation "measure (\<lambda>(s, m). length s)") (auto dest: read_continued_line_shorter)

declare read_mime_loop.simps [simp del]

definition read_mime_rest :: "string \<Rightarrow> mime_result \<times> string" where
  "read_mime_rest s =
     (case s of
        [] \<Rightarrow> (Mime_more, [])
      | c # _ \<Rightarrow>
          if is_blank c
          then (case read_line s of None \<Rightarrow> (Mime_more, s) | Some (_, after) \<Rightarrow> (Mime_malformed, after))
          else read_mime_loop s [])"

definition read_mime :: "string \<Rightarrow> mime_result" where
  "read_mime s = fst (read_mime_rest s)"

section \<open>What is written is parsed back\<close>

text \<open>
  Keys as \<open>net/http\<close> makes them: not empty, of token characters, canonical. Values may be any
  bytes; the writer normalises them.
\<close>

definition key_ok :: "string \<Rightarrow> bool" where
  "key_ok k \<longleftrightarrow> k \<noteq> [] \<and> list_all valid_field_byte k \<and> canonical_key k = k"

definition header_ok :: "header \<Rightarrow> bool" where
  "header_ok h \<longleftrightarrow> distinct (map fst h) \<and> list_all key_ok (map fst h)"

lemma valid_field_byte_neq:
  assumes "valid_field_byte c"
  shows "c \<noteq> SP" "c \<noteq> TAB" "c \<noteq> LF" "c \<noteq> CR" "c \<noteq> CHR '':''"
  using assms
  by (auto simp: valid_field_byte_def is_upper_def is_lower_def is_digit_def token_punct_def
      char_defs less_eq_char_def)

lemma norm_value_chars:
  assumes "c \<in> set (norm_value v)"
  shows "c \<noteq> LF \<and> c \<noteq> CR"
proof -
  have "c \<in> set (map (\<lambda>c. if c = LF \<or> c = CR then SP else c) v)"
    using assms set_trim_by unfolding norm_value_def by (rule subsetD [rotated])
  then show ?thesis by (auto simp: char_defs)
qed

lemma norm_value_ends:
  "norm_value v = [] \<or> (\<not> is_blank (hd (norm_value v)) \<and> \<not> is_blank (last (norm_value v)))"
  using trim_by_ends [of is_ascii_space] by (auto simp: norm_value_def is_blank_def is_ascii_space_def)

lemma norm_value_idem: "norm_value (norm_value v) = norm_value v"
proof -
  have "map (\<lambda>c. if c = LF \<or> c = CR then SP else c) (norm_value v) = norm_value v"
    using norm_value_chars by (intro map_idI) auto
  then show ?thesis
    using trim_by_ends [of is_ascii_space] by (simp add: norm_value_def trim_by_id)
qed

lemma read_line_crlf:
  assumes "\<And>c. c \<in> set l \<Longrightarrow> c \<noteq> LF"
  shows "read_line (l @ crlf @ rest) = Some (l, rest)"
proof -
  have 1: "takeWhile (\<lambda>c. c \<noteq> LF) (l @ crlf @ rest) = l @ [CR]"
    using assms by (simp add: takeWhile_append2 crlf_def char_defs)
  have 2: "dropWhile (\<lambda>c. c \<noteq> LF) (l @ crlf @ rest) = LF # rest"
    using assms by (simp add: dropWhile_append2 crlf_def char_defs)
  show ?thesis unfolding read_line_def 1 2 by (simp add: strip_cr_def)
qed

lemma header_line_first:
  assumes "key_ok k"
  shows "read_line (header_line k v @ rest) = Some (k @ '': '' @ norm_value v, rest)"
proof -
  have nolf: "c \<noteq> LF" if "c \<in> set (k @ '': '' @ norm_value v)" for c
    using that assms valid_field_byte_neq(3) [of c] norm_value_chars [of c v]
    by (auto simp: char_defs key_ok_def list_all_iff)
  show ?thesis
    using read_line_crlf [of "k @ '': '' @ norm_value v" rest, OF nolf] by (simp add: header_line_def)
qed

text \<open>The line of a key and a value, before the line break, as the parser keeps it.\<close>

lemma header_line_read:
  assumes "key_ok k" "rest \<noteq> []" "\<not> is_blank (hd rest)"
  shows "read_continued_line (header_line k v @ rest)
    = Some (if norm_value v = [] then k @ '':'' else k @ '': '' @ norm_value v, rest)"
proof -
  let ?l = "k @ '': '' @ norm_value v"
  have k: "k \<noteq> []" "\<And>c. c \<in> set k \<Longrightarrow> valid_field_byte c"
    using assms(1) by (auto simp: key_ok_def list_all_iff)
  have rl: "read_line (header_line k v @ rest) = Some (?l, rest)"
    by (rule header_line_first [OF assms(1)])
  have hd: "\<not> is_blank (hd k)"
    using k valid_field_byte_neq(1,2) [OF k(2) [OF hd_in_set [OF k(1)]]] by (simp add: is_blank_def)
  have "trim_by is_blank ?l = (if norm_value v = [] then k @ '':'' else ?l)"
  proof (cases "norm_value v = []")
    case True
    have "dropWhile is_blank ?l = ?l" using hd k(1) by (cases k) auto
    moreover have "dropWhile is_blank (rev ?l) = rev (k @ '':'')"
      using True by (simp add: is_blank_def char_defs)
    ultimately show ?thesis using True by (simp add: trim_by_def)
  next
    case False
    then have "trim_by is_blank ?l = ?l"
      using hd k(1) norm_value_ends [of v] by (intro trim_by_id) auto
    with False show ?thesis by simp
  qed
  moreover have "read_continued l' rest = Some (l', rest)" for l'
    using assms(2,3) by (subst read_continued.simps) (cases rest; simp)
  ultimately show ?thesis using rl k(1) by (simp add: read_continued_line_def)
qed

lemma header_line_parsed:
  assumes "key_ok k" "rest \<noteq> []" "\<not> is_blank (hd rest)"
  shows "read_mime_loop (header_line k v @ rest) m = read_mime_loop rest (mime_add k (norm_value v) m)"
proof -
  let ?kv = "if norm_value v = [] then k @ '':'' else k @ '': '' @ norm_value v"
  have k: "k \<noteq> []" "\<And>c. c \<in> set k \<Longrightarrow> valid_field_byte c" "canonical_key k = k"
    using assms(1) by (auto simp: key_ok_def list_all_iff)
  have col: "\<And>c. c \<in> set k \<Longrightarrow> c \<noteq> CHR '':''" using k(2) valid_field_byte_neq(5) by blast
  have tw: "takeWhile (\<lambda>c. c \<noteq> CHR '':'') ?kv = k"
    using col by (simp add: takeWhile_append2)
  have dw: "dropWhile (\<lambda>c. c \<noteq> CHR '':'') ?kv = (if norm_value v = [] then '':'' else '': '' @ norm_value v)"
    using col by (simp add: dropWhile_append2)
  have v: "dropWhile is_blank (tl (dropWhile (\<lambda>c. c \<noteq> CHR '':'') ?kv)) = norm_value v"
    unfolding dw using norm_value_ends [of v]
    by (cases "norm_value v") (auto simp: is_blank_def char_defs)
  have l: "(k @ '': '' @ norm_value v = []) = False" "(CHR '':'' \<notin> set (k @ '': '' @ norm_value v)) = False"
    using k(1) by simp_all
  show ?thesis
    using k(1,3)
    by (subst read_mime_loop.simps)
      (simp only: header_line_read [OF assms] header_line_first [OF assms(1)] l tw v option.case prod.case if_False,
        simp add: Let_def)
qed

definition starts_plain :: "string \<Rightarrow> bool" where
  "starts_plain s \<longleftrightarrow> s \<noteq> [] \<and> \<not> is_blank (hd s)"

lemma starts_plain_crlf: "starts_plain crlf"
  by (simp add: starts_plain_def crlf_def is_blank_def char_defs)

lemma starts_plain_line: "key_ok k \<Longrightarrow> starts_plain (header_line k v @ rest)"
  using valid_field_byte_neq(1,2) [of "hd k"]
  by (cases k) (auto simp: starts_plain_def header_line_def key_ok_def is_blank_def)

lemma starts_plain_lines:
  "key_ok k \<Longrightarrow> starts_plain rest \<Longrightarrow> starts_plain (concat (map (header_line k) vs) @ rest)"
  by (cases vs) (simp_all add: starts_plain_line)

lemma mime_add_last:
  "k \<notin> fst ` set m \<Longrightarrow> mime_add k v (m @ [(k, vs)]) = m @ [(k, vs @ [v])]"
  using alist_update_hit [of k m "vs @ [v]" vs "[]"]
  by (simp add: mime_add_def map_add_def map_of_None_fst [THEN iffD2])

lemma mime_add_new: "k \<notin> fst ` set m \<Longrightarrow> mime_add k v m = m @ [(k, [v])]"
  by (simp add: mime_add_def map_of_None_fst [THEN iffD2] alist_update_miss)

lemma read_more_values:
  assumes "key_ok k" "starts_plain rest" "k \<notin> fst ` set m"
  shows "read_mime_loop (concat (map (header_line k) vs) @ rest) (m @ [(k, us)])
    = read_mime_loop rest (m @ [(k, us @ map norm_value vs)])"
proof (induction vs arbitrary: us)
  case Nil
  then show ?case by simp
next
  case (Cons v vs)
  have sp: "starts_plain (concat (map (header_line k) vs) @ rest)"
    by (rule starts_plain_lines [OF assms(1,2)])
  have "read_mime_loop (header_line k v @ concat (map (header_line k) vs) @ rest) (m @ [(k, us)])
      = read_mime_loop (concat (map (header_line k) vs) @ rest) (m @ [(k, us @ [norm_value v])])"
    using header_line_parsed [OF assms(1), of "concat (map (header_line k) vs) @ rest" v "m @ [(k, us)]"]
      sp mime_add_last [OF assms(3)] by (simp add: starts_plain_def)
  with Cons.IH [of "us @ [norm_value v]"] show ?case by simp
qed

definition parsed_header :: "header \<Rightarrow> header" where
  "parsed_header h = map (\<lambda>(k, vs). (k, map norm_value vs)) (filter (\<lambda>(k, vs). vs \<noteq> []) h)"

lemma parsed_header_Cons:
  "parsed_header ((k, vs) # h) = (if vs = [] then [] else [(k, map norm_value vs)]) @ parsed_header h"
  by (simp add: parsed_header_def)

lemma read_values:
  assumes "key_ok k" "starts_plain rest" "k \<notin> fst ` set m"
  shows "read_mime_loop (concat (map (header_line k) vs) @ rest) m
    = read_mime_loop rest (m @ (if vs = [] then [] else [(k, map norm_value vs)]))"
proof (cases vs)
  case Nil
  then show ?thesis by simp
next
  case (Cons v us)
  have sp: "starts_plain (concat (map (header_line k) us) @ rest)"
    by (rule starts_plain_lines [OF assms(1,2)])
  have "read_mime_loop (header_line k v @ concat (map (header_line k) us) @ rest) m
      = read_mime_loop (concat (map (header_line k) us) @ rest) (m @ [(k, [norm_value v])])"
    using header_line_parsed [OF assms(1), of "concat (map (header_line k) us) @ rest" v m]
      sp mime_add_new [OF assms(3)] by (simp add: starts_plain_def)
  with read_more_values [OF assms, of us "[norm_value v]"] Cons show ?thesis by simp
qed

definition lines_of :: "header \<Rightarrow> string" where
  "lines_of h = concat (map (\<lambda>(k, vs). concat (map (header_line k) vs)) h)"

lemma starts_plain_lines_of:
  "list_all key_ok (map fst h) \<Longrightarrow> starts_plain (lines_of h @ crlf)"
proof (induction h)
  case Nil
  then show ?case by (simp add: lines_of_def starts_plain_crlf)
next
  case (Cons kvs h)
  then show ?case
    using starts_plain_lines [of "fst kvs" "lines_of h @ crlf" "snd kvs"]
    by (cases kvs) (simp add: lines_of_def)
qed

lemma read_lines_of:
  assumes "distinct (map fst h)" "list_all key_ok (map fst h)" "fst ` set h \<inter> fst ` set m = {}"
  shows "read_mime_loop (lines_of h @ crlf) m = (Mime_ok (m @ parsed_header h), [])"
  using assms
proof (induction h arbitrary: m)
  case Nil
  have "read_line crlf = Some ([], [])" using read_line_crlf [of "[]" "[]"] by simp
  then show ?case
    by (subst read_mime_loop.simps) (simp add: lines_of_def parsed_header_def read_continued_line_def)
next
  case (Cons kvs h)
  obtain k vs where kvs: "kvs = (k, vs)" by (cases kvs)
  let ?m = "m @ (if vs = [] then [] else [(k, map norm_value vs)])"
  have k: "key_ok k" "k \<notin> fst ` set m" using Cons.prems kvs by auto
  have sp: "starts_plain (lines_of h @ crlf)" using Cons.prems by (intro starts_plain_lines_of) simp
  have "read_mime_loop (lines_of (kvs # h) @ crlf) m = read_mime_loop (lines_of h @ crlf) ?m"
    using read_values [OF k(1) sp k(2), of vs] kvs by (simp add: lines_of_def)
  moreover have "fst ` set h \<inter> fst ` set ?m = {}" using Cons.prems kvs by auto
  ultimately show ?case using Cons.IH [of ?m] Cons.prems kvs by (simp add: parsed_header_Cons)
qed

text \<open>
  The round trip: the parser gives back the keys that have values, in order, with the values
  as they were written.
\<close>

lemma read_header_bytes_rest:
  assumes "header_ok h"
  shows "read_mime_rest (header_bytes h @ crlf) = (Mime_ok (parsed_header (sort_key fst h)), [])"
proof -
  let ?h = "sort_key fst h"
  have ok: "distinct (map fst ?h)" "list_all key_ok (map fst ?h)"
    using assms by (auto simp: header_ok_def list_all_iff distinct_map)
  have e: "header_bytes h = lines_of ?h" by (simp add: header_bytes_def lines_of_def)
  have "starts_plain (lines_of ?h @ crlf)" by (rule starts_plain_lines_of [OF ok(2)])
  then have "read_mime_rest (lines_of ?h @ crlf) = read_mime_loop (lines_of ?h @ crlf) []"
    by (auto simp: read_mime_rest_def starts_plain_def split: list.splits)
  then show ?thesis using read_lines_of [OF ok, of "[]"] e by simp
qed

lemma read_header_bytes:
  assumes "header_ok h"
  shows "read_mime (header_bytes h @ crlf) = Mime_ok (parsed_header (sort_key fst h))"
  by (simp add: read_mime_def read_header_bytes_rest [OF assms])

lemma map_of_parsed_header:
  assumes "distinct (map fst h)"
  shows "map_of (parsed_header h) k =
    (case map_of h k of None \<Rightarrow> None | Some vs \<Rightarrow> if vs = [] then None else Some (map norm_value vs))"
  using assms
proof (induction h)
  case Nil
  then show ?case by (simp add: parsed_header_def)
next
  case (Cons kvs h)
  obtain k' vs where kvs: "kvs = (k', vs)" by (cases kvs)
  have "k' \<notin> fst ` set h" using Cons.prems kvs by simp
  then have "map_of h k' = None" by (simp add: map_of_None_fst)
  then show ?case using Cons kvs by (auto simp: parsed_header_Cons)
qed

lemma map_of_sort_key:
  assumes "distinct (map fst h)"
  shows "map_of (sort_key fst h) = map_of h"
proof -
  have "distinct (map fst (sort_key fst h))" using assms by (simp add: distinct_map)
  then show ?thesis using assms by (simp add: map_of_inject_set)
qed

end
