(* ===== verification/Item_Mem.thy ===== *)
theory Item_Mem
  imports Cached_Item Http_Header "HOL-Library.Signed_Division"
begin

text \<open>
  \<open>lsm/itemMem.go\<close> and \<open>lsm/item.go\<close>: a response held in memory, in a byte slice or, once it
  grows over 4 MB, in a temporary file; and
  the pools that items are recycled through. \<open>im_content\<close> is the abstraction: the bytes of
  the response, wherever they are.

  The operating system decides whether a temporary file can be made or opened (\<open>tmp_ok\<close>,
  \<open>open_ok\<close>) and how much of a write succeeds (\<open>wres\<close>).
\<close>

record itemMem =
  im_Key :: u64
  im_StatusCode :: int
  im_Header :: header
  im_Data :: gslice
  im_HIT :: u64
  im_inUse :: int
  im_written :: int
  im_w :: "byte list option"

definition itemMemMinSize :: int where "itemMemMinSize = 1 * 1024"
definition itemMemMaxSize :: int where "itemMemMaxSize = 5 * 1024 * 1024"
definition itemMemLimitForTempFile :: int where "itemMemLimitForTempFile = 4 * 1024 * 1024"
definition defaultBufferReadSize :: nat where "defaultBufferReadSize = 1024 * 4"

definition im_content :: "itemMem \<Rightarrow> byte list" where
  "im_content itm = (case im_w itm of None \<Rightarrow> gbytes (im_Data itm) | Some f \<Rightarrow> f)"

definition im_ok :: "itemMem \<Rightarrow> bool" where
  "im_ok itm \<longleftrightarrow> gslice_ok (im_Data itm)"

section \<open>Accessors\<close>

definition itemMem_Done :: "itemMem \<Rightarrow> itemMem" where
  "itemMem_Done itm = itm\<lparr>im_inUse := im_inUse itm - 1\<rparr>"

definition itemMem_GetStatusCode :: "itemMem \<Rightarrow> int" where
  "itemMem_GetStatusCode itm = im_StatusCode itm"

definition itemMem_GetHeader :: "itemMem \<Rightarrow> header" where
  "itemMem_GetHeader itm = im_Header itm"

definition itemMem_GetHIT :: "itemMem \<Rightarrow> u64" where
  "itemMem_GetHIT itm = im_HIT itm"

definition itemMem_Len :: "itemMem \<Rightarrow> int" where
  "itemMem_Len itm =
     (case im_w itm of None \<Rightarrow> int (glen (im_Data itm)) | Some f \<Rightarrow> int (length f))"

definition itemMem_Close :: "itemMem \<Rightarrow> itemMem" where
  "itemMem_Close itm = (if im_w itm = None then itm else itm\<lparr>im_w := None\<rparr>)"

section \<open>Writing\<close>

text \<open>
  \<open>Write\<close>: to the file when there is one; otherwise the slice, unless it would grow over the
  limit: then a temporary file is made, the slice is dumped into it (outcome \<open>r1\<close>) and the
  new bytes follow (outcome \<open>r2\<close>).
\<close>

definition itemMem_Write ::
  "(nat \<Rightarrow> nat \<Rightarrow> nat) \<Rightarrow> bool \<Rightarrow> wres \<Rightarrow> wres \<Rightarrow> byte list \<Rightarrow> itemMem
     \<Rightarrow> int \<times> lsm_error option \<times> itemMem" where
  "itemMem_Write grow tmp_ok r1 r2 b itm =
     (case im_w itm of
        Some f \<Rightarrow>
          (case file_Write r1 b f of (n, err, f') \<Rightarrow>
             let itm1 = itm\<lparr>im_w := Some f'\<rparr> in
             (n, err, if err = None
                      then itm1\<lparr>im_written := im_written itm + int (length b)\<rparr> else itm1))
      | None \<Rightarrow>
          let append = (int (length b), None, itm\<lparr>im_Data := gappend grow (im_Data itm) b\<rparr>) in
          if int (length b) + int (glen (im_Data itm)) > itemMemLimitForTempFile then
            if tmp_ok then
              (case file_Write r1 (gbytes (im_Data itm)) [] of (n0, err0, f0) \<Rightarrow>
                 if err0 \<noteq> None then (0, err0, itm\<lparr>im_w := Some f0\<rparr>)
                 else
                   (case file_Write r2 b f0 of (n, err, f1) \<Rightarrow>
                      (n, err, itm\<lparr>im_Data := gtruncate (im_Data itm), im_w := Some f1\<rparr>)))
            else append
          else append)"

section \<open>Reading\<close>

definition itemMem_WriteTo ::
  "bool \<Rightarrow> 'w writer \<Rightarrow> itemMem \<Rightarrow> 'w \<Rightarrow> int \<times> lsm_error option \<times> 'w" where
  "itemMem_WriteTo open_ok wr itm w =
     (case im_w itm of
        None \<Rightarrow> wr (gbytes (im_Data itm)) w
      | Some f \<Rightarrow> if \<not> open_ok then (0, Some ErrOS, w) else io_Copy wr f 0 w)"

definition itemMem_ValidRange :: "itemMem \<Rightarrow> int \<Rightarrow> int \<Rightarrow> lsm_error + (int \<times> int \<times> int)" where
  "itemMem_ValidRange itm reqStart reqEnd = valid_range (itemMem_Len itm) reqStart reqEnd"

text \<open>The loop of \<open>WriteToRange\<close> over the temporary file, a buffer of 4 KB at a time.\<close>

function mem_range_loop ::
  "'w writer \<Rightarrow> byte list \<Rightarrow> nat \<Rightarrow> int \<Rightarrow> int \<Rightarrow> 'w \<Rightarrow> int \<times> lsm_error option \<times> 'w" where
  "mem_range_loop wr f seek left written w =
     (case file_ReadAt f defaultBufferReadSize seek of (b, eof) \<Rightarrow>
        let n = int (length b); left' = left - n in
        if eof \<or> left' \<le> 0 then
          (case wr (take (nat (if left' < 0 then n + left' else n)) b) w of
             (k, err, w') \<Rightarrow> (written + k, err, w'))
        else
          (case wr b w of
             (k, err, w') \<Rightarrow>
               if err \<noteq> None then (written + k, err, w')
               else mem_range_loop wr f (seek + length b) left' (written + k) w'))"
  by pat_completeness auto
termination
  by (relation "measure (\<lambda>(wr, f, seek, left, written, w). nat left)")
    (auto simp: file_ReadAt_def Let_def defaultBufferReadSize_def)

declare mem_range_loop.simps [simp del]

definition itemMem_WriteToRange ::
  "bool \<Rightarrow> 'w writer \<Rightarrow> itemMem \<Rightarrow> int \<Rightarrow> int \<Rightarrow> 'w \<Rightarrow> (int \<times> lsm_error option \<times> 'w) go" where
  "itemMem_WriteToRange open_ok wr itm from to w =
     (if from < 0 \<or> to < 0 \<or> from \<ge> to \<or> from > itemMem_Len itm
      then Some (0, Some ErrWrongRange, w)
      else case im_w itm of
          None \<Rightarrow>
            (case greslice (im_Data itm) from to of
               None \<Rightarrow> None
             | Some b \<Rightarrow> Some (wr b w))
        | Some f \<Rightarrow>
            if \<not> open_ok then Some (0, Some ErrOS, w)
            else Some (mem_range_loop wr f (nat from) (to - from) 0 w))"

definition itemMem_Bytes :: "bool \<Rightarrow> itemMem \<Rightarrow> byte list option" where
  "itemMem_Bytes open_ok itm =
     (case im_w itm of
        None \<Rightarrow> Some (gbytes (im_Data itm))
      | Some f \<Rightarrow> if \<not> open_ok then None else Some f)"

section \<open>The pools of items\<close>

text \<open>
  There is one pool for every KB of capacity up to 5 MB. \<open>getItemLen\<close> takes whatever the
  pool of the requested size returns (\<open>got\<close>), or makes a new item.
\<close>

definition itemMemPool_len :: int where
  "itemMemPool_len = itemMemMaxSize div itemMemMinSize"

definition calcIndex :: "int \<Rightarrow> int" where
  "calcIndex l = (l sdiv itemMemMinSize) smod itemMemPool_len"

lemma signed_nonneg:
  fixes a b :: int
  assumes "0 \<le> a" "0 < b"
  shows "a sdiv b = a div b" "a smod b = a mod b"
  using assms by (cases "a = 0"; simp add: signed_divide_int_def signed_modulo_int_def minus_div_mult_eq_mod)+

lemma calcIndex_nonneg: "0 \<le> l \<Longrightarrow> calcIndex l = (l div 1024) mod 5120"
  by (simp add: calcIndex_def itemMemPool_len_def itemMemMaxSize_def itemMemMinSize_def signed_nonneg)

definition new_itemMem :: "int \<Rightarrow> itemMem" where
  "new_itemMem l = \<lparr>im_Key = 0, im_StatusCode = 0, im_Header = [], im_Data = gmake (nat l),
     im_HIT = 0, im_inUse = 0, im_written = 0, im_w = None\<rparr>"

text \<open>
  Of the pool that is asked and the item that is returned. Go's division rounds to zero, so that
  a length under -1023 has a negative index, which panics, as making a slice of a negative
  capacity does.
\<close>

definition getItemLen :: "(int \<Rightarrow> itemMem option) \<Rightarrow> int \<Rightarrow> itemMem go" where
  "getItemLen got l =
     (let l' = (if l > itemMemMaxSize then itemMemMaxSize else l); i = calcIndex l' in
      if i < 0 then None
      else case got i of
          Some itm \<Rightarrow> Some itm
        | None \<Rightarrow> if l' < 0 then None else Some (new_itemMem l'))"

text \<open>The cleaned item, and the index of the pool it is put into, if any.\<close>

definition putItemMem :: "itemMem \<Rightarrow> itemMem \<times> int option" where
  "putItemMem itm =
     (let l = int (gcap (im_Data itm));
          itm' = itemMem_Close (itm\<lparr>im_Header := [], im_Key := 0,
            im_Data := gtruncate (im_Data itm), im_HIT := 0, im_StatusCode := 0, im_inUse := 0\<rparr>)
      in (itm', if l \<le> itemMemMinSize then Some 0
                else if l \<le> itemMemMaxSize then Some (calcIndex l) else None))"

section \<open>What the operations promise\<close>

text \<open>
  \<open>Write\<close> in every outcome: the content is never changed but at its end, and a reported
  success means that all bytes are there.
\<close>

lemma file_Write_prefix:
  "file_Write r b f = (n, err, f') \<Longrightarrow>
     (err = None \<longrightarrow> n = int (length b) \<and> f' = f @ b) \<and> prefix f f' \<and> prefix f' (f @ b)"
  by (auto simp: file_Write_def take_is_prefix split: wres.splits)

lemma im_content_simps [simp]:
  "im_content (itm\<lparr>im_w := Some f\<rparr>) = f"
  "im_content (itm\<lparr>im_w := Some f, im_written := k\<rparr>) = f"
  "im_content (itm\<lparr>im_Data := d, im_w := Some f\<rparr>) = f"
  "im_w itm = None \<Longrightarrow> im_content (itm\<lparr>im_Data := d\<rparr>) = gbytes d"
  by (simp_all add: im_content_def)

lemma itemMem_Write_ok:
  assumes "im_ok itm" "itemMem_Write grow tmp_ok r1 r2 b itm = (n, err, itm')"
  shows "im_ok itm'"
    and "err = None \<Longrightarrow> n = int (length b) \<and> im_content itm' = im_content itm @ b"
    and "prefix (im_content itm') (im_content itm @ b)"
    and "im_w itm \<noteq> None \<Longrightarrow> prefix (im_content itm) (im_content itm')"
proof -
  have ok: "gslice_ok (im_Data itm)" using assms(1) by (simp add: im_ok_def)
  note app = gappend_ok [OF ok, of grow b]
  have "im_ok itm' \<and> (err = None \<longrightarrow> n = int (length b) \<and> im_content itm' = im_content itm @ b) \<and>
    prefix (im_content itm') (im_content itm @ b) \<and>
    (im_w itm \<noteq> None \<longrightarrow> prefix (im_content itm) (im_content itm'))"
  proof (cases "im_w itm")
    case (Some f)
    obtain n1 e1 f1 where fw: "file_Write r1 b f = (n1, e1, f1)" by (rule prod_cases3)
    have c: "im_content itm = f" using Some by (simp add: im_content_def)
    have "itm' = (if e1 = None then itm\<lparr>im_w := Some f1, im_written := im_written itm + int (length b)\<rparr>
      else itm\<lparr>im_w := Some f1\<rparr>)" "n = n1" "err = e1"
      using assms(2) Some fw by (auto simp: itemMem_Write_def Let_def)
    then show ?thesis using file_Write_prefix [OF fw] c ok by (simp add: im_ok_def im_content_def)
  next
    case None
    have c: "im_content itm = gbytes (im_Data itm)" using None by (simp add: im_content_def)
    obtain n0 e0 f0 where d: "file_Write r1 (gbytes (im_Data itm)) [] = (n0, e0, f0)"
      by (rule prod_cases3)
    obtain n1 e1 f1 where fw: "file_Write r2 b f0 = (n1, e1, f1)" by (rule prod_cases3)
    consider
      (append) "n = int (length b)" "err = None" "itm' = itm\<lparr>im_Data := gappend grow (im_Data itm) b\<rparr>"
      | (dump) "e0 \<noteq> None" "n = 0" "err = e0" "itm' = itm\<lparr>im_w := Some f0\<rparr>"
      | (moved) "e0 = None" "n = n1" "err = e1"
          "itm' = itm\<lparr>im_Data := gtruncate (im_Data itm), im_w := Some f1\<rparr>"
      using assms(2) None d fw by (auto simp: itemMem_Write_def Let_def split: if_splits)
    then show ?thesis
    proof cases
      case append
      then show ?thesis using app None c by (simp add: im_ok_def)
    next
      case dump
      have "prefix f0 (gbytes (im_Data itm))" using file_Write_prefix [OF d] by simp
      then show ?thesis using dump c ok None by (auto simp: im_ok_def prefix_prefix)
    next
      case moved
      have "f0 = gbytes (im_Data itm)" using file_Write_prefix [OF d] moved(1) by simp
      then show ?thesis using file_Write_prefix [OF fw] moved c None by (simp add: im_ok_def)
    qed
  qed
  then show "im_ok itm'" "err = None \<Longrightarrow> n = int (length b) \<and> im_content itm' = im_content itm @ b"
    "prefix (im_content itm') (im_content itm @ b)"
    "im_w itm \<noteq> None \<Longrightarrow> prefix (im_content itm) (im_content itm')" by auto
qed

lemma itemMem_Len_content: "im_ok itm \<Longrightarrow> itemMem_Len itm = int (length (im_content itm))"
  by (simp add: itemMem_Len_def im_content_def im_ok_def length_gbytes split: option.splits)

lemma im_ok_new [simp]: "im_ok (new_itemMem l)" "im_content (new_itemMem l) = []"
  by (simp_all add: im_ok_def new_itemMem_def im_content_def)

section \<open>Reading from an item in memory\<close>

lemma mem_step_length: "length (fst (file_ReadAt f k off)) = min k (length f - off)"
  by (simp add: file_ReadAt_def Let_def min_def)

context sink
begin

lemma mem_range_loop_all:
  assumes "good w" "0 < left" "seek + nat left \<le> length f"
  shows "\<exists>w'. mem_range_loop wr f seek left written w = (written + left, None, w') \<and> good w' \<and>
    contents w' = contents w @ take (nat left) (drop seek f)"
  using assms
proof (induction "nat left" arbitrary: seek left written w rule: less_induct)
  case less
  let ?b = "take defaultBufferReadSize (drop seek f)"
  let ?n = "length ?b"
  have n: "?n = min defaultBufferReadSize (length f - seek)" by simp
  have npos: "0 < ?n" using less.prems(2,3) by (auto simp: defaultBufferReadSize_def)
  have ra: "file_ReadAt f defaultBufferReadSize seek = (?b, ?n < defaultBufferReadSize)"
    by (simp add: file_ReadAt_def Let_def)
  show ?case
  proof (cases "left \<le> int ?n")
    case True
    have k: "nat (if left - int ?n < 0 then int ?n + (left - int ?n) else int ?n) = nat left"
      using True less.prems(2) by auto
    have tk: "take (nat left) ?b = take (nat left) (drop seek f)"
    proof -
      have "nat left \<le> defaultBufferReadSize" using True n by linarith
      then show ?thesis by (simp add: min_absorb1)
    qed
    obtain w1 where w1: "wr (take (nat left) ?b) w = (int (length (take (nat left) ?b)), None, w1)" "good w1"
      "contents w1 = contents w @ take (nat left) ?b" by (rule writeE [OF less.prems(1)])
    have "int (length (take (nat left) ?b)) = left"
      using True less.prems by auto
    then show ?thesis
      using w1 True k tk by (subst mem_range_loop.simps) (simp only: ra, simp add: Let_def)
  next
    case False
    have full: "?n = defaultBufferReadSize" using False less.prems(3) n by auto
    obtain w1 where w1: "wr ?b w = (int ?n, None, w1)" "good w1" "contents w1 = contents w @ ?b"
      by (rule writeE [OF less.prems(1)])
    have lt: "nat (left - int ?n) < nat left" using False npos by auto
    have pos: "0 < left - int ?n" and within: "seek + ?n + nat (left - int ?n) \<le> length f"
      using False less.prems by auto
    from less.hyps [OF lt w1(2) pos within, of "written + int ?n"] obtain w' where
      IH: "mem_range_loop wr f (seek + ?n) (left - int ?n) (written + int ?n) w1
        = (written + int ?n + (left - int ?n), None, w')" "good w'"
        "contents w' = contents w1 @ take (nat (left - int ?n)) (drop (seek + ?n) f)" by blast
    have split: "take (nat left) (drop seek f) = ?b @ take (nat (left - int ?n)) (drop (seek + ?n) f)"
      using take_drop_split [of ?n "nat left" "drop seek f"] False full
      by (simp add: nat_diff_distrib add.commute)
    have "mem_range_loop wr f seek left written w
        = mem_range_loop wr f (seek + ?n) (left - int ?n) (written + int ?n) w1"
      using False full w1(1) by (subst mem_range_loop.simps) (simp only: ra, simp add: Let_def)
    then show ?thesis using IH w1(3) split by simp
  qed
qed

lemma itemMem_WriteTo_all:
  assumes "good w" "im_ok itm"
  shows "\<exists>w'. itemMem_WriteTo True wr itm w = (itemMem_Len itm, None, w') \<and> good w' \<and>
    contents w' = contents w @ im_content itm"
proof (cases "im_w itm")
  case None
  obtain w' where "wr (gbytes (im_Data itm)) w = (int (length (gbytes (im_Data itm))), None, w')"
    "good w'" "contents w' = contents w @ gbytes (im_Data itm)" by (rule writeE [OF assms(1)])
  then show ?thesis
    using None assms by (simp add: itemMem_WriteTo_def itemMem_Len_content im_content_def)
next
  case (Some f)
  then show ?thesis
    using io_Copy_all [of w f 0] assms
    by (simp add: itemMem_WriteTo_def itemMem_Len_content im_content_def)
qed

lemma itemMem_WriteToRange_all:
  assumes "good w" "im_ok itm" "0 \<le> from" "from < to" "to \<le> itemMem_Len itm"
  shows "\<exists>w'. itemMem_WriteToRange True wr itm from to w = Some (to - from, None, w') \<and> good w' \<and>
    contents w' = contents w @ take (nat (to - from)) (drop (nat from) (im_content itm))"
proof (cases "im_w itm")
  case None
  have ok: "gslice_ok (im_Data itm)" using assms(2) by (simp add: im_ok_def)
  let ?b = "take (nat (to - from)) (drop (nat from) (gbytes (im_Data itm)))"
  have "to \<le> int (glen (im_Data itm))" using assms(5) None by (simp add: itemMem_Len_def)
  with assms ok have r: "greslice (im_Data itm) from to = Some ?b"
    and l: "int (length ?b) = to - from"
    by (auto intro: greslice_within simp: length_gbytes)
  obtain w' where "wr ?b w = (int (length ?b), None, w')" "good w'" "contents w' = contents w @ ?b"
    by (rule writeE [OF assms(1)])
  then show ?thesis
    using None assms r l by (simp add: itemMem_WriteToRange_def im_content_def)
next
  case (Some f)
  have "nat from + nat (to - from) \<le> length f" using assms Some by (simp add: itemMem_Len_def)
  with mem_range_loop_all [of w "to - from" "nat from" f 0] assms Some show ?thesis
    by (auto simp: itemMem_WriteToRange_def im_content_def)
qed

end

text \<open>Items in memory provide the interface of cached items, for every sink.\<close>

definition im_ready :: "itemMem \<Rightarrow> bool" where
  "im_ready itm \<longleftrightarrow> im_ok itm \<and> length (im_content itm) < 2 ^ 63"

sublocale sink \<subseteq> mem: cached_item wr contents good im_ready im_content itemMem_Len itemMem_ValidRange
    "\<lambda>i w. Some (Some (itemMem_WriteTo True wr i w))"
    "\<lambda>i f t w. Some (itemMem_WriteToRange True wr i f t w)"
proof (unfold_locales, goal_cases)
  case (1 i)
  then show ?case by (simp add: im_ready_def itemMem_Len_content)
next
  case (2 i)
  then show ?case by (simp add: im_ready_def itemMem_Len_content)
next
  case (3 i s e)
  show ?case by (simp add: itemMem_ValidRange_def)
next
  case (4 i w)
  then show ?case using itemMem_WriteTo_all [of w i] by (auto simp: im_ready_def)
next
  case (5 i w f t)
  then show ?case using itemMem_WriteToRange_all [of w i f t] by (auto simp: im_ready_def)
qed

context sink
begin

lemma mem_item: "cached_item wr contents good im_ready im_content itemMem_Len itemMem_ValidRange
    (\<lambda>i w. Some (Some (itemMem_WriteTo True wr i w)))
    (\<lambda>i f t w. Some (itemMem_WriteToRange True wr i f t w))"
  by unfold_locales

end

end
