(* ===== verification/Item_Disk.thy ===== *)
theory Item_Disk
  imports VFile Cached_Item Item_Mem
begin

text \<open>
  \<open>lsm/itemDisk.go\<close>: a response that was moved to a file, as a place in the file: the header
  from \<open>id_Off\<close>, the body after it. \<open>id_VFile\<close> is the pointer to the file, resolved in a
  store of files; an operation on an item that was already recycled dereferences nil.

  The loop of \<open>writeTo\<close> need not end, so it is a partial function: \<open>None\<close> is a call that does
  not return, \<open>Some None\<close> one that panics.
\<close>

record itemDisk =
  id_Key :: u64
  id_StatusCode :: int
  id_VFile :: "addr option"
  id_Off :: int
  id_HeadSize :: int
  id_BodySize :: int
  id_HIT :: u64
  id_inUse :: int

type_synonym vfiles = "addr \<Rightarrow> vfile"

definition zero_itemDisk :: itemDisk where
  "zero_itemDisk = \<lparr>id_Key = 0, id_StatusCode = 0, id_VFile = None, id_Off = 0, id_HeadSize = 0,
     id_BodySize = 0, id_HIT = 0, id_inUse = 0\<rparr>"

text \<open>The pool returns some recycled item (\<open>got\<close>) or nothing.\<close>

definition getItemDisk :: "itemDisk option \<Rightarrow> itemDisk" where
  "getItemDisk got = (case got of Some v \<Rightarrow> v | None \<Rightarrow> zero_itemDisk)"

definition putItemDisk :: "itemDisk \<Rightarrow> itemDisk" where
  "putItemDisk v = v\<lparr>id_BodySize := 0, id_HIT := 0, id_HeadSize := 0, id_Key := 0, id_Off := 0,
     id_StatusCode := 0, id_VFile := None, id_inUse := 0\<rparr>"

definition itemDisk_GetStatusCode :: "itemDisk \<Rightarrow> int" where
  "itemDisk_GetStatusCode itd = id_StatusCode itd"

definition itemDisk_Done :: "itemDisk \<Rightarrow> itemDisk" where
  "itemDisk_Done itd = itd\<lparr>id_inUse := id_inUse itd - 1\<rparr>"

definition itemDisk_GetHIT :: "itemDisk \<Rightarrow> u64" where
  "itemDisk_GetHIT itd = id_HIT itd"

definition itemDisk_Len :: "itemDisk \<Rightarrow> int" where
  "itemDisk_Len itd = id_BodySize itd"

definition itemDisk_Write :: "byte list \<Rightarrow> itemDisk \<Rightarrow> int \<times> lsm_error option \<times> itemDisk" where
  "itemDisk_Write b itd = (0, Some ErrItemDiskWrite, itd)"

definition itemDisk_ValidRange :: "itemDisk \<Rightarrow> int \<Rightarrow> int \<Rightarrow> lsm_error + (int \<times> int \<times> int)" where
  "itemDisk_ValidRange itd reqStart reqEnd = valid_range (itemDisk_Len itd) reqStart reqEnd"

section \<open>The read loop\<close>

text \<open>
  One turn reads up to 4 KB, or what is left, writes it without looking at the writer's
  error, and stops when nothing is left, or by its two checks against the size.
\<close>

partial_function (option) disk_loop ::
  "'w writer \<Rightarrow> vfile \<Rightarrow> int \<Rightarrow> int \<Rightarrow> int \<Rightarrow> int \<Rightarrow> int \<Rightarrow> int \<Rightarrow> 'w \<Rightarrow> 'w io_result" where
  "disk_loop wr vf seek from to bodySize past left w =
     (if left < 0 then Some None
      else
        let blen = (if left < int defaultBufferReadSize then nat left else defaultBufferReadSize) in
        case vf_ReadAt vf blen (seek + past) of
          (b, Some (ReadErr err)) \<Rightarrow> Some (Some (int (length b), Some err, w))
        | (b, _) \<Rightarrow>
            let past' = past + int (length b); left' = left - int (length b);
                w' = snd (snd (wr b w)); ranged = (from > 0 \<or> to > 0) in
            if left' = 0 then Some (Some (past', None, w'))
            else if past' = bodySize \<or> (ranged \<and> past' = to) then Some (Some (past', None, w'))
            else if past' > bodySize \<or> (ranged \<and> past' > to)
              then Some (Some (past', Some ErrReadingItemDisk, w'))
            else disk_loop wr vf seek from to bodySize past' left' w')"

definition itemDisk_writeTo ::
  "vfiles \<Rightarrow> 'w writer \<Rightarrow> itemDisk \<Rightarrow> int \<Rightarrow> int \<Rightarrow> 'w \<Rightarrow> 'w io_result" where
  "itemDisk_writeTo fs wr itd from to w =
     (let ranged = (from > 0 \<or> to > 0);
          seek = id_Off itd + id_HeadSize itd + (if ranged then from else 0);
          left = (if ranged then to - from else id_BodySize itd) in
      case id_VFile itd of
        None \<Rightarrow> Some None
      | Some a \<Rightarrow> disk_loop wr (fs a) seek from to (id_BodySize itd) 0 left w)"

definition itemDisk_WriteTo :: "vfiles \<Rightarrow> 'w writer \<Rightarrow> itemDisk \<Rightarrow> 'w \<Rightarrow> 'w io_result" where
  "itemDisk_WriteTo fs wr itd w = itemDisk_writeTo fs wr itd 0 0 w"

definition itemDisk_WriteToRange ::
  "vfiles \<Rightarrow> 'w writer \<Rightarrow> itemDisk \<Rightarrow> int \<Rightarrow> int \<Rightarrow> 'w \<Rightarrow> 'w io_result" where
  "itemDisk_WriteToRange fs wr itd from to w =
     (if from > to then Some (Some (0, Some ErrWrongRange, w))
      else itemDisk_writeTo fs wr itd from to w)"

text \<open>\<open>Bytes\<close>: the outer \<open>None\<close> does not return, the next panics, the last is \<open>nil\<close>.\<close>

definition itemDisk_Bytes :: "vfiles \<Rightarrow> itemDisk \<Rightarrow> byte list option go option" where
  "itemDisk_Bytes fs itd =
     (if itemDisk_Len itd < 0 then Some None
      else case itemDisk_writeTo fs buf_Write itd 0 0 [] of
          None \<Rightarrow> None
        | Some None \<Rightarrow> Some None
        | Some (Some (n, err, b)) \<Rightarrow> Some (Some (if err \<noteq> None then None else Some b)))"

section \<open>The header\<close>

text \<open>
  \<open>GetHeader\<close> reads the header's bytes and hands them to the parser through a reader of
  \<open>lsm/pool.go\<close>, which never signals the end, and which for more than 4 KB, the buffer of
  \<open>bufio\<close>, claims to have read more than it was given room for: \<open>bufio\<close> then panics. A parser
  that wants more than the header is given the same bytes again (\<open>Header_rereads\<close>, not followed
  further).
\<close>

datatype header_result = Header_is header | Header_nil | Header_panics | Header_rereads

definition internalBytes_parse :: "byte list \<Rightarrow> header_result" where
  "internalBytes_parse b =
     (if b = [] then Header_nil
      else if 4096 < length b then Header_panics
      else case read_mime (string_of b) of
          Mime_ok h \<Rightarrow> Header_is h
        | Mime_malformed \<Rightarrow> Header_nil
        | Mime_more \<Rightarrow> Header_rereads)"

definition itemDisk_GetHeader :: "vfiles \<Rightarrow> itemDisk \<Rightarrow> header_result" where
  "itemDisk_GetHeader fs itd =
     (if id_HeadSize itd < 0 then Header_panics
      else case id_VFile itd of
          None \<Rightarrow> Header_panics
        | Some a \<Rightarrow>
            (case vf_ReadAt (fs a) (nat (id_HeadSize itd)) (id_Off itd) of
               (b, err) \<Rightarrow>
                 if id_HeadSize itd \<noteq> int (length b) \<or> err \<noteq> None then Header_nil
                 else internalBytes_parse b))"

section \<open>What the loop does\<close>

text \<open>
  While the file holds all that is left, the loop ends, reports every byte and no error, and
  passes the bytes to the writer in order, whatever the writer answers: its state is that of
  the successive writes of the chunks.
\<close>

fun writes_state :: "'w writer \<Rightarrow> byte list list \<Rightarrow> 'w \<Rightarrow> 'w" where
  "writes_state wr [] w = w"
| "writes_state wr (b # bs) w = writes_state wr bs (snd (snd (wr b w)))"

lemma disk_loop_reads:
  assumes "vf_r vf" "0 \<le> left" "0 \<le> past" "0 \<le> seek" "past + left \<le> bodySize"
    and "from > 0 \<or> to > 0 \<Longrightarrow> past + left \<le> to"
    and "nat (seek + past + left) \<le> length (vf_file vf)"
  shows "\<exists>bs. disk_loop wr vf seek from to bodySize past left w
      = Some (Some (past + left, None, writes_state wr bs w)) \<and>
    concat bs = take (nat left) (drop (nat (seek + past)) (vf_file vf))"
  using assms
proof (induction "nat left" arbitrary: past left w rule: less_induct)
  case less
  let ?blen = "if left < int defaultBufferReadSize then nat left else defaultBufferReadSize"
  let ?b = "take ?blen (drop (nat (seek + past)) (vf_file vf))"
  have blen: "int ?blen \<le> left" using less.prems(2) by auto
  have fits: "nat (seek + past) + ?blen \<le> length (vf_file vf)"
    using less.prems(2,3,4,7) blen by linarith
  have ra: "vf_ReadAt vf ?blen (seek + past) = (?b, None)"
    using vf_ReadAt_full [OF less.prems(1) _ fits] less.prems(3,4) by simp
  have lb: "length ?b = ?blen" using fits by simp
  show ?case
  proof (cases "left < int defaultBufferReadSize")
    case True
    have "disk_loop wr vf seek from to bodySize past left w
        = Some (Some (past + left, None, writes_state wr [?b] w))"
      using True less.prems(2) ra lb by (subst disk_loop.simps) (simp add: Let_def)
    moreover have "concat [?b] = take (nat left) (drop (nat (seek + past)) (vf_file vf))"
      using True by simp
    ultimately show ?thesis by blast
  next
    case False
    let ?k = "int defaultBufferReadSize"
    have kpos: "0 < ?k" by (simp add: defaultBufferReadSize_def)
    show ?thesis
    proof (cases "left = ?k")
      case True
      have "disk_loop wr vf seek from to bodySize past left w
          = Some (Some (past + left, None, writes_state wr [?b] w))"
        using True less.prems(2) ra lb by (subst disk_loop.simps) (simp add: Let_def)
      moreover have "concat [?b] = take (nat left) (drop (nat (seek + past)) (vf_file vf))"
        using True by simp
      ultimately show ?thesis by blast
    next
      case neq: False
      let ?w1 = "snd (snd (wr ?b w))"
      have lt: "nat (left - ?k) < nat left" using False kpos by linarith
      have "\<exists>bs. disk_loop wr vf seek from to bodySize (past + ?k) (left - ?k) ?w1
          = Some (Some (past + ?k + (left - ?k), None, writes_state wr bs ?w1)) \<and>
        concat bs = take (nat (left - ?k)) (drop (nat (seek + (past + ?k))) (vf_file vf))"
        by (rule less.hyps [OF lt less.prems(1)])
          (use False less.prems kpos in \<open>auto simp: algebra_simps\<close>)
      then obtain bs where bs: "disk_loop wr vf seek from to bodySize (past + ?k) (left - ?k) ?w1
          = Some (Some (past + left, None, writes_state wr (?b # bs) w))"
        "concat bs = take (nat (left - ?k)) (drop (nat (seek + (past + ?k))) (vf_file vf))"
        by auto
      have "disk_loop wr vf seek from to bodySize past left w
          = disk_loop wr vf seek from to bodySize (past + ?k) (left - ?k) ?w1"
        using False neq less.prems ra lb kpos by (subst disk_loop.simps) (auto simp: Let_def)
      moreover have "concat (?b # bs) = take (nat left) (drop (nat (seek + past)) (vf_file vf))"
      proof -
        have "nat left - defaultBufferReadSize = nat (left - ?k)"
          "defaultBufferReadSize + nat (seek + past) = nat (seek + (past + ?k))"
          using less.prems(3,4) by (simp_all add: nat_diff_distrib' algebra_simps)
        then show ?thesis
          using bs(2) False
            take_drop_split [of defaultBufferReadSize "nat left" "drop (nat (seek + past)) (vf_file vf)"]
          by (simp add: add.commute)
      qed
      ultimately show ?thesis using bs(1) by metis
    qed
  qed
qed

context sink
begin

lemma writes_state_contents:
  assumes "good w"
  shows "good (writes_state wr bs w) \<and> contents (writes_state wr bs w) = contents w @ concat bs"
  using assms
proof (induction bs arbitrary: w)
  case Nil
  then show ?case by simp
next
  case (Cons b bs)
  obtain w' where "wr b w = (int (length b), None, w')" "good w'" "contents w' = contents w @ b"
    by (rule writeE [OF Cons.prems])
  then show ?case using Cons.IH [of w'] by simp
qed

end

section \<open>The body of an item on disk\<close>

definition id_body :: "vfiles \<Rightarrow> itemDisk \<Rightarrow> byte list" where
  "id_body fs itd =
     (case id_VFile itd of
        None \<Rightarrow> []
      | Some a \<Rightarrow> take (nat (id_BodySize itd))
          (drop (nat (id_Off itd + id_HeadSize itd)) (vf_file (fs a))))"

text \<open>The record lies in a file that can be read.\<close>

definition id_ready :: "vfiles \<Rightarrow> itemDisk \<Rightarrow> bool" where
  "id_ready fs itd \<longleftrightarrow>
     (case id_VFile itd of
        None \<Rightarrow> False
      | Some a \<Rightarrow> vf_r (fs a) \<and> 0 \<le> id_Off itd \<and> 0 \<le> id_HeadSize itd \<and> 0 \<le> id_BodySize itd \<and>
          id_BodySize itd < 2 ^ 63 \<and>
          id_Off itd + id_HeadSize itd + id_BodySize itd \<le> int (length (vf_file (fs a))))"

lemma id_readyE:
  assumes "id_ready fs itd"
  obtains a where "id_VFile itd = Some a" "vf_r (fs a)" "0 \<le> id_Off itd + id_HeadSize itd"
    "0 \<le> id_BodySize itd" "id_BodySize itd < 2 ^ 63"
    "nat (id_Off itd + id_HeadSize itd) + nat (id_BodySize itd) \<le> length (vf_file (fs a))"
    "id_body fs itd = take (nat (id_BodySize itd))
      (drop (nat (id_Off itd + id_HeadSize itd)) (vf_file (fs a)))"
proof -
  from assms obtain a where a: "id_VFile itd = Some a" by (auto simp: id_ready_def split: option.splits)
  show thesis by (rule that [OF a]) (use assms a in \<open>auto simp: id_ready_def id_body_def\<close>)
qed

lemma id_Len_body: "id_ready fs itd \<Longrightarrow> itemDisk_Len itd = int (length (id_body fs itd))"
  by (erule id_readyE) (simp add: itemDisk_Len_def)

lemma itemDisk_WriteTo_reads:
  assumes "id_ready fs itd"
  shows "\<exists>bs. itemDisk_WriteTo fs wr itd w
      = Some (Some (itemDisk_Len itd, None, writes_state wr bs w)) \<and> concat bs = id_body fs itd"
proof -
  from assms obtain a where a: "id_VFile itd = Some a" "vf_r (fs a)"
    "0 \<le> id_Off itd + id_HeadSize itd" "0 \<le> id_BodySize itd"
    "nat (id_Off itd + id_HeadSize itd) + nat (id_BodySize itd) \<le> length (vf_file (fs a))"
    "id_body fs itd = take (nat (id_BodySize itd))
      (drop (nat (id_Off itd + id_HeadSize itd)) (vf_file (fs a)))" by (rule id_readyE)
  have "nat (id_Off itd + id_HeadSize itd + 0 + id_BodySize itd) \<le> length (vf_file (fs a))"
    using a(3-5) by (simp add: nat_add_distrib)
  with disk_loop_reads [of "fs a" "id_BodySize itd" 0 "id_Off itd + id_HeadSize itd"
      "id_BodySize itd" 0 0 wr w] a
  show ?thesis by (simp add: itemDisk_WriteTo_def itemDisk_writeTo_def itemDisk_Len_def)
qed

lemma itemDisk_WriteToRange_reads:
  assumes "id_ready fs itd" "0 \<le> from" "from < to" "to \<le> itemDisk_Len itd"
  shows "\<exists>bs. itemDisk_WriteToRange fs wr itd from to w
      = Some (Some (to - from, None, writes_state wr bs w)) \<and>
    concat bs = take (nat (to - from)) (drop (nat from) (id_body fs itd))"
proof -
  from assms(1) obtain a where a: "id_VFile itd = Some a" "vf_r (fs a)"
    "0 \<le> id_Off itd + id_HeadSize itd" "0 \<le> id_BodySize itd"
    "nat (id_Off itd + id_HeadSize itd) + nat (id_BodySize itd) \<le> length (vf_file (fs a))"
    "id_body fs itd = take (nat (id_BodySize itd))
      (drop (nat (id_Off itd + id_HeadSize itd)) (vf_file (fs a)))" by (rule id_readyE)
  let ?seek = "id_Off itd + id_HeadSize itd + from"
  have to: "to \<le> id_BodySize itd" using assms(4) by (simp add: itemDisk_Len_def)
  have "nat (?seek + 0 + (to - from)) \<le> length (vf_file (fs a))"
    using a(3,4,5) assms(2,3) to by linarith
  with disk_loop_reads [of "fs a" "to - from" 0 ?seek "id_BodySize itd" "from" to wr w] a assms to
  obtain bs where bs: "disk_loop wr (fs a) ?seek from to (id_BodySize itd) 0 (to - from) w
      = Some (Some (to - from, None, writes_state wr bs w))"
    "concat bs = take (nat (to - from)) (drop (nat ?seek) (vf_file (fs a)))" by auto
  have "take (nat (to - from)) (drop (nat ?seek) (vf_file (fs a)))
      = take (nat (to - from)) (drop (nat from) (id_body fs itd))"
    using a(3,6) assms(2,3) to
    by (simp add: drop_take take_take min_def nat_add_distrib add.commute nat_diff_distrib)
  then show ?thesis
    using bs a(1) assms(2,3) by (auto simp: itemDisk_WriteToRange_def itemDisk_writeTo_def Let_def)
qed

text \<open>Items on disk provide the interface of cached items, for every sink and store of files.\<close>

context sink
begin

lemma disk_item: "cached_item wr contents good (id_ready fs) (id_body fs) itemDisk_Len itemDisk_ValidRange
    (\<lambda>i w. itemDisk_WriteTo fs wr i w) (\<lambda>i f t w. itemDisk_WriteToRange fs wr i f t w)"
proof (unfold_locales, goal_cases)
  case (1 i)
  then show ?case by (rule id_Len_body)
next
  case (2 i)
  then show ?case by (rule id_readyE) (simp add: itemDisk_Len_def)
next
  case (3 i s e)
  show ?case by (simp add: itemDisk_ValidRange_def)
next
  case (4 i w)
  then show ?case using itemDisk_WriteTo_reads [OF 4(1), of wr w] writes_state_contents [OF 4(2)] by metis
next
  case (5 i w f t)
  then show ?case using itemDisk_WriteToRange_reads [of fs i f t wr w] writes_state_contents [of w] by metis
qed

end

sublocale sink \<subseteq> disk: cached_item wr contents good "id_ready fs" "id_body fs" itemDisk_Len
    itemDisk_ValidRange "itemDisk_WriteTo fs wr" "itemDisk_WriteToRange fs wr" for fs
  by (rule disk_item)

section \<open>A file that is too short\<close>

text \<open>
  When the file ends before the record does, the loop reads nothing more, stops at none of
  its checks, and does not return.
\<close>

definition disk_short :: "vfile \<Rightarrow> int \<Rightarrow> int \<Rightarrow> int \<Rightarrow> int \<Rightarrow> int \<Rightarrow> int \<Rightarrow> bool" where
  "disk_short vf seek from to bodySize past left \<longleftrightarrow>
     vf_r vf \<and> 0 \<le> seek \<and> 0 \<le> past \<and> 0 < left \<and> past + left \<le> bodySize \<and>
     (from > 0 \<or> to > 0 \<longrightarrow> past + left \<le> to) \<and> int (length (vf_file vf)) < seek + past + left"

lemma disk_loop_stuck_step:
  assumes IH: "\<And>wr vf seek from to bodySize past left w y.
      loop wr vf seek from to bodySize past left w = Some y \<Longrightarrow>
      \<not> disk_short vf seek from to bodySize past left"
    and body: "(if left < 0 then Some None
      else
        let blen = (if left < int defaultBufferReadSize then nat left else defaultBufferReadSize) in
        case vf_ReadAt vf blen (seek + past) of
          (b, Some (ReadErr err)) \<Rightarrow> Some (Some (int (length b), Some err, w))
        | (b, _) \<Rightarrow>
            let past' = past + int (length b); left' = left - int (length b);
                w' = snd (snd (wr b w)); ranged = (from > 0 \<or> to > 0) in
            if left' = 0 then Some (Some (past', None, w'))
            else if past' = bodySize \<or> (ranged \<and> past' = to) then Some (Some (past', None, w'))
            else if past' > bodySize \<or> (ranged \<and> past' > to)
              then Some (Some (past', Some ErrReadingItemDisk, w'))
            else loop wr vf seek from to bodySize past' left' w') = Some r"
  shows "\<not> disk_short vf seek from to bodySize past left"
proof (rule notI)
  assume "disk_short vf seek from to bodySize past left"
  note short = this [unfolded disk_short_def]
  let ?blen = "if left < int defaultBufferReadSize then nat left else defaultBufferReadSize"
  let ?b = "take ?blen (drop (nat (seek + past)) (vf_file vf))"
  let ?n = "int (length ?b)"
  have n: "?n < left" "0 \<le> ?n" using short by auto
  have n': "past + ?n < bodySize" "from > 0 \<or> to > 0 \<Longrightarrow> past + ?n < to" using short n(1) by linarith+
  have ra: "vf_ReadAt vf ?blen (seek + past) = (?b, if length ?b < ?blen then Some EOF else None)"
    using short by (simp add: vf_ReadAt_def file_ReadAt_def Let_def)
  have "loop wr vf seek from to bodySize (past + ?n) (left - ?n) (snd (snd (wr ?b w))) = Some r"
    using body short n n' unfolding Let_def ra by (cases "length ?b < ?blen") (auto split: if_splits)
  from IH [OF this] short n n' show False by (auto simp: disk_short_def)
qed

lemma disk_loop_stuck:
  assumes "disk_loop wr vf seek from to bodySize past left w = Some r"
  shows "\<not> disk_short vf seek from to bodySize past left"
  by (rule disk_loop.raw_induct [where P = "\<lambda>wr vf seek from to bodySize past left w r.
      \<not> disk_short vf seek from to bodySize past left", OF disk_loop_stuck_step assms])

end
