(* ===== verification/VLog.thy ===== *)
theory VLog
  imports Item_Disk
begin

text \<open>
  \<open>lsm/vlog.go\<close>: moving responses from memory into files. There is one channel and one reader
  for every TTL in whole seconds; a reader appends the items it receives to its current file,
  header, empty line, body and end mark, and turns to a new file when the file has expired,
  has grown over 1000 MB, or fails.

  The outcomes of the operating system are arguments: a list with the outcome of each write,
  and whether files can be made. All writes of one record happen at one time \<open>now\<close>.
\<close>

definition defaultMaxFileSize :: int where "defaultMaxFileSize = 1000 * 1024 * 1024"
definition defaultTransformBuffer :: nat where "defaultTransformBuffer = 100000"
definition endRecordMark :: "byte list" where "endRecordMark = bytes_of (''>>>>>!ELINPROXY'' @ [LF])"
definition newLine :: "byte list" where "newLine = bytes_of crlf"

section \<open>A file as a writer\<close>

text \<open>The state of the writer is the list of outcomes to come (then all succeed) and the file.\<close>

type_synonym fwriter = "wres list \<times> vfile"

definition vfw_Write :: "int \<Rightarrow> fwriter writer" where
  "vfw_Write now b s =
     (case s of (rs, vf) \<Rightarrow>
        case vf_Write now (case rs of [] \<Rightarrow> W_ok | r # _ \<Rightarrow> r) b vf of
          (n, err, vf') \<Rightarrow> (n, err, (tl rs, vf')))"

definition vfw_file :: "fwriter \<Rightarrow> byte list" where
  "vfw_file s = vf_file (snd s)"

definition vfw_good :: "fwriter \<Rightarrow> bool" where
  "vfw_good s \<longleftrightarrow> (\<forall>r\<in>set (fst s). r = W_ok) \<and> vf_w (snd s)"

lemma vfw_Write_good:
  assumes "vfw_good s"
  shows "vfw_Write now b s = (int (length b), None, (tl (fst s),
     (snd s)\<lparr>vf_expireAt := now + vf_ttl (snd s) + 5 * Second, vf_file := vf_file (snd s) @ b,
       vf_size := vf_size (snd s) + int (length b)\<rparr>))"
proof -
  obtain rs vf where s: "s = (rs, vf)" by (cases s)
  have "(case rs of [] \<Rightarrow> W_ok | r # _ \<Rightarrow> r) = W_ok"
    using assms s by (cases rs) (auto simp: vfw_good_def)
  then show ?thesis using assms s vf_Write_open [of vf now b] by (simp add: vfw_Write_def vfw_good_def)
qed

text \<open>
  The contract of the writer: the file only grows, its size is counted, and nothing but the
  size, the contents and the expiry of the file \<open>vf0\<close> that it started with changes.
\<close>

definition vf_frame :: "vfile \<Rightarrow> vfile" where
  "vf_frame vf = vf\<lparr>vf_expireAt := 0, vf_size := 0, vf_file := []\<rparr>"

lemma vf_frame_eqD:
  "vf_frame vf = vf_frame vf0 \<Longrightarrow> vf_ttl vf = vf_ttl vf0 \<and> vf_r vf = vf_r vf0 \<and> vf_w vf = vf_w vf0 \<and>
     vf_no vf = vf_no vf0 \<and> vf_autoExpire vf = vf_autoExpire vf0 \<and> vf_linked vf = vf_linked vf0"
  by (cases vf; cases vf0) (simp add: vf_frame_def)

text \<open>The file holds \<open>k\<close> bytes more than are counted, after writes that failed halfway.\<close>

definition vf_lag :: "nat \<Rightarrow> vfile \<Rightarrow> bool" where
  "vf_lag k vf \<longleftrightarrow> vf_size vf + int k = int (length (vf_file vf))"

lemma vf_lag_0: "vf_lag 0 vf = vf_ok vf"
  by (simp add: vf_lag_def vf_ok_def)

definition vfw_like :: "nat \<Rightarrow> vfile \<Rightarrow> fwriter \<Rightarrow> bool" where
  "vfw_like k vf0 s \<longleftrightarrow> vfw_good s \<and> vf_lag k (snd s) \<and> vf_frame (snd s) = vf_frame vf0"

interpretation vfw: sink "vfw_Write now" vfw_file "vfw_like k vf0" for now k vf0
proof (unfold_locales, goal_cases)
  case (1 s b)
  then have g: "vfw_good s" by (simp add: vfw_like_def)
  show ?case
    using 1 unfolding vfw_Write_good [OF g]
    by (auto simp: vfw_like_def vfw_file_def vfw_good_def vf_lag_def vf_frame_def dest: in_set_tlD)
qed

section \<open>Writing a record\<close>

text \<open>The strings \<open>Header.Write\<close> writes one after the other, up to the first error.\<close>

definition header_pieces :: "header \<Rightarrow> byte list list" where
  "header_pieces h = map bytes_of (concat (map (\<lambda>(k, vs).
     concat (map (\<lambda>v. [k, '': '', norm_value v, crlf]) vs)) (sort_key fst h)))"

fun write_pieces :: "'w writer \<Rightarrow> byte list list \<Rightarrow> 'w \<Rightarrow> lsm_error option \<times> 'w" where
  "write_pieces wr [] w = (None, w)"
| "write_pieces wr (b # bs) w =
     (case wr b w of (n, err, w') \<Rightarrow> if err \<noteq> None then (err, w') else write_pieces wr bs w')"

definition vl_transform ::
  "int \<Rightarrow> bool \<Rightarrow> itemDisk option \<Rightarrow> addr \<Rightarrow> itemMem \<Rightarrow> fwriter \<Rightarrow> (lsm_error + itemDisk) \<times> fwriter" where
  "vl_transform now open_ok got a itm s =
     (let off = vf_Seek (snd s);
          itd = (getItemDisk got)\<lparr>id_Key := im_Key itm, id_StatusCode := im_StatusCode itm,
            id_Off := off, id_HeadSize := 0, id_BodySize := 0, id_VFile := Some a,
            id_HIT := im_HIT itm\<rparr> in
      case write_pieces (vfw_Write now) (header_pieces (im_Header itm)) s of
        (Some err, s1) \<Rightarrow> (Inl err, s1)
      | (None, s1) \<Rightarrow>
          (case vfw_Write now newLine s1 of
             (_, _, s2) \<Rightarrow>
               let head = vf_Seek (snd s2) - off in
               case itemMem_WriteTo open_ok (vfw_Write now) itm s2 of
                 (nb, Some err, s3) \<Rightarrow> (Inl err, s3)
               | (nb, None, s3) \<Rightarrow>
                   (case vfw_Write now endRecordMark s3 of
                      (_, _, s4) \<Rightarrow>
                        (Inr (itd\<lparr>id_HeadSize := head, id_BodySize := vf_Seek (snd s3) - off - head\<rparr>),
                         s4))))"

section \<open>The reader\<close>

text \<open>
  The files of the program: the store, the next free address, the counter for the names, and
  the goroutines of \<open>AutoExpire\<close> that wait to close a file, with the time at which they do.
\<close>

record files =
  fl_fs :: vfiles
  fl_next :: addr
  fl_no :: nat
  fl_closing :: "(addr \<times> int) list"

definition fl_new :: "bool \<Rightarrow> bool \<Rightarrow> int \<Rightarrow> int \<Rightarrow> files \<Rightarrow> (addr \<times> files) go" where
  "fl_new create_ok open_ok now ttl st =
     (case VFileNew create_ok open_ok now ttl (fl_no st) of
        None \<Rightarrow> None
      | Some (vf, no) \<Rightarrow>
          Some (fl_next st, st\<lparr>fl_fs := (fl_fs st)(fl_next st := vf), fl_next := fl_next st + 1,
            fl_no := no\<rparr>))"

definition fl_AutoExpire :: "int \<Rightarrow> addr \<Rightarrow> files \<Rightarrow> files" where
  "fl_AutoExpire now a st =
     (case vf_AutoExpire (fl_fs st a) of
        (vf, d) \<Rightarrow> st\<lparr>fl_fs := (fl_fs st)(a := vf),
          fl_closing := (case d of None \<Rightarrow> [] | Some d \<Rightarrow> [(a, now + d)]) @ fl_closing st\<rparr>)"

text \<open>The goroutines whose time has come close their files.\<close>

definition fl_wake :: "int \<Rightarrow> files \<Rightarrow> files" where
  "fl_wake now st =
     (let due = filter (\<lambda>(a, t). t \<le> now) (fl_closing st) in
      st\<lparr>fl_fs := (\<lambda>a. if a \<in> fst ` set due then vf_Close (fl_fs st a) else fl_fs st a),
         fl_closing := filter (\<lambda>(a, t). \<not> t \<le> now) (fl_closing st)\<rparr>)"

text \<open>
  What the operating system and the pool do in one try to write a record, and in the making
  of the file that may follow.
\<close>

record try_env =
  te_writes :: "wres list"
  te_open :: bool
  te_got :: "itemDisk option"
  te_file :: "bool \<times> bool"

definition vl_rotate :: "bool \<times> bool \<Rightarrow> int \<Rightarrow> int \<Rightarrow> addr \<Rightarrow> files \<Rightarrow> (addr \<times> files) go" where
  "vl_rotate e now ttl w st = fl_new (fst e) (snd e) now ttl (fl_AutoExpire now w st)"

text \<open>At most three tries: one for each element of the list.\<close>

fun vl_tries ::
  "try_env list \<Rightarrow> int \<Rightarrow> int \<Rightarrow> itemMem \<Rightarrow> addr \<Rightarrow> files \<Rightarrow> (itemDisk option \<times> addr \<times> files) go" where
  "vl_tries [] now ttl itm w st = Some (None, w, st)"
| "vl_tries (e # es) now ttl itm w st =
     (case vl_transform now (te_open e) (te_got e) w itm (te_writes e, fl_fs st w) of
        (r, (_, vf)) \<Rightarrow>
          let st1 = st\<lparr>fl_fs := (fl_fs st)(w := vf)\<rparr> in
          case r of
            Inr itd \<Rightarrow> Some (Some itd, w, st1)
          | Inl _ \<Rightarrow>
              (case vl_rotate (te_file e) now ttl w st1 of
                 None \<Rightarrow> None
               | Some (w', st2) \<Rightarrow> vl_tries es now ttl itm w' st2))"

text \<open>
  One turn of \<open>reader\<close> for a received item, with file \<open>w\<close>: the item on disk that is handed to
  \<open>afterWrite\<close>, if a try succeeded, and the current file.
\<close>

definition vl_reader_turn ::
  "try_env \<times> try_env \<times> try_env \<Rightarrow> bool \<times> bool \<Rightarrow> bool \<times> bool \<Rightarrow> int \<Rightarrow> int \<Rightarrow> itemMem \<Rightarrow> addr
     \<Rightarrow> files \<Rightarrow> (itemDisk option \<times> addr \<times> files) go" where
  "vl_reader_turn es e0 e4 now ttl itm w st =
     (case (if vf_Expired now (fl_fs st w) then vl_rotate e0 now ttl w st else Some (w, st)) of
        None \<Rightarrow> None
      | Some (w1, st1) \<Rightarrow>
          (case vl_tries [fst es, fst (snd es), snd (snd es)] now ttl itm w1 st1 of
             None \<Rightarrow> None
           | Some (r, w2, st2) \<Rightarrow>
               if vf_Seek (fl_fs st2 w2) > defaultMaxFileSize
               then (case vl_rotate e4 now ttl w2 st2 of
                       None \<Rightarrow> None
                     | Some (w3, st3) \<Rightarrow> Some (r, w3, st3))
               else Some (r, w2, st2)))"

section \<open>A record that is written\<close>

context sink
begin

lemma write_pieces_all:
  assumes "good w"
  shows "\<exists>w'. write_pieces wr bs w = (None, w') \<and> good w' \<and> contents w' = contents w @ concat bs"
  using assms
proof (induction bs arbitrary: w)
  case Nil
  then show ?case by simp
next
  case (Cons b bs)
  obtain w1 where "wr b w = (int (length b), None, w1)" "good w1" "contents w1 = contents w @ b"
    by (rule writeE [OF Cons.prems])
  then show ?case using Cons.IH [of w1] by auto
qed

end

lemma concat_header_pieces: "concat (header_pieces h) = bytes_of (header_bytes h)"
proof -
  have v: "concat (map (\<lambda>v. k @ '': '' @ norm_value v @ crlf) vs)
      = concat (concat (map (\<lambda>v. [k, '': '', norm_value v, crlf]) vs))" for k and vs :: "string list"
    by (induction vs) simp_all
  have "concat (map bytes_of ss) = bytes_of (concat ss)" for ss
    by (induction ss) (simp_all add: bytes_of_def)
  moreover have "concat (concat (map (\<lambda>(k, vs). concat (map (\<lambda>v. [k, '': '', norm_value v, crlf]) vs)) l))
      = concat (map (\<lambda>(k, vs). concat (map (header_line k) vs)) l)" for l
    by (induction l) (auto simp: header_line_def v [symmetric])
  ultimately show ?thesis by (simp add: header_pieces_def header_bytes_def)
qed

definition record_head :: "itemMem \<Rightarrow> byte list" where
  "record_head itm = bytes_of (header_bytes (im_Header itm) @ crlf)"

lemma vl_transform_lag:
  assumes "vfw_good (rs, vf)" "vf_lag k vf" "im_ok itm"
  obtains itd rs' vf' where
    "vl_transform now True got a itm (rs, vf) = (Inr itd, (rs', vf'))"
    "vf_file vf' = vf_file vf @ record_head itm @ im_content itm @ endRecordMark"
    "vf_lag k vf'" "vf_frame vf' = vf_frame vf"
    "itd = (getItemDisk got)\<lparr>id_Key := im_Key itm, id_StatusCode := im_StatusCode itm,
       id_Off := int (length (vf_file vf)) - int k, id_HeadSize := int (length (record_head itm)),
       id_BodySize := int (length (im_content itm)), id_VFile := Some a, id_HIT := im_HIT itm\<rparr>"
proof -
  have g0: "vfw_like k vf (rs, vf)" using assms by (simp add: vfw_like_def)
  have size: "vf_size (snd s) = int (length (vfw_file s)) - int k" if "vfw_like k vf s" for s
    using that by (simp add: vfw_like_def vf_lag_def vfw_file_def)
  obtain s1 where s1: "write_pieces (vfw_Write now) (header_pieces (im_Header itm)) (rs, vf) = (None, s1)"
    "vfw_like k vf s1" "vfw_file s1 = vf_file vf @ bytes_of (header_bytes (im_Header itm))"
    using vfw.write_pieces_all [OF g0, of now "header_pieces (im_Header itm)"]
    by (auto simp: concat_header_pieces vfw_file_def)
  obtain s2 where s2: "vfw_Write now newLine s1 = (int (length newLine), None, s2)" "vfw_like k vf s2"
    "vfw_file s2 = vfw_file s1 @ newLine" by (rule vfw.writeE [OF s1(2)])
  have f2: "vfw_file s2 = vf_file vf @ record_head itm"
    using s1(3) s2(3) by (simp add: record_head_def newLine_def)
  obtain s3 where s3: "itemMem_WriteTo True (vfw_Write now) itm s2 = (itemMem_Len itm, None, s3)"
    "vfw_like k vf s3" "vfw_file s3 = vfw_file s2 @ im_content itm"
    using vfw.itemMem_WriteTo_all [OF s2(2) assms(3), of now] by blast
  obtain s4 where s4: "vfw_Write now endRecordMark s3 = (int (length endRecordMark), None, s4)"
    "vfw_like k vf s4" "vfw_file s4 = vfw_file s3 @ endRecordMark" by (rule vfw.writeE [OF s3(2)])
  obtain rs' vf' where e4: "s4 = (rs', vf')" by (cases s4)
  have off: "vf_Seek vf = int (length (vf_file vf)) - int k" using assms(2) by (simp add: vf_Seek_def vf_lag_def)
  have head: "vf_Seek (snd s2) - vf_Seek vf = int (length (record_head itm))"
    using size [OF s2(2)] f2 off by (simp add: vf_Seek_def)
  have body: "vf_Seek (snd s3) - vf_Seek vf - int (length (record_head itm)) = int (length (im_content itm))"
    using size [OF s3(2)] s3(3) f2 off by (simp add: vf_Seek_def)
  show thesis
  proof (rule that)
    show "vl_transform now True got a itm (rs, vf) = (Inr ((getItemDisk got)\<lparr>id_Key := im_Key itm,
        id_StatusCode := im_StatusCode itm, id_Off := int (length (vf_file vf)) - int k,
        id_HeadSize := int (length (record_head itm)), id_BodySize := int (length (im_content itm)),
        id_VFile := Some a, id_HIT := im_HIT itm\<rparr>), (rs', vf'))"
      using head body
      by (simp add: vl_transform_def Let_def s1(1) s2(1) s3(1) s4(1) e4 off)
    show "vf_file vf' = vf_file vf @ record_head itm @ im_content itm @ endRecordMark"
      using s4(3) s3(3) f2 e4 by (simp add: vfw_file_def)
    show "vf_lag k vf'" "vf_frame vf' = vf_frame vf" using s4(2) e4 by (simp_all add: vfw_like_def)
  qed (rule refl)
qed

lemmas vl_transform_ok = vl_transform_lag [where k = 0, unfolded vf_lag_0, simplified]

end
