(* ===== verification/Item_Disk_Props.thy ===== *)
theory Item_Disk_Props
  imports Item_Disk
begin

text \<open>
  The properties of items on disk: reads end and give the record, ranges are the ranges asked
  for, a file that is too short makes the read loop run forever, and a file is closed once,
  no earlier than its oldest record can expire.
\<close>

text \<open>A file with one record, for the witnesses.\<close>

definition demo_vfile :: vfile where
  "demo_vfile = \<lparr>vf_ttl = 60 * Second, vf_expireAt = 0, vf_no = 1, vf_w = True, vf_r = True,
     vf_size = 8, vf_autoExpire = 0, vf_file = [10, 11, 12, 20, 21, 22, 23, 99], vf_linked = True\<rparr>"

definition demo_itemDisk :: itemDisk where
  "demo_itemDisk = zero_itemDisk\<lparr>id_VFile := Some 7, id_Off := 1, id_HeadSize := 2, id_BodySize := 4\<rparr>"

lemma demo_ready: "id_ready (\<lambda>_. demo_vfile) demo_itemDisk"
  "id_body (\<lambda>_. demo_vfile) demo_itemDisk = [20, 21, 22, 23]" "itemDisk_Len demo_itemDisk = 4"
  by (simp_all add: id_ready_def id_body_def demo_itemDisk_def demo_vfile_def itemDisk_Len_def)

text \<open>
  Reading an item whose record lies in an open file always ends: it reports the whole
  length and no error, whatever the writer answers to the writes, and a writer that accepts
  every write receives exactly the body of the record.
\<close>

theorem itemDisk_read_ends:
  assumes "id_ready fs itd"
  shows "\<exists>w'. itemDisk_WriteTo fs wr itd w = Some (Some (itemDisk_Len itd, None, w')) \<and>
    (\<forall>contents good. sink wr contents good \<longrightarrow> good w \<longrightarrow> contents w' = contents w @ id_body fs itd)"
proof -
  from itemDisk_WriteTo_reads [OF assms, of wr w] obtain bs where
    bs: "itemDisk_WriteTo fs wr itd w = Some (Some (itemDisk_Len itd, None, writes_state wr bs w))"
      "concat bs = id_body fs itd" by blast
  then show ?thesis using sink.writes_state_contents by metis
qed

theorem itemDisk_read_ends_witness:
  "\<exists>w'. itemDisk_WriteTo (\<lambda>_. demo_vfile) buf_Write demo_itemDisk [1] = Some (Some (4, None, w')) \<and>
     w' = [1, 20, 21, 22, 23]"
proof -
  from itemDisk_read_ends [OF demo_ready(1), of buf_Write "[1]"] obtain w' where
    w': "itemDisk_WriteTo (\<lambda>_. demo_vfile) buf_Write demo_itemDisk [1] = Some (Some (4, None, w'))"
    and c: "\<And>contents good. sink buf_Write contents good \<Longrightarrow> good [1] \<Longrightarrow>
      contents w' = contents [1] @ id_body (\<lambda>_. demo_vfile) demo_itemDisk"
    unfolding demo_ready(3) by blast
  show ?thesis using w' c [OF buf.sink_axioms TrueI] by (simp add: demo_ready)
qed

text \<open>
  A range request inside the body of an item on disk: \<open>ValidRange\<close> announces a positive
  length, cut to the end of the body, and \<open>WriteToRange\<close> ends and writes exactly those bytes
  and not those of the records around it.
\<close>

theorem itemDisk_range_served:
  assumes "sink wr contents good" "good w" "id_ready fs itd" and "0 \<le> s" "s \<le> e" "s < itemDisk_Len itd"
  shows "\<exists>n w'. n = min (e + 1) (itemDisk_Len itd) - s \<and> 0 < n \<and>
    itemDisk_ValidRange itd s e = Inr (s, s + n, n) \<and>
    itemDisk_WriteToRange fs wr itd s (s + n) w = Some (Some (n, None, w')) \<and> good w' \<and>
    contents w' = contents w @ take (nat n) (drop (nat s) (id_body fs itd))"
proof -
  from cached_item.range_served [OF sink.disk_item [OF assms(1)] assms(3,2,4-6)]
  obtain t n w' where r: "itemDisk_ValidRange itd s e = Inr (s, t, n)"
    "n = min (e + 1) (itemDisk_Len itd) - s" "0 < n"
    "itemDisk_WriteToRange fs wr itd s t w = Some (Some (n, None, w'))" "good w'"
    "contents w' = contents w @ take (nat n) (drop (nat s) (id_body fs itd))" .
  have "itemDisk_Len itd < 2 ^ 63" using assms(3) by (rule id_readyE) (simp add: itemDisk_Len_def)
  then have "t = s + n"
    using r(1,2) valid_range_satisfiable [OF assms(4-6)] by (simp add: itemDisk_ValidRange_def)
  then show ?thesis using r by auto
qed

theorem itemDisk_range_served_witness:
  "\<exists>w'. itemDisk_ValidRange demo_itemDisk 1 2 = Inr (1, 3, 2) \<and>
     itemDisk_WriteToRange (\<lambda>_. demo_vfile) buf_Write demo_itemDisk 1 3 [] = Some (Some (2, None, w')) \<and>
     w' = [21, 22]"
  using itemDisk_range_served [OF buf.sink_axioms TrueI demo_ready(1), of 1 2 "[]"] demo_ready(2,3) by auto

text \<open>
  Reading an item whose file is shorter than its record never ends: once the file gives
  no more bytes, \<open>writeTo\<close> keeps reading and writing nothing.
\<close>

theorem itemDisk_truncated_never_returns:
  assumes "id_VFile itd = Some a" "vf_r (fs a)" "0 \<le> id_Off itd" "0 \<le> id_HeadSize itd"
    and "0 < id_BodySize itd"
    and "int (length (vf_file (fs a))) < id_Off itd + id_HeadSize itd + id_BodySize itd"
  shows "itemDisk_WriteTo fs wr itd w = None"
proof -
  have "disk_short (fs a) (id_Off itd + id_HeadSize itd) 0 0 (id_BodySize itd) 0 (id_BodySize itd)"
    using assms by (simp add: disk_short_def)
  then have "disk_loop wr (fs a) (id_Off itd + id_HeadSize itd) 0 0 (id_BodySize itd) 0
      (id_BodySize itd) w = None"
    using disk_loop_stuck by (metis not_None_eq)
  then show ?thesis using assms(1) by (simp add: itemDisk_WriteTo_def itemDisk_writeTo_def)
qed

theorem itemDisk_truncated_never_returns_witness:
  "itemDisk_WriteTo (\<lambda>_. demo_vfile\<lparr>vf_file := [10, 11, 12, 20]\<rparr>) buf_Write demo_itemDisk [] = None"
  by (rule itemDisk_truncated_never_returns [of demo_itemDisk 7])
    (simp_all add: demo_itemDisk_def demo_vfile_def)

section \<open>Closing a file\<close>

lemma round_half_even_nonneg: "0 \<le> x \<Longrightarrow> 0 \<le> round_half_even x"
  by (auto simp: round_half_even_def Let_def)

lemma f64_nonneg: "0 \<le> x \<Longrightarrow> 0 \<le> f64 x"
  by (simp add: f64_def Let_def round_half_even_nonneg)

lemma Seconds_nonneg: "0 \<le> d \<Longrightarrow> 0 \<le> Seconds d"
  by (auto simp: Seconds_def Second_def signed_divide_int_def signed_modulo_int_def sgn_if
      intro!: f64_nonneg add_nonneg_nonneg divide_nonneg_nonneg)

lemma vf_expire_delay_bounds:
  assumes "0 \<le> ttl"
  shows "ttl \<le> vf_expire_delay ttl" and "vf_expire_delay ttl \<le> ttl + Hour"
proof -
  have "0 \<le> f64 (Seconds ttl * (1 / 4))"
    by (intro f64_nonneg mult_nonneg_nonneg Seconds_nonneg assms) simp
  then have "0 \<le> f64_to_int (f64 (Seconds ttl * (1 / 4))) * Second"
    by (simp add: f64_to_int_def Second_def)
  then show "ttl \<le> vf_expire_delay ttl" "vf_expire_delay ttl \<le> ttl + Hour"
    by (auto simp: vf_expire_delay_def maxWaiting_def Let_def Hour_def Minute_def Second_def)
qed

fun vf_AutoExpires :: "nat \<Rightarrow> vfile \<Rightarrow> vfile \<times> int option list" where
  "vf_AutoExpires 0 vf = (vf, [])"
| "vf_AutoExpires (Suc n) vf =
     (case vf_AutoExpire vf of (vf1, d) \<Rightarrow>
        case vf_AutoExpires n vf1 of (vf2, ds) \<Rightarrow> (vf2, d # ds))"

lemma vf_AutoExpires_later:
  "0 < vf_autoExpire vf \<Longrightarrow>
     vf_AutoExpires n vf = (vf\<lparr>vf_autoExpire := vf_autoExpire vf + n\<rparr>, replicate n None)"
  by (induction n arbitrary: vf) (simp_all add: vf_AutoExpire_def Let_def)

text \<open>
  However often \<open>AutoExpire\<close> is called, exactly one goroutine is started to close the
  file, by the first call, which also closes the writer; its delay is at least the TTL, so
  that no record outlives its file, and at most an hour more. The reader stays open.
\<close>

theorem vf_AutoExpire_once:
  assumes "vf_autoExpire vf = 0" "0 \<le> vf_ttl vf"
  shows "case vf_AutoExpires (Suc n) vf of (vf', ds) \<Rightarrow>
    (\<exists>d. ds = Some d # replicate n None \<and> vf_ttl vf \<le> d \<and> d \<le> vf_ttl vf + Hour) \<and>
    \<not> vf_w vf' \<and> vf_r vf' = vf_r vf \<and> vf_file vf' = vf_file vf"
proof -
  let ?vf1 = "vf_CloseWriter (vf\<lparr>vf_autoExpire := 1\<rparr>)"
  have "vf_AutoExpire vf = (?vf1, Some (vf_expire_delay (vf_ttl vf)))"
    using assms(1) by (simp add: vf_AutoExpire_def Let_def)
  moreover have "vf_AutoExpires n ?vf1 = (?vf1\<lparr>vf_autoExpire := Suc n\<rparr>, replicate n None)"
    using vf_AutoExpires_later [of ?vf1 n] by (simp add: vf_CloseWriter_def)
  ultimately show ?thesis
    using vf_expire_delay_bounds [OF assms(2)] by (simp add: vf_CloseWriter_def)
qed

theorem vf_AutoExpire_once_witness:
  "case vf_AutoExpires (Suc 2) demo_vfile of (vf', ds) \<Rightarrow>
     (\<exists>d. ds = Some d # replicate 2 None \<and> 60 * Second \<le> d \<and> d \<le> 60 * Second + Hour) \<and>
     \<not> vf_w vf' \<and> vf_r vf' = True \<and> vf_file vf' = vf_file demo_vfile"
proof -
  have d: "vf_autoExpire demo_vfile = 0" "vf_ttl demo_vfile = 60 * Second" "vf_r demo_vfile = True"
    by (simp_all add: demo_vfile_def)
  moreover have "0 \<le> 60 * Second" by (simp add: Second_def)
  ultimately show ?thesis using vf_AutoExpire_once [of demo_vfile 2] by (simp only: d simp_thms)
qed

end
