(* ===== verification/Item_Mem_Props.thy ===== *)
theory Item_Mem_Props
  imports Item_Mem
begin

text \<open>
  The properties of items in memory: what is written is what is read, whole or by range, in
  the slice or in the temporary file; and an item that went through the pool carries nothing
  over.
\<close>

section \<open>A run of writes\<close>

text \<open>
  The writes of \<open>io.Copy\<close> into an item, up to the first error; each write comes with the
  outcomes of the operating system.
\<close>

type_synonym os_write = "bool \<times> wres \<times> wres"

fun itemMem_writes ::
  "(nat \<Rightarrow> nat \<Rightarrow> nat) \<Rightarrow> (os_write \<times> byte list) list \<Rightarrow> itemMem \<Rightarrow> lsm_error option \<times> itemMem" where
  "itemMem_writes grow [] itm = (None, itm)"
| "itemMem_writes grow (((tmp_ok, r1, r2), b) # ws) itm =
     (case itemMem_Write grow tmp_ok r1 r2 b itm of
        (n, err, itm') \<Rightarrow> if err \<noteq> None then (err, itm') else itemMem_writes grow ws itm')"

lemma itemMem_writes_content:
  assumes "im_ok itm" "itemMem_writes grow ws itm = (err, itm')"
  shows "im_ok itm' \<and> prefix (im_content itm') (im_content itm @ concat (map snd ws)) \<and>
    (err = None \<longrightarrow> im_content itm' = im_content itm @ concat (map snd ws))"
  using assms
proof (induction ws arbitrary: itm)
  case Nil
  then show ?case by simp
next
  case (Cons x ws)
  obtain tmp_ok r1 r2 b where x: "x = ((tmp_ok, r1, r2), b)" by (cases x) auto
  obtain n e itm1 where w: "itemMem_Write grow tmp_ok r1 r2 b itm = (n, e, itm1)"
    by (rule prod_cases3)
  note ok = itemMem_Write_ok [OF Cons.prems(1) w]
  show ?case
  proof (cases "e = None")
    case True
    with Cons.prems(2) x w have "itemMem_writes grow ws itm1 = (err, itm')" by simp
    note IH = Cons.IH [OF ok(1) this]
    have "im_content itm1 = im_content itm @ b" using ok(2) [OF True] by simp
    with IH x show ?thesis by simp
  next
    case False
    with Cons.prems(2) x w have "err = e" "itm' = itm1" by auto
    moreover have "prefix (im_content itm1) ((im_content itm @ b) @ concat (map snd ws))"
      by (rule prefix_prefix [OF ok(3)])
    ultimately show ?thesis using ok(1) False x by auto
  qed
qed

text \<open>
  C39. Writing a body into an item in chunks, with any outcomes of the operating system and
  through the move to a temporary file: if no write reported an error, then \<open>Len\<close>,
  \<open>Bytes\<close> and \<open>WriteTo\<close> give back exactly the chunks in order; after an error the item holds
  a prefix of them.
\<close>

theorem itemMem_write_then_read:
  assumes "sink wr contents good" "good w" and "im_ok itm" "im_content itm = []"
    and "itemMem_writes grow ws itm = (err, itm')"
  shows "(err = None \<longrightarrow>
      itemMem_Len itm' = int (length (concat (map snd ws))) \<and>
      itemMem_Bytes True itm' = Some (concat (map snd ws)) \<and>
      (\<exists>w'. itemMem_WriteTo True wr itm' w = (itemMem_Len itm', None, w') \<and> good w' \<and>
         contents w' = contents w @ concat (map snd ws))) \<and>
    prefix (im_content itm') (concat (map snd ws))"
proof -
  have c: "im_ok itm'" "prefix (im_content itm') (concat (map snd ws))"
    "err = None \<longrightarrow> im_content itm' = concat (map snd ws)"
    using itemMem_writes_content [OF assms(3,5)] assms(4) by simp_all
  have "itemMem_Bytes True itm' = Some (im_content itm')"
    by (simp add: itemMem_Bytes_def im_content_def split: option.splits)
  then show ?thesis
    using c itemMem_Len_content [OF c(1)] sink.itemMem_WriteTo_all [OF assms(1,2) c(1)] by auto
qed

theorem itemMem_write_then_read_witness:
  "itemMem_WriteTo True buf_Write
     (snd (itemMem_writes (\<lambda>_ n. 2 * n) [((False, W_ok, W_ok), [1, 2]), ((True, W_ok, W_ok), [3])]
       (new_itemMem 1))) [9] = (3, None, [9, 1, 2, 3])"
proof -
  let ?ws = "[((False, W_ok, W_ok), [1, 2]), ((True, W_ok, W_ok), [3])] :: (os_write \<times> byte list) list"
  obtain err itm where r: "itemMem_writes (\<lambda>_ n. 2 * n) ?ws (new_itemMem 1) = (err, itm)"
    by (rule prod.exhaust)
  have "err = None"
    using r by (auto simp: itemMem_Write_def new_itemMem_def itemMemLimitForTempFile_def
        gmake_def gappend_def gcap_def gbytes_def Let_def)
  then show ?thesis
    using itemMem_write_then_read [OF buf.sink_axioms TrueI im_ok_new r, of "[9]"] r by auto
qed

section \<open>Ranges\<close>

text \<open>
  A range request with the first byte inside the body and the last not before the first:
  \<open>ValidRange\<close> answers with the first byte, the end cut to the length, and a positive length,
  and \<open>WriteToRange\<close> writes exactly those bytes of the body, as many as announced, into any
  writer that accepts them, from the slice as from the temporary file.
\<close>

theorem itemMem_range_served:
  assumes "sink wr contents good" "good w" "im_ok itm" "length (im_content itm) < 2 ^ 63"
    and "0 \<le> s" "s \<le> e" "s < itemMem_Len itm"
  shows "\<exists>n w'. n = min (e + 1) (itemMem_Len itm) - s \<and> 0 < n \<and>
    itemMem_ValidRange itm s e = Inr (s, s + n, n) \<and>
    itemMem_WriteToRange True wr itm s (s + n) w = Some (n, None, w') \<and> good w' \<and>
    contents w' = contents w @ take (nat n) (drop (nat s) (im_content itm))"
proof -
  have "im_ready itm" using assms(3,4) by (simp add: im_ready_def)
  from cached_item.range_served [OF sink.mem_item [OF assms(1)] this assms(2,5-7)]
  obtain t n w' where r: "itemMem_ValidRange itm s e = Inr (s, t, n)"
    "n = min (e + 1) (itemMem_Len itm) - s" "0 < n"
    "Some (itemMem_WriteToRange True wr itm s t w) = Some (Some (n, None, w'))" "good w'"
    "contents w' = contents w @ take (nat n) (drop (nat s) (im_content itm))" .
  have "itemMem_Len itm < 2 ^ 63" using assms(3,4) by (simp add: itemMem_Len_content)
  then have "t = s + n"
    using r(1,2) valid_range_satisfiable [OF assms(5-7)] by (simp add: itemMem_ValidRange_def)
  then show ?thesis using r by auto
qed

theorem itemMem_range_served_witness:
  "\<exists>w'. itemMem_ValidRange ((new_itemMem 8)\<lparr>im_w := Some [1, 2, 3, 4]\<rparr>) 1 9 = Inr (1, 4, 3) \<and>
     itemMem_WriteToRange True buf_Write ((new_itemMem 8)\<lparr>im_w := Some [1, 2, 3, 4]\<rparr>) 1 4 []
       = Some (3, None, w') \<and> w' = [2, 3, 4]"
proof -
  let ?itm = "(new_itemMem 8)\<lparr>im_w := Some [1, 2, 3, 4]\<rparr>"
  have "im_ok ?itm" using im_ok_new(1) [of 8] by (simp add: im_ok_def)
  moreover have "itemMem_Len ?itm = 4" by (simp add: itemMem_Len_def)
  ultimately show ?thesis
    using itemMem_range_served [OF buf.sink_axioms TrueI, of ?itm 1 9 "[]"] by auto
qed

text \<open>
  A range request that starts behind the end of the body is not refused: \<open>ValidRange\<close>
  reports success with a negative length, and the write that follows fails with no byte
  written.
\<close>

theorem itemMem_range_past_end:
  assumes "im_ok itm" "0 < itemMem_Len itm" "itemMem_Len itm < s" "s \<le> e" "s < 2 ^ 63"
  shows "itemMem_ValidRange itm s e = Inr (s, itemMem_Len itm, itemMem_Len itm - s) \<and>
    itemMem_Len itm - s < 0 \<and>
    itemMem_WriteToRange open_ok wr itm s (itemMem_Len itm) w = Some (0, Some ErrWrongRange, w)"
  using valid_range_past_end [of "itemMem_Len itm" s e] assms
  by (simp add: itemMem_ValidRange_def itemMem_WriteToRange_def)

theorem itemMem_range_past_end_witness:
  "itemMem_ValidRange ((new_itemMem 8)\<lparr>im_w := Some [1, 2, 3, 4]\<rparr>) 100 200 = Inr (100, 4, - 96)"
proof -
  let ?itm = "(new_itemMem 8)\<lparr>im_w := Some [1, 2, 3, 4]\<rparr>"
  have "im_ok ?itm" using im_ok_new(1) [of 8] by (simp add: im_ok_def)
  moreover have "itemMem_Len ?itm = 4" by (simp add: itemMem_Len_def)
  ultimately show ?thesis using itemMem_range_past_end [of ?itm 100 200 True buf_Write "[]"] by simp
qed

section \<open>The pools\<close>

lemma calcIndex_in_range: "0 \<le> l \<Longrightarrow> 0 \<le> calcIndex l \<and> calcIndex l < itemMemPool_len"
  by (simp add: calcIndex_nonneg itemMemPool_len_def itemMemMaxSize_def itemMemMinSize_def)

lemma calcIndex_below: "0 \<le> l \<Longrightarrow> l < itemMemMaxSize \<Longrightarrow> calcIndex l = l div 1024"
  by (simp add: calcIndex_nonneg itemMemMaxSize_def)

text \<open>
  An item that is put back carries nothing over: no body, no temporary file, no header,
  key, status, hits or users, so that the next response written into it reads back as
  itself. Its buffer stays, and the pool it is put into exists and is the one of its
  capacity in KB, but for the capacities 1 KB and 5 MB, which go to pool 0; an item with a
  larger buffer is dropped.
\<close>

theorem putItemMem_clean:
  "case putItemMem itm of (itm', pool) \<Rightarrow>
     im_ok itm' \<and> im_content itm' = [] \<and> im_w itm' = None \<and> im_Header itm' = [] \<and>
     im_Key itm' = 0 \<and> im_StatusCode itm' = 0 \<and> im_HIT itm' = 0 \<and> im_inUse itm' = 0 \<and>
     gcap (im_Data itm') = gcap (im_Data itm) \<and>
     (case pool of
        None \<Rightarrow> itemMemMaxSize < int (gcap (im_Data itm))
      | Some i \<Rightarrow> 0 \<le> i \<and> i < itemMemPool_len \<and> int (gcap (im_Data itm)) \<le> itemMemMaxSize \<and>
          i = (if int (gcap (im_Data itm)) \<in> {1024, itemMemMaxSize} then 0
               else int (gcap (im_Data itm)) div 1024))"
proof -
  let ?l = "int (gcap (im_Data itm))"
  have *: "itemMemMinSize = 1024" "itemMemMaxSize = 5242880" "itemMemPool_len = 5120"
    by (simp_all add: itemMemMinSize_def itemMemMaxSize_def itemMemPool_len_def)
  have max: "calcIndex 5242880 = 0" by (simp add: calcIndex_nonneg)
  have small: "?l \<le> 1024 \<Longrightarrow> ?l \<noteq> 1024 \<Longrightarrow> ?l div 1024 = 0" by simp
  show ?thesis
    using calcIndex_in_range [of ?l] calcIndex_below [of ?l] max small
    by (auto simp: putItemMem_def Let_def itemMem_Close_def im_content_def im_ok_def *)
qed

lemma putItemMem_parts:
  assumes "putItemMem itm = (itm', pool)"
  shows "im_ok itm'" "im_content itm' = []" "im_Header itm' = []" "im_StatusCode itm' = 0"
    "im_Key itm' = 0" "im_inUse itm' = 0" "im_w itm' = None"
    and "int (gcap (im_Data itm)) \<le> itemMemMaxSize \<Longrightarrow> pool \<noteq> None"
proof -
  have e: "itm' = fst (putItemMem itm)" "pool = snd (putItemMem itm)" using assms by simp_all
  show "im_ok itm'" "im_content itm' = []" "im_Header itm' = []" "im_StatusCode itm' = 0"
    "im_Key itm' = 0" "im_inUse itm' = 0" "im_w itm' = None"
    unfolding e by (simp_all add: putItemMem_def Let_def itemMem_Close_def im_content_def im_ok_def)
  show "pool \<noteq> None" if "int (gcap (im_Data itm)) \<le> itemMemMaxSize"
    unfolding e using that by (simp add: putItemMem_def Let_def)
qed

text \<open>
  A request for a length of 5 MB or more asks pool 0, where the buffers of at most 1 KB are.
\<close>

lemma getItemLen_big_request:
  "itemMemMaxSize \<le> l \<Longrightarrow>
     getItemLen got l = Some (case got 0 of None \<Rightarrow> new_itemMem itemMemMaxSize | Some itm \<Rightarrow> itm)"
  by (cases "got 0") (auto simp: getItemLen_def calcIndex_nonneg itemMemMaxSize_def Let_def)

end
