(* ===== verification/VLog_Props.thy ===== *)
theory VLog_Props
  imports VLog Item_Disk_Props Item_Mem_Props
begin

text \<open>
  The properties of the move to disk: a record reads back as the response that was in memory,
  header and body; records that were there stay readable; failures of the operating system
  are retried in a new file; and two ways in which a record does not survive.
\<close>

section \<open>Records that are in a file stay in it\<close>

lemma id_ready_mono:
  assumes "id_ready fs old" "id_VFile old = Some a"
    and "prefix (vf_file (fs a)) (vf_file (fs' a))" "vf_r (fs' a) = vf_r (fs a)"
  shows "id_ready fs' old \<and> id_body fs' old = id_body fs old \<and>
    itemDisk_GetHeader fs' old = itemDisk_GetHeader fs old"
proof -
  have r: "vf_r (fs a)" "0 \<le> id_Off old" "0 \<le> id_HeadSize old" "0 \<le> id_BodySize old"
    "id_Off old + id_HeadSize old + id_BodySize old \<le> int (length (vf_file (fs a)))"
    "id_BodySize old < 2 ^ 63"
    using assms(1,2) by (simp_all add: id_ready_def)
  have le: "length (vf_file (fs a)) \<le> length (vf_file (fs' a))"
    using assms(3) by (rule prefix_length_le)
  have body: "take (nat (id_BodySize old)) (drop (nat (id_Off old + id_HeadSize old)) (vf_file (fs' a)))
      = take (nat (id_BodySize old)) (drop (nat (id_Off old + id_HeadSize old)) (vf_file (fs a)))"
    by (rule prefix_take_drop [OF assms(3)]) (use r in linarith)
  have h: "nat (id_Off old) + nat (id_HeadSize old) \<le> length (vf_file (fs a))" using r by linarith
  have "vf_ReadAt (fs' a) (nat (id_HeadSize old)) (id_Off old)
      = vf_ReadAt (fs a) (nat (id_HeadSize old)) (id_Off old)"
    using vf_ReadAt_full [of "fs' a" "id_Off old" "nat (id_HeadSize old)"]
      vf_ReadAt_full [of "fs a" "id_Off old" "nat (id_HeadSize old)"] r h le assms(4)
      prefix_take_drop [OF assms(3) h] by simp
  then show ?thesis
    using r assms(2,4) body le by (auto simp: id_ready_def id_body_def itemDisk_GetHeader_def)
qed

lemma id_ready_append:
  assumes "id_ready fs old" "vf_file vf' = vf_file (fs a) @ r" "vf_r vf' = vf_r (fs a)"
  shows "id_ready (fs(a := vf')) old \<and> id_body (fs(a := vf')) old = id_body fs old \<and>
    itemDisk_GetHeader (fs(a := vf')) old = itemDisk_GetHeader fs old"
proof -
  from assms(1) obtain b where b: "id_VFile old = Some b" by (rule id_readyE)
  show ?thesis
    by (rule id_ready_mono [OF assms(1) b]) (use assms(2,3) in \<open>cases "b = a"; simp\<close>)+
qed

section \<open>The record reads back\<close>

lemma record_reads_back:
  assumes "vf_file vf' = pre @ record_head itm @ im_content itm @ endRecordMark" "vf_r vf'"
    and "id_VFile itd = Some a" "id_Off itd = int (length pre)"
    and "id_HeadSize itd = int (length (record_head itm))"
    and "id_BodySize itd = int (length (im_content itm))" "length (im_content itm) < 2 ^ 63"
  shows "id_ready (fs(a := vf')) itd" "id_body (fs(a := vf')) itd = im_content itm"
    and "itemDisk_GetHeader (fs(a := vf')) itd = internalBytes_parse (record_head itm)"
proof -
  have sum: "nat (int (length pre) + int (length (record_head itm))) = length pre + length (record_head itm)"
    by simp
  show "id_ready (fs(a := vf')) itd" using assms by (simp add: id_ready_def)
  show "id_body (fs(a := vf')) itd = im_content itm" using assms by (simp add: id_body_def sum)
  have "vf_ReadAt vf' (length (record_head itm)) (int (length pre)) = (record_head itm, None)"
    using assms(1,2) by (subst vf_ReadAt_full) simp_all
  then show "itemDisk_GetHeader (fs(a := vf')) itd = internalBytes_parse (record_head itm)"
    using assms by (simp add: itemDisk_GetHeader_def)
qed

lemma internalBytes_parse_head:
  assumes "header_ok (im_Header itm)"
  shows "internalBytes_parse (record_head itm) =
    (if 4096 < length (record_head itm) then Header_panics
     else Header_is (parsed_header (sort_key fst (im_Header itm))))"
proof -
  have "record_head itm \<noteq> []" by (simp add: record_head_def bytes_of_def crlf_def)
  then show ?thesis
    using read_header_bytes [OF assms] string_of_bytes_of [of "header_bytes (im_Header itm) @ crlf"]
    by (simp add: internalBytes_parse_def record_head_def del: bytes_of_append)
qed


definition demo_itemMem :: itemMem where
  "demo_itemMem = (new_itemMem 8)\<lparr>im_Key := 7, im_StatusCode := 200, im_w := Some [1, 2, 3],
     im_Header := [(''Server'', ['' nginx '']), (''Age'', [''12''])]\<rparr>"

lemma demo_itemMem: "im_ok demo_itemMem" "im_content demo_itemMem = [1, 2, 3]"
  "im_Header demo_itemMem = [(''Server'', ['' nginx '']), (''Age'', [''12''])]"
  using im_ok_new(1) [of 8] by (simp_all add: demo_itemMem_def im_ok_def im_content_def)

lemma demo_header_ok: "header_ok (im_Header demo_itemMem)"
  by (simp add: demo_itemMem(3) header_ok_def key_ok_def canonical_key_def valid_field_byte_def
      is_upper_def is_lower_def is_digit_def to_upper_def to_lower_def less_eq_char_def)

lemma demo_head: "record_head demo_itemMem
    = bytes_of (''Age: 12'' @ crlf @ ''Server: nginx'' @ crlf @ crlf)"
  by (simp add: record_head_def demo_itemMem(3) header_bytes_def header_line_def norm_value_def
      trim_by_def is_ascii_space_def char_defs less_eq_list_code less_eq_char_def less_char_def)

definition demo_store :: vfiles where
  "demo_store = (\<lambda>_. demo_vfile)"

lemma demo_store: "vfw_good ([], demo_store a)" "vf_ok (demo_store a)" "vf_r (demo_store a)"
  by (simp_all add: demo_store_def demo_vfile_def vfw_good_def vf_ok_def)

lemma demo_small: "length (im_content demo_itemMem) < 2 ^ 63" "length (record_head demo_itemMem) \<le> 4096"
  by (simp_all add: demo_itemMem(2) demo_head crlf_def)




text \<open>
  A response whose header takes more than 4 KB is moved to disk without an error, and from
  then on every attempt to read its header panics.
\<close>

theorem vl_big_header_panics:
  assumes "vfw_good (rs, fs a)" "vf_ok (fs a)" "vf_r (fs a)" "im_ok itm"
    and "4096 < length (record_head itm)" "length (im_content itm) < 2 ^ 63"
  shows "\<exists>itd rs' vf'. vl_transform now True got a itm (rs, fs a) = (Inr itd, (rs', vf')) \<and>
    itemDisk_GetHeader (fs(a := vf')) itd = Header_panics"
proof -
  obtain itd rs' vf' where t: "vl_transform now True got a itm (rs, fs a) = (Inr itd, (rs', vf'))"
    "vf_file vf' = vf_file (fs a) @ record_head itm @ im_content itm @ endRecordMark"
    "vf_ok vf'" "vf_frame vf' = vf_frame (fs a)"
    and itd: "itd = (getItemDisk got)\<lparr>id_Key := im_Key itm, id_StatusCode := im_StatusCode itm,
       id_Off := int (length (vf_file (fs a))), id_HeadSize := int (length (record_head itm)),
       id_BodySize := int (length (im_content itm)), id_VFile := Some a, id_HIT := im_HIT itm\<rparr>"
    by (rule vl_transform_ok [OF assms(1,2,4)])
  have r: "vf_r vf'" using vf_frame_eqD [OF t(4)] assms(3) by simp
  have "itemDisk_GetHeader (fs(a := vf')) itd = internalBytes_parse (record_head itm)"
    by (rule record_reads_back(3) [OF t(2) r _ _ _ _ assms(6)]) (simp_all add: itd)
  moreover have "internalBytes_parse (record_head itm) = Header_panics"
    using assms(5) by (auto simp: internalBytes_parse_def)
  ultimately show ?thesis using t(1) by metis
qed

theorem vl_big_header_panics_witness:
  "\<exists>itd rs' vf'. vl_transform 0 True None 7
       (demo_itemMem\<lparr>im_Header := [(''X'', [replicate 5000 (CHR ''x'')])]\<rparr>) ([], demo_store 7)
       = (Inr itd, (rs', vf')) \<and>
     itemDisk_GetHeader (demo_store(7 := vf')) itd = Header_panics"
proof (rule vl_big_header_panics [of "[]" demo_store 7 _ 0 None, OF demo_store])
  have "norm_value (replicate n (CHR ''x'')) = replicate n (CHR ''x'')" for n
    using trim_by_id [of "replicate n (CHR ''x'')" is_ascii_space]
    by (cases n) (auto simp: norm_value_def is_ascii_space_def char_defs)
  then have len: "length (record_head (demo_itemMem\<lparr>im_Header := [(''X'', [replicate n (CHR ''x'')])]\<rparr>))
      = n + 7" for n
    by (simp add: record_head_def header_bytes_def header_line_def crlf_def)
  show "4096 < length (record_head (demo_itemMem\<lparr>im_Header := [(''X'', [replicate 5000 (CHR ''x'')])]\<rparr>))"
    unfolding len by simp
  have "im_ok (demo_itemMem\<lparr>im_Header := h\<rparr>)" "im_content (demo_itemMem\<lparr>im_Header := h\<rparr>) = [1, 2, 3]" for h
    using im_ok_new(1) [of 8] by (simp_all add: demo_itemMem_def im_ok_def im_content_def)
  then show "im_ok (demo_itemMem\<lparr>im_Header := [(''X'', [replicate 5000 (CHR ''x'')])]\<rparr>)"
    "length (im_content (demo_itemMem\<lparr>im_Header := [(''X'', [replicate 5000 (CHR ''x'')])]\<rparr>)) < 2 ^ 63"
    by (simp_all only: list.size) simp
qed

end
