(* ===== verification/VLog_Reader.thy ===== *)
theory VLog_Reader
  imports VLog_Props
begin

text \<open>
  The reader of a channel as a whole: with failing writes and new files, and what a write that
  fails halfway does to the records that follow.
\<close>

section \<open>The invariant of the files\<close>

definition fl_ok :: "addr \<Rightarrow> files \<Rightarrow> bool" where
  "fl_ok w st \<longleftrightarrow> w < fl_next st \<and> vf_w (fl_fs st w) \<and> vf_r (fl_fs st w) \<and> vf_ok (fl_fs st w) \<and>
     vf_autoExpire (fl_fs st w) = 0"

text \<open>Files that exist are only appended to, and not closed.\<close>

definition fl_extends :: "files \<Rightarrow> files \<Rightarrow> bool" where
  "fl_extends st st' \<longleftrightarrow> fl_next st \<le> fl_next st' \<and>
     (\<forall>a<fl_next st. prefix (vf_file (fl_fs st a)) (vf_file (fl_fs st' a)) \<and>
        vf_r (fl_fs st' a) = vf_r (fl_fs st a))"

lemma fl_extends_refl: "fl_extends st st"
  by (simp add: fl_extends_def)

lemma fl_extends_trans: "fl_extends st1 st2 \<Longrightarrow> fl_extends st2 st3 \<Longrightarrow> fl_extends st1 st3"
  by (auto simp: fl_extends_def intro: prefix_order.trans)

lemma fl_extends_ready:
  assumes "fl_extends st st'" "id_ready (fl_fs st) old" "id_VFile old = Some a" "a < fl_next st"
  shows "id_ready (fl_fs st') old \<and> id_body (fl_fs st') old = id_body (fl_fs st) old \<and>
    itemDisk_GetHeader (fl_fs st') old = itemDisk_GetHeader (fl_fs st) old"
  by (rule id_ready_mono [OF assms(2,3)]) (use assms(1,4) in \<open>auto simp: fl_extends_def\<close>)

lemma fl_extends_update:
  assumes "prefix (vf_file (fl_fs st w)) (vf_file vf)" "vf_r vf = vf_r (fl_fs st w)"
  shows "fl_extends st (st\<lparr>fl_fs := (fl_fs st)(w := vf)\<rparr>)"
  using assms by (simp add: fl_extends_def)

lemma vl_rotate_ok:
  obtains w' st' where "vl_rotate (True, True) now ttl w st = Some (w', st')"
    "fl_ok w' st'" "w' = fl_next st" "vf_file (fl_fs st' w') = []" "fl_extends st st'"
proof -
  obtain vf1 d where ae: "vf_AutoExpire (fl_fs st w) = (vf1, d)" by (rule prod.exhaust)
  have vf1: "vf_file vf1 = vf_file (fl_fs st w)" "vf_r vf1 = vf_r (fl_fs st w)"
    using ae by (auto simp: vf_AutoExpire_def vf_CloseWriter_def Let_def split: if_splits)
  obtain st1 where r: "vl_rotate (True, True) now ttl w st = Some (fl_next st, st1)"
    "fl_next st1 = fl_next st + 1"
    "fl_fs st1 = (fl_fs st)(w := vf1, fl_next st := fst (the (VFileNew True True now ttl (fl_no st))))"
    by (simp add: vl_rotate_def fl_new_def fl_AutoExpire_def ae VFileNew_def)
  show thesis
    by (rule that [OF r(1) _ refl])
      (use r(2,3) vf1 in \<open>auto simp: fl_ok_def fl_extends_def VFileNew_def vf_ok_def\<close>)
qed

section \<open>Failures and retries\<close>

definition try_fails :: "try_env \<Rightarrow> bool" where
  "try_fails e \<longleftrightarrow> te_file e = (True, True) \<and> (\<exists>k rs. te_writes e = W_fail k # rs)"

definition try_good :: "try_env \<Rightarrow> bool" where
  "try_good e \<longleftrightarrow> te_open e \<and> (\<forall>r\<in>set (te_writes e). r = W_ok)"

lemma vl_transform_fails:
  assumes "try_fails e" "header_pieces (im_Header itm) \<noteq> []" "vf_w vf"
  obtains vf' s where "vl_transform now (te_open e) (te_got e) a itm (te_writes e, vf) = (Inl ErrOS, (s, vf'))"
    "prefix (vf_file vf) (vf_file vf')" "vf_r vf' = vf_r vf"
proof -
  obtain k rs where e: "te_writes e = W_fail k # rs" using assms(1) by (auto simp: try_fails_def)
  obtain p ps where p: "header_pieces (im_Header itm) = p # ps" using assms(2) by (cases "header_pieces (im_Header itm)") auto
  have "vf_Write now (W_fail k) p vf = (int (min k (length p)), Some ErrOS,
      vf\<lparr>vf_expireAt := now + vf_ttl vf + 5 * Second, vf_file := vf_file vf @ take k p\<rparr>)"
    using assms(3) by (simp add: vf_Write_def file_Write_def Let_def)
  then have w: "write_pieces (vfw_Write now) (header_pieces (im_Header itm)) (te_writes e, vf)
      = (Some ErrOS, (rs, vf\<lparr>vf_expireAt := now + vf_ttl vf + 5 * Second, vf_file := vf_file vf @ take k p\<rparr>))"
    by (simp add: p e vfw_Write_def)
  let ?vf = "vf\<lparr>vf_expireAt := now + vf_ttl vf + 5 * Second, vf_file := vf_file vf @ take k p\<rparr>"
  have "vl_transform now (te_open e) (te_got e) a itm (te_writes e, vf) = (Inl ErrOS, (rs, ?vf))"
    by (simp add: vl_transform_def w Let_def)
  then show thesis by (rule that) simp_all
qed

lemma vl_tries_good:
  assumes "try_good e" "fl_ok w st" "im_ok itm" "length (im_content itm) < 2 ^ 63"
  obtains itd st' where "vl_tries (e # es) now ttl itm w st = Some (Some itd, w, st')"
    "fl_ok w st'" "fl_extends st st'" "id_ready (fl_fs st') itd" "id_body (fl_fs st') itd = im_content itm"
    "id_VFile itd = Some w" "id_Key itd = im_Key itm" "id_StatusCode itd = im_StatusCode itm"
proof -
  have g: "vfw_good (te_writes e, fl_fs st w)" "vf_ok (fl_fs st w)" "vf_r (fl_fs st w)"
    using assms(1,2) by (auto simp: try_good_def fl_ok_def vfw_good_def)
  obtain itd rs' vf' where t:
    "vl_transform now True (te_got e) w itm (te_writes e, fl_fs st w) = (Inr itd, (rs', vf'))"
    "vf_file vf' = vf_file (fl_fs st w) @ record_head itm @ im_content itm @ endRecordMark"
    "vf_ok vf'" "vf_frame vf' = vf_frame (fl_fs st w)"
    and itd: "itd = (getItemDisk (te_got e))\<lparr>id_Key := im_Key itm, id_StatusCode := im_StatusCode itm,
       id_Off := int (length (vf_file (fl_fs st w))), id_HeadSize := int (length (record_head itm)),
       id_BodySize := int (length (im_content itm)), id_VFile := Some w, id_HIT := im_HIT itm\<rparr>"
    by (rule vl_transform_ok [OF g(1,2) assms(3)])
  note fr = vf_frame_eqD [OF t(4)]
  let ?st = "st\<lparr>fl_fs := (fl_fs st)(w := vf')\<rparr>"
  have rb: "id_ready (fl_fs ?st) itd" "id_body (fl_fs ?st) itd = im_content itm"
    using record_reads_back(1,2) [OF t(2), of itd w "fl_fs st"] fr g(3) assms(4) itd by simp_all
  have "vl_tries (e # es) now ttl itm w st = Some (Some itd, w, ?st)"
    using t(1) assms(1) by (simp add: try_good_def Let_def)
  moreover have "fl_ok w ?st" using assms(2) t(3) fr by (simp add: fl_ok_def)
  moreover have "fl_extends st ?st" by (rule fl_extends_update) (use t(2) fr in simp_all)
  moreover have "id_VFile itd = Some w" "id_Key itd = im_Key itm" "id_StatusCode itd = im_StatusCode itm"
    by (simp_all add: itd)
  ultimately show thesis using rb that by blast
qed

lemma vl_tries_fail_step:
  assumes "try_fails e" "header_pieces (im_Header itm) \<noteq> []" "fl_ok w st"
  obtains w' st' where "vl_tries (e # es) now ttl itm w st = vl_tries es now ttl itm w' st'"
    "fl_ok w' st'" "fl_extends st st'" "vf_file (fl_fs st' w') = []"
proof -
  have w: "vf_w (fl_fs st w)" using assms(3) by (simp add: fl_ok_def)
  obtain vf' s where t: "vl_transform now (te_open e) (te_got e) w itm (te_writes e, fl_fs st w)
      = (Inl ErrOS, (s, vf'))"
    "prefix (vf_file (fl_fs st w)) (vf_file vf')" "vf_r vf' = vf_r (fl_fs st w)"
    by (rule vl_transform_fails [OF assms(1,2) w])
  let ?st = "st\<lparr>fl_fs := (fl_fs st)(w := vf')\<rparr>"
  have f: "te_file e = (True, True)" using assms(1) by (simp add: try_fails_def)
  obtain w' st' where r: "vl_rotate (True, True) now ttl w ?st = Some (w', st')" "fl_ok w' st'"
    "vf_file (fl_fs st' w') = []" "fl_extends ?st st'"
    using vl_rotate_ok by metis
  show thesis
    by (rule that [OF _ r(2) fl_extends_trans [OF fl_extends_update [OF t(2,3)] r(4)] r(3)])
      (simp add: t(1) Let_def f r(1))
qed

lemma vl_tries_retry:
  assumes "\<forall>e\<in>set fails. try_fails e" "try_good e"
    and "fails \<noteq> [] \<Longrightarrow> header_pieces (im_Header itm) \<noteq> []"
    and "fl_ok w st" "im_ok itm" "length (im_content itm) < 2 ^ 63"
  shows "\<exists>itd w' st'. vl_tries (fails @ e # es) now ttl itm w st = Some (Some itd, w', st') \<and>
    fl_ok w' st' \<and> fl_extends st st' \<and> id_ready (fl_fs st') itd \<and> id_body (fl_fs st') itd = im_content itm \<and>
    id_VFile itd = Some w' \<and> id_Key itd = im_Key itm \<and> id_StatusCode itd = im_StatusCode itm"
  using assms(1,3,4)
proof (induction fails arbitrary: w st)
  case Nil
  obtain itd st' where "vl_tries (e # es) now ttl itm w st = Some (Some itd, w, st')"
    "fl_ok w st'" "fl_extends st st'" "id_ready (fl_fs st') itd" "id_body (fl_fs st') itd = im_content itm"
    "id_VFile itd = Some w" "id_Key itd = im_Key itm" "id_StatusCode itd = im_StatusCode itm"
    by (rule vl_tries_good [OF assms(2) Nil(3) assms(5,6)])
  then show ?case by auto
next
  case (Cons f fails)
  have f: "try_fails f" "\<forall>e\<in>set fails. try_fails e" using Cons.prems(1) by simp_all
  have pieces: "header_pieces (im_Header itm) \<noteq> []" using Cons.prems(2) by simp
  obtain w1 st1 where s: "vl_tries (f # fails @ e # es) now ttl itm w st
      = vl_tries (fails @ e # es) now ttl itm w1 st1" "fl_ok w1 st1" "fl_extends st st1"
    by (rule vl_tries_fail_step [OF f(1) pieces Cons.prems(3)])
  obtain itd w' st' where "vl_tries (fails @ e # es) now ttl itm w1 st1 = Some (Some itd, w', st')"
    "fl_ok w' st'" "fl_extends st1 st'" "id_ready (fl_fs st') itd" "id_body (fl_fs st') itd = im_content itm"
    "id_VFile itd = Some w'" "id_Key itd = im_Key itm" "id_StatusCode itd = im_StatusCode itm"
    using Cons.IH [OF f(2) pieces s(2)] by blast
  then show ?case using s(1) fl_extends_trans [OF s(3)] by auto
qed

lemma vl_tries_give_up:
  assumes "\<forall>e\<in>set fails. try_fails e" "header_pieces (im_Header itm) \<noteq> []" "fl_ok w st"
  shows "\<exists>w' st'. vl_tries fails now ttl itm w st = Some (None, w', st') \<and> fl_ok w' st' \<and>
    fl_extends st st' \<and> (fails \<noteq> [] \<longrightarrow> vf_file (fl_fs st' w') = [])"
  using assms(1,3)
proof (induction fails arbitrary: w st)
  case Nil
  then show ?case using fl_extends_refl by simp
next
  case (Cons f fails)
  have f: "try_fails f" "\<forall>e\<in>set fails. try_fails e" using Cons.prems(1) by simp_all
  obtain w1 st1 where s: "vl_tries (f # fails) now ttl itm w st = vl_tries fails now ttl itm w1 st1"
    "fl_ok w1 st1" "fl_extends st st1" "vf_file (fl_fs st1 w1) = []"
    by (rule vl_tries_fail_step [OF f(1) assms(2) Cons.prems(2)])
  obtain w' st' where r: "vl_tries fails now ttl itm w1 st1 = Some (None, w', st')" "fl_ok w' st'"
    "fl_extends st1 st'" "fails \<noteq> [] \<longrightarrow> vf_file (fl_fs st' w') = []"
    using Cons.IH [OF f(2) s(2)] by blast
  have "vf_file (fl_fs st' w') = []"
  proof (cases fails)
    case Nil
    then show ?thesis using r(1) s(4) by simp
  next
    case (Cons g gs)
    then show ?thesis using r(4) by simp
  qed
  then show ?case using s(1) r(1,2) fl_extends_trans [OF s(3) r(3)] by auto
qed

section \<open>Properties of the reader\<close>

lemma vl_start:
  assumes "fl_ok w st"
  obtains w1 st1 where
    "(if vf_Expired now (fl_fs st w) then vl_rotate (True, True) now ttl w st else Some (w, st))
      = Some (w1, st1)" "fl_ok w1 st1" "fl_extends st st1"
proof (cases "vf_Expired now (fl_fs st w)")
  case True
  obtain w' st' where "vl_rotate (True, True) now ttl w st = Some (w', st')" "fl_ok w' st'"
    "fl_extends st st'" by (rule vl_rotate_ok)
  then show thesis using True by (intro that) simp_all
next
  case False
  then show thesis using assms fl_extends_refl by (intro that) simp_all
qed

lemma vl_end:
  assumes "fl_ok w st"
  obtains w' st' where
    "(if vf_Seek (fl_fs st w) > defaultMaxFileSize
      then (case vl_rotate (True, True) now ttl w st of
              None \<Rightarrow> None | Some (w3, st3) \<Rightarrow> Some (r, w3, st3))
      else Some (r, w, st)) = Some (r, w', st')" "fl_ok w' st'" "fl_extends st st'"
proof (cases "vf_Seek (fl_fs st w) > defaultMaxFileSize")
  case True
  obtain w' st' where "vl_rotate (True, True) now ttl w st = Some (w', st')" "fl_ok w' st'"
    "fl_extends st st'" by (rule vl_rotate_ok)
  then show thesis using True by (intro that) simp_all
next
  case False
  then show thesis using assms fl_extends_refl by (intro that) simp_all
qed

lemma vl_reader_turn_good:
  assumes "fl_ok w st" "im_ok itm" "length (im_content itm) < 2 ^ 63"
    and "fails \<noteq> [] \<Longrightarrow> header_pieces (im_Header itm) \<noteq> []"
    and "[e1, e2, e3] = fails @ e # es" "\<forall>f\<in>set fails. try_fails f" "try_good e"
  shows "\<exists>itd w' st'. vl_reader_turn (e1, e2, e3) (True, True) (True, True) now ttl itm w st
      = Some (Some itd, w', st') \<and> fl_ok w' st' \<and>
    id_ready (fl_fs st') itd \<and> id_body (fl_fs st') itd = im_content itm \<and>
    id_Key itd = im_Key itm \<and> id_StatusCode itd = im_StatusCode itm \<and>
    (\<forall>old a. id_ready (fl_fs st) old \<and> id_VFile old = Some a \<and> a < fl_next st \<longrightarrow>
       id_ready (fl_fs st') old \<and> id_body (fl_fs st') old = id_body (fl_fs st) old)"
proof -
  obtain w1 st1 where s1: "(if vf_Expired now (fl_fs st w) then vl_rotate (True, True) now ttl w st
      else Some (w, st)) = Some (w1, st1)" "fl_ok w1 st1" "fl_extends st st1"
    by (rule vl_start [OF assms(1)])
  obtain itd w2 st2 where s2: "vl_tries [e1, e2, e3] now ttl itm w1 st1 = Some (Some itd, w2, st2)"
    "fl_ok w2 st2" "fl_extends st1 st2" "id_ready (fl_fs st2) itd" "id_body (fl_fs st2) itd = im_content itm"
    "id_VFile itd = Some w2" "id_Key itd = im_Key itm" "id_StatusCode itd = im_StatusCode itm"
    using vl_tries_retry [OF assms(6,7) _ s1(2) assms(2,3)] assms(4) unfolding assms(5) by blast
  obtain w3 st3 where s3: "(if vf_Seek (fl_fs st2 w2) > defaultMaxFileSize
      then (case vl_rotate (True, True) now ttl w2 st2 of
              None \<Rightarrow> None | Some (w3, st3) \<Rightarrow> Some (Some itd, w3, st3))
      else Some (Some itd, w2, st2)) = Some (Some itd, w3, st3)" "fl_ok w3 st3" "fl_extends st2 st3"
    by (rule vl_end [OF s2(2)])
  have turn: "vl_reader_turn (e1, e2, e3) (True, True) (True, True) now ttl itm w st
      = Some (Some itd, w3, st3)"
    by (simp only: vl_reader_turn_def s1(1) option.case prod.case fst_conv snd_conv s2(1) s3(1))
  have "w2 < fl_next st2" using s2(2) by (simp add: fl_ok_def)
  then have itd: "id_ready (fl_fs st3) itd" "id_body (fl_fs st3) itd = im_content itm"
    using fl_extends_ready [OF s3(3) s2(4,6)] s2(5) by simp_all
  have ext: "fl_extends st st3"
    by (rule fl_extends_trans [OF fl_extends_trans [OF s1(3) s2(3)] s3(3)])
  have old: "id_ready (fl_fs st3) old \<and> id_body (fl_fs st3) old = id_body (fl_fs st) old"
    if "id_ready (fl_fs st) old \<and> id_VFile old = Some a \<and> a < fl_next st" for old a
    using fl_extends_ready [OF ext, of old a] that by simp
  show ?thesis using turn s3(2) itd s2(7,8) old by blast
qed

text \<open>
  Two failures are survived: when up to two tries to write a record fail at their first
  write and the next try succeeds, the turn of the reader hands over an item on disk whose
  body is the body in memory; files are changed for new ones where needed, the current file
  is open, and every record of the older files reads as before.
\<close>

theorem vl_reader_retries:
  assumes "fl_ok w st" "im_ok itm" "length (im_content itm) < 2 ^ 63"
    and "header_pieces (im_Header itm) \<noteq> []"
    and "[e1, e2, e3] = fails @ e # es" "\<forall>f\<in>set fails. try_fails f" "try_good e"
  shows "\<exists>itd w' st'. vl_reader_turn (e1, e2, e3) (True, True) (True, True) now ttl itm w st
      = Some (Some itd, w', st') \<and> fl_ok w' st' \<and>
    id_ready (fl_fs st') itd \<and> id_body (fl_fs st') itd = im_content itm \<and>
    (\<forall>old a. id_ready (fl_fs st) old \<and> id_VFile old = Some a \<and> a < fl_next st \<longrightarrow>
       id_ready (fl_fs st') old \<and> id_body (fl_fs st') old = id_body (fl_fs st) old)"
  using vl_reader_turn_good [OF assms] by blast

definition demo_files :: files where
  "demo_files = \<lparr>fl_fs = demo_store, fl_next = 8, fl_no = 1, fl_closing = []\<rparr>"

definition demo_try :: "wres list \<Rightarrow> try_env" where
  "demo_try rs = \<lparr>te_writes = rs, te_open = True, te_got = None, te_file = (True, True)\<rparr>"

lemma demo_files: "fl_ok 7 demo_files"
  by (simp add: fl_ok_def demo_files_def demo_store_def demo_vfile_def vf_ok_def)

lemma demo_try: "try_good (demo_try [])" "try_fails (demo_try [W_fail k])"
  by (simp_all add: demo_try_def try_good_def try_fails_def)

lemma demo_pieces: "header_pieces (im_Header demo_itemMem) \<noteq> []"
  using concat_header_pieces [of "im_Header demo_itemMem"] demo_head
  by (auto simp: record_head_def bytes_of_def crlf_def)

theorem vl_reader_retries_witness:
  "\<exists>itd w' st'. vl_reader_turn (demo_try [W_fail 3], demo_try [W_fail 0], demo_try [])
       (True, True) (True, True) 0 (60 * Second) demo_itemMem 7 demo_files = Some (Some itd, w', st') \<and>
     id_body (fl_fs st') itd = [1, 2, 3]"
  using vl_reader_retries [OF demo_files demo_itemMem(1) demo_small(1) demo_pieces,
      of "demo_try [W_fail 3]" "demo_try [W_fail 0]" "demo_try []"
        "[demo_try [W_fail 3], demo_try [W_fail 0]]" "demo_try []" "[]" 0 "60 * Second"]
    demo_try demo_itemMem(2) by auto

text \<open>
  When all three tries fail, the turn gives the response up without a panic: nothing is
  handed over, so the response stays in memory only, and the reader goes on with a new, empty
  file.
\<close>

theorem vl_reader_gives_up:
  assumes "fl_ok w st" "header_pieces (im_Header itm) \<noteq> []"
    and "try_fails e1" "try_fails e2" "try_fails e3"
  shows "\<exists>w' st'. vl_reader_turn (e1, e2, e3) (True, True) (True, True) now ttl itm w st
      = Some (None, w', st') \<and> fl_ok w' st' \<and> vf_file (fl_fs st' w') = [] \<and>
    (\<forall>old a. id_ready (fl_fs st) old \<and> id_VFile old = Some a \<and> a < fl_next st \<longrightarrow>
       id_ready (fl_fs st') old \<and> id_body (fl_fs st') old = id_body (fl_fs st) old)"
proof -
  obtain w1 st1 where s1: "(if vf_Expired now (fl_fs st w) then vl_rotate (True, True) now ttl w st
      else Some (w, st)) = Some (w1, st1)" "fl_ok w1 st1" "fl_extends st st1"
    by (rule vl_start [OF assms(1)])
  obtain w2 st2 where s2: "vl_tries [e1, e2, e3] now ttl itm w1 st1 = Some (None, w2, st2)"
    "fl_ok w2 st2" "fl_extends st1 st2" "vf_file (fl_fs st2 w2) = []"
    using vl_tries_give_up [of "[e1, e2, e3]" itm w1 st1 now ttl] assms(2-5) s1(2) by auto
  have "vf_Seek (fl_fs st2 w2) = 0" using s2(2,4) by (simp add: fl_ok_def vf_ok_def vf_Seek_def)
  then have turn: "vl_reader_turn (e1, e2, e3) (True, True) (True, True) now ttl itm w st
      = Some (None, w2, st2)"
    by (simp add: vl_reader_turn_def s1(1) s2(1) defaultMaxFileSize_def del: vl_tries.simps)
  have ext: "fl_extends st st2" by (rule fl_extends_trans [OF s1(3) s2(3)])
  have old: "id_ready (fl_fs st2) old \<and> id_body (fl_fs st2) old = id_body (fl_fs st) old"
    if "id_ready (fl_fs st) old \<and> id_VFile old = Some a \<and> a < fl_next st" for old a
    using fl_extends_ready [OF ext, of old a] that by simp
  show ?thesis using turn s2(2,4) old by blast
qed

theorem vl_reader_gives_up_witness:
  "\<exists>w' st'. vl_reader_turn (demo_try [W_fail 3], demo_try [W_fail 0], demo_try [W_fail 1])
       (True, True) (True, True) 0 (60 * Second) demo_itemMem 7 demo_files = Some (None, w', st') \<and>
     vf_file (fl_fs st' w') = []"
  using vl_reader_gives_up [OF demo_files demo_pieces demo_try(2) demo_try(2) demo_try(2)] by blast

text \<open>
  A failure is not always noticed. When the write of an end mark stops after \<open>k\<close> bytes,
  the bytes are in the file but are not counted, and the next record, all of whose writes
  succeed, is read back \<open>k\<close> bytes too early: its body starts with the last \<open>k\<close> bytes of its
  header and lacks its own last \<open>k\<close> bytes.
\<close>

theorem vl_torn_mark_shifts_next:
  assumes "vf_ok vf0" "vf_w vf0" "vf_r vf0" "\<forall>r\<in>set rs. r = W_ok"
    and "vfw_Write now endRecordMark (W_fail k # rs, vf0) = (n, err, (rs, fs a))"
    and "k \<le> 16" "k \<le> length (im_content itm)" "k \<le> length (record_head itm)" "im_ok itm"
  shows "\<exists>itd rs' vf'. vl_transform now True got a itm (rs, fs a) = (Inr itd, (rs', vf')) \<and>
    id_body (fs(a := vf')) itd
      = drop (length (record_head itm) - k) (record_head itm)
        @ take (length (im_content itm) - k) (im_content itm)"
proof -
  have m: "length endRecordMark = 16" by (simp add: endRecordMark_def)
  have fs: "vf_file (fs a) = vf_file vf0 @ take k endRecordMark" "vf_size (fs a) = vf_size vf0"
    "vf_w (fs a)" "vf_r (fs a)"
  proof -
    have "snd (snd (snd (vfw_Write now endRecordMark (W_fail k # rs, vf0))))
        = vf0\<lparr>vf_expireAt := now + vf_ttl vf0 + 5 * Second, vf_file := vf_file vf0 @ take k endRecordMark\<rparr>"
      using assms(2) by (simp add: vfw_Write_def vf_Write_def file_Write_def Let_def)
    then have "fs a = vf0\<lparr>vf_expireAt := now + vf_ttl vf0 + 5 * Second,
        vf_file := vf_file vf0 @ take k endRecordMark\<rparr>" using assms(5) by simp
    then show "vf_file (fs a) = vf_file vf0 @ take k endRecordMark" "vf_size (fs a) = vf_size vf0"
      "vf_w (fs a)" "vf_r (fs a)" using assms(2,3) by simp_all
  qed
  have lag: "vf_lag k (fs a)" using fs assms(1,6) m by (simp add: vf_lag_def vf_ok_def)
  have good: "vfw_good (rs, fs a)" using assms(4) fs(3) by (simp add: vfw_good_def)
  let ?h = "record_head itm" and ?c = "im_content itm" and ?p = "vf_file (fs a)"
  obtain itd rs' vf' where t: "vl_transform now True got a itm (rs, fs a) = (Inr itd, (rs', vf'))"
    "vf_file vf' = ?p @ ?h @ ?c @ endRecordMark"
    and itd: "itd = (getItemDisk got)\<lparr>id_Key := im_Key itm, id_StatusCode := im_StatusCode itm,
       id_Off := int (length ?p) - int k, id_HeadSize := int (length ?h),
       id_BodySize := int (length ?c), id_VFile := Some a, id_HIT := im_HIT itm\<rparr>"
    by (rule vl_transform_lag [OF good lag assms(9)])
  have off: "nat (int (length ?p) - int k + int (length ?h)) = length ?p + (length ?h - k)"
    using assms(8) by simp
  have "take (length ?c) (drop (length ?h - k) (?h @ ?c @ endRecordMark))
      = drop (length ?h - k) ?h @ take (length ?c - k) ?c"
    using assms(7,8) by (simp add: take_drop min_def)
  then have "id_body (fs(a := vf')) itd = drop (length ?h - k) ?h @ take (length ?c - k) ?c"
    by (simp add: id_body_def itd t(2) off)
  then show ?thesis using t(1) by blast
qed

theorem vl_torn_mark_shifts_next_witness:
  "\<exists>vf itd rs' vf'. vfw_Write 0 endRecordMark ([W_fail 2], demo_store 7) = (2, Some ErrOS, ([], vf)) \<and>
     vl_transform 0 True None 7 demo_itemMem ([], vf) = (Inr itd, (rs', vf')) \<and>
     id_body ((\<lambda>_. vf)(7 := vf')) itd = [13, 10, 1]"
proof -
  obtain vf where vf: "vfw_Write 0 endRecordMark ([W_fail 2], demo_store 7) = (2, Some ErrOS, ([], vf))"
    by (simp add: vfw_Write_def vf_Write_def file_Write_def demo_store_def demo_vfile_def Let_def
        endRecordMark_def)
  have w: "vf_w (demo_store 7)" by (simp add: demo_store_def demo_vfile_def)
  have h: "length (record_head demo_itemMem) = 26"
    "drop 24 (record_head demo_itemMem) = [13, 10]"
    by (simp_all add: demo_head crlf_def bytes_of_def char_defs)
  have "\<exists>itd rs' vf'. vl_transform 0 True None 7 demo_itemMem ([], (\<lambda>_. vf) 7) = (Inr itd, (rs', vf')) \<and>
      id_body ((\<lambda>_. vf)(7 := vf')) itd
        = drop (length (record_head demo_itemMem) - 2) (record_head demo_itemMem)
          @ take (length (im_content demo_itemMem) - 2) (im_content demo_itemMem)"
    by (rule vl_torn_mark_shifts_next [of "demo_store 7" "[]" 0 2 2 "Some ErrOS" "\<lambda>_. vf" 7])
      (use vf w demo_store demo_itemMem h in simp_all)
  then have "\<exists>itd rs' vf'. vl_transform 0 True None 7 demo_itemMem ([], vf) = (Inr itd, (rs', vf')) \<and>
      id_body ((\<lambda>_. vf)(7 := vf')) itd = [13, 10, 1]"
    by (simp add: h demo_itemMem(2))
  with vf show ?thesis by blast
qed

section \<open>How long a file stays\<close>

text \<open>
  No file is closed under its records: after the reader has turned away from a file at
  time \<open>t0\<close>, waking up the closing goroutines before \<open>t0\<close> plus the TTL leaves its reader
  open, and at \<open>t0\<close> plus the TTL plus one hour the file has been closed and removed.
\<close>

theorem vl_file_lifetime:
  assumes "fl_ok w st" "\<forall>(b, t)\<in>set (fl_closing st). b \<noteq> w" "vf_ttl (fl_fs st w) = ttl" "0 \<le> ttl"
    and "vl_rotate (True, True) t0 ttl w st = Some (w', st')"
  shows "(t < t0 + ttl \<longrightarrow> vf_r (fl_fs (fl_wake t st') w)) \<and>
    (t0 + ttl + Hour \<le> t \<longrightarrow> \<not> vf_r (fl_fs (fl_wake t st') w) \<and> \<not> vf_linked (fl_fs (fl_wake t st') w))"
proof -
  have w: "w < fl_next st" "vf_r (fl_fs st w)" "vf_autoExpire (fl_fs st w) = 0"
    using assms(1) by (simp_all add: fl_ok_def)
  let ?d = "vf_expire_delay ttl"
  have d: "ttl \<le> ?d" "?d \<le> ttl + Hour" by (rule vf_expire_delay_bounds [OF assms(4)])+
  have cl: "fl_closing st' = (w, t0 + ?d) # fl_closing st" and r: "vf_r (fl_fs st' w)"
    using assms(3,5) w
    by (auto simp: vl_rotate_def fl_new_def fl_AutoExpire_def VFileNew_def vf_AutoExpire_def
        vf_CloseWriter_def Let_def)
  have due: "w \<in> fst ` set (filter (\<lambda>(a, t'). t' \<le> t) (fl_closing st')) \<longleftrightarrow> t0 + ?d \<le> t"
    using assms(2) by (force simp: cl)
  show ?thesis
    using r d unfolding fl_wake_def Let_def
    by (auto simp: due vf_Close_def vf_CloseReader_def vf_CloseWriter_def simp del: set_filter)
qed

theorem vl_file_lifetime_witness:
  "\<exists>w' st'. vl_rotate (True, True) 5 (60 * Second) 7 demo_files = Some (w', st') \<and>
     vf_r (fl_fs (fl_wake 0 st') 7)"
proof -
  obtain w' st' where r: "vl_rotate (True, True) 5 (60 * Second) 7 demo_files = Some (w', st')"
    by (rule vl_rotate_ok)
  have "vf_ttl (fl_fs demo_files 7) = 60 * Second"
    by (simp add: demo_files_def demo_store_def demo_vfile_def)
  then show ?thesis
    using vl_file_lifetime [OF demo_files _ _ _ r, of 0] r
    by (simp add: demo_files_def Second_def)
qed

end
