(* ===== verification/LSM.thy ===== *)
theory LSM
  imports KVSM_Store VLog_Reader
begin

text \<open>
  \<open>lsm/lsm.go\<close>: the cache. It keeps the responses in the in-memory store of \<open>kvsm\<close>, whose
  values are pointers to items, and hands those with a long TTL to the readers of \<open>vlog\<close>, which
  swap the item on disk in for the item in memory. What the store evicts goes back to the pools
  once nobody uses it.

  The items live in heaps, together with the pools and the channel for evictions to retry;
  this is the state that the store's eviction callback works on.
\<close>

datatype item_ref = VMem addr | VDisk addr

record items_env =
  ie_mem :: "addr \<Rightarrow> itemMem"
  ie_disk :: "addr \<Rightarrow> itemDisk"
  ie_memPool :: "(int \<times> addr) list"
  ie_diskPool :: "addr list"
  ie_retryCh :: "item_ref list"

definition retryEvictionSize :: nat where "retryEvictionSize = 1024"

section \<open>Eviction\<close>

text \<open>
  \<open>onEvictInternal\<close> recycles an item that is not in use; one that is in use is queued to be
  tried again, or forgotten when the queue is full. It returns the number of users.
\<close>

definition lsm_retry_later :: "item_ref \<Rightarrow> items_env \<Rightarrow> items_env" where
  "lsm_retry_later x e =
     (if length (ie_retryCh e) < retryEvictionSize then e\<lparr>ie_retryCh := ie_retryCh e @ [x]\<rparr> else e)"

definition onEvictInternal :: "item_ref option \<Rightarrow> items_env \<Rightarrow> int \<times> items_env" where
  "onEvictInternal x e =
     (case x of
        None \<Rightarrow> (0, e)
      | Some (VMem a) \<Rightarrow>
          let n = im_inUse (ie_mem e a) in
          if n = 0 then
            (case putItemMem (ie_mem e a) of
               (itm, pool) \<Rightarrow> (n, e\<lparr>ie_mem := (ie_mem e)(a := itm),
                 ie_memPool := (case pool of None \<Rightarrow> [] | Some i \<Rightarrow> [(i, a)]) @ ie_memPool e\<rparr>))
          else (n, lsm_retry_later (VMem a) e)
      | Some (VDisk a) \<Rightarrow>
          let n = id_inUse (ie_disk e a) in
          if n = 0 then
            (n, e\<lparr>ie_disk := (ie_disk e)(a := putItemDisk (ie_disk e a)), ie_diskPool := a # ie_diskPool e\<rparr>)
          else (n, lsm_retry_later (VDisk a) e))"

definition lsm_onEvict :: "item_ref option \<Rightarrow> items_env \<Rightarrow> items_env" where
  "lsm_onEvict x e = snd (onEvictInternal x e)"

section \<open>The cache\<close>

text \<open>
  Next to the store: the channels of \<open>vlog\<close> with the items that wait in them, by TTL in whole
  seconds, and for each the reader's TTL and its current file, once it has made it; the files;
  and the smallest TTL for a response to be moved to disk.
\<close>

record lsm =
  ls_MinLSMTTL :: duration
  ls_mem :: "(item_ref, items_env) kvsm"
  ls_ttlCh :: "(int \<times> addr list) list"
  ls_reader :: "(int \<times> (duration \<times> addr option)) list"
  ls_files :: files

definition lsm_New :: "duration \<Rightarrow> (addr \<Rightarrow> itemMem) \<Rightarrow> vfiles \<Rightarrow> lsm" where
  "lsm_New minTTL mems fs =
     \<lparr>ls_MinLSMTTL = minTTL,
      ls_mem = kv_SetOnEvicted lsm_onEvict (kv_New
        \<lparr>ie_mem = mems, ie_disk = (\<lambda>_. zero_itemDisk), ie_memPool = [], ie_diskPool = [], ie_retryCh = []\<rparr>),
      ls_ttlCh = [], ls_reader = [],
      ls_files = \<lparr>fl_fs = fs, fl_next = 0, fl_no = 0, fl_closing = []\<rparr>\<rparr>"

definition lsm_Reload :: "duration \<Rightarrow> lsm \<Rightarrow> lsm" where
  "lsm_Reload minTTL s = s\<lparr>ls_MinLSMTTL := minTTL\<rparr>"

text \<open>
  \<open>VLog.Set\<close>: the channel of the TTL, made with its reader when there is none. A full channel
  blocks the caller: \<open>None\<close>.
\<close>

definition vlog_Set :: "addr \<Rightarrow> duration \<Rightarrow> lsm \<Rightarrow> lsm option" where
  "vlog_Set itm ttl s =
     (let ttlInt = f64_to_int (Seconds ttl) in
      case map_of (ls_ttlCh s) ttlInt of
        Some ch \<Rightarrow>
          if length ch < defaultTransformBuffer
          then Some (s\<lparr>ls_ttlCh := AList.update ttlInt (ch @ [itm]) (ls_ttlCh s)\<rparr>)
          else None
      | None \<Rightarrow>
          Some (s\<lparr>ls_ttlCh := AList.update ttlInt [itm] (ls_ttlCh s),
            ls_reader := AList.update ttlInt (ttl, None) (ls_reader s)\<rparr>))"

text \<open>\<open>NewItem\<close>: the item at \<open>a\<close>, which is one of the pool that is asked, or new.\<close>

definition lsm_NewItem :: "addr \<Rightarrow> int \<Rightarrow> lsm \<Rightarrow> lsm go" where
  "lsm_NewItem a l s =
     (let e = env (ls_mem s);
          i = calcIndex (if l > itemMemMaxSize then itemMemMaxSize else l) in
      case getItemLen (\<lambda>j. if (j, a) \<in> set (ie_memPool e) then Some (ie_mem e a) else None) l of
        None \<Rightarrow> None
      | Some itm \<Rightarrow>
          Some (s\<lparr>ls_mem := (ls_mem s)\<lparr>env := e\<lparr>ie_mem := (ie_mem e)(a := itm),
            ie_memPool := remove1 (i, a) (ie_memPool e)\<rparr>\<rparr>\<rparr>))"

definition lsm_item :: "addr \<Rightarrow> lsm \<Rightarrow> itemMem" where
  "lsm_item a s = ie_mem (env (ls_mem s)) a"

definition lsm_put_item :: "addr \<Rightarrow> itemMem \<Rightarrow> lsm \<Rightarrow> lsm" where
  "lsm_put_item a itm s =
     s\<lparr>ls_mem := (ls_mem s)\<lparr>env := (env (ls_mem s))\<lparr>ie_mem := (ie_mem (env (ls_mem s)))(a := itm)\<rparr>\<rparr>\<rparr>"

text \<open>\<open>Set\<close> stores under the key of the item, whatever \<open>key\<close> says; then it may block.\<close>

definition lsm_mem_Set :: "time \<Rightarrow> addr \<Rightarrow> addr \<Rightarrow> duration \<Rightarrow> lsm \<Rightarrow> lsm" where
  "lsm_mem_Set now cell itm ttl s =
     s\<lparr>ls_mem := kv_Set now cell (im_Key (ie_mem (env (ls_mem s)) itm)) (Some (VMem itm)) ttl (ls_mem s)\<rparr>"

definition lsm_Set ::
  "time \<Rightarrow> addr \<Rightarrow> u64 \<Rightarrow> addr \<Rightarrow> duration \<Rightarrow> lsm \<Rightarrow> lsm option" where
  "lsm_Set now cell key itm ttl s =
     (let s1 = lsm_mem_Set now cell itm ttl s in
      if ttl > ls_MinLSMTTL s then vlog_Set itm ttl s1 else Some s1)"

text \<open>
  \<open>Get\<close> is two steps: the lookup in the store, and the marking of the item as in use; another
  goroutine can come between them. The result has the item and what the store says about its
  expiry.
\<close>

definition lsm_lookup :: "time \<Rightarrow> u64 \<Rightarrow> lsm \<Rightarrow> (item_ref \<times> bool) option go" where
  "lsm_lookup now key s =
     (case kv_Get now key (ls_mem s) of
        None \<Rightarrow> None
      | Some (x, expired, ok) \<Rightarrow>
          Some (if ok then (case x of None \<Rightarrow> None | Some r \<Rightarrow> Some (r, expired)) else None))"

definition env_pin :: "item_ref \<Rightarrow> items_env \<Rightarrow> items_env" where
  "env_pin r e =
     (case r of
        VMem a \<Rightarrow> e\<lparr>ie_mem := (ie_mem e)(a := (ie_mem e a)\<lparr>im_inUse := im_inUse (ie_mem e a) + 1,
          im_HIT := im_HIT (ie_mem e a) + 1\<rparr>)\<rparr>
      | VDisk a \<Rightarrow> e\<lparr>ie_disk := (ie_disk e)(a := (ie_disk e a)\<lparr>id_inUse := id_inUse (ie_disk e a) + 1,
          id_HIT := id_HIT (ie_disk e a) + 1\<rparr>)\<rparr>)"

definition lsm_pin :: "item_ref \<Rightarrow> lsm \<Rightarrow> lsm" where
  "lsm_pin r s = s\<lparr>ls_mem := (ls_mem s)\<lparr>env := env_pin r (env (ls_mem s))\<rparr>\<rparr>"

definition lsm_Get :: "time \<Rightarrow> u64 \<Rightarrow> lsm \<Rightarrow> ((lsm_error + item_ref \<times> bool) \<times> lsm) go" where
  "lsm_Get now key s =
     (case lsm_lookup now key s of
        None \<Rightarrow> None
      | Some None \<Rightarrow> Some (Inl ErrItemNotFound, s)
      | Some (Some (r, expired)) \<Rightarrow> Some (Inr (r, expired), lsm_pin r s))"

definition env_Done :: "item_ref \<Rightarrow> items_env \<Rightarrow> items_env" where
  "env_Done r e =
     (case r of
        VMem a \<Rightarrow> e\<lparr>ie_mem := (ie_mem e)(a := itemMem_Done (ie_mem e a))\<rparr>
      | VDisk a \<Rightarrow> e\<lparr>ie_disk := (ie_disk e)(a := itemDisk_Done (ie_disk e a))\<rparr>)"

definition lsm_Done :: "item_ref \<Rightarrow> lsm \<Rightarrow> lsm" where
  "lsm_Done r s = s\<lparr>ls_mem := (ls_mem s)\<lparr>env := env_Done r (env (ls_mem s))\<rparr>\<rparr>"

definition lsm_Delete :: "u64 \<Rightarrow> lsm \<Rightarrow> lsm" where
  "lsm_Delete key s = s\<lparr>ls_mem := kv_RemoveByKey key (ls_mem s)\<rparr>"

text \<open>One turn of \<open>retryEviction\<close>; the time it then sleeps is the number of users in seconds.\<close>

definition lsm_retryEviction :: "lsm \<Rightarrow> lsm \<times> int" where
  "lsm_retryEviction s =
     (case ie_retryCh (env (ls_mem s)) of
        [] \<Rightarrow> (s, 0)
      | x # xs \<Rightarrow>
          (case onEvictInternal (Some x) ((env (ls_mem s))\<lparr>ie_retryCh := xs\<rparr>) of
             (n, e) \<Rightarrow> (s\<lparr>ls_mem := (ls_mem s)\<lparr>env := e\<rparr>\<rparr>, if n > 0 then n else 0)))"

text \<open>
  One turn of the reader of \<open>ttlInt\<close>: the first makes its file, the others take an item from
  the channel and move it to disk; \<open>afterWrite\<close> swaps the item on disk, at the address \<open>d\<close> that
  the pool gave and that has left it, into the store.
\<close>

definition env_take_disk :: "addr \<Rightarrow> items_env \<Rightarrow> items_env" where
  "env_take_disk d e = e\<lparr>ie_diskPool := remove1 d (ie_diskPool e)\<rparr>"

definition lsm_reader_start :: "bool \<times> bool \<Rightarrow> time \<Rightarrow> int \<Rightarrow> lsm \<Rightarrow> lsm go" where
  "lsm_reader_start e now ttlInt s =
     (case map_of (ls_reader s) ttlInt of
        Some (ttl, None) \<Rightarrow>
          (case fl_new (fst e) (snd e) now ttl (ls_files s) of
             None \<Rightarrow> None
           | Some (w, st) \<Rightarrow>
               Some (s\<lparr>ls_files := st, ls_reader := AList.update ttlInt (ttl, Some w) (ls_reader s)\<rparr>))
      | _ \<Rightarrow> Some s)"

definition lsm_afterWrite ::
  "time \<Rightarrow> addr \<Rightarrow> addr \<Rightarrow> itemDisk \<Rightarrow> duration \<Rightarrow> (item_ref, items_env) kvsm
     \<Rightarrow> (item_ref, items_env) kvsm go" where
  "lsm_afterWrite now cell d itd ttl m =
     (let m1 = m\<lparr>env := (env m)\<lparr>ie_disk := (ie_disk (env m))(d := itd)\<rparr>\<rparr> in
      case kv_Swap now cell (id_Key itd) (Some (VDisk d)) ttl m1 of
        None \<Rightarrow> None
      | Some (_, m2) \<Rightarrow> Some m2)"

definition lsm_reader_turn ::
  "try_env \<times> try_env \<times> try_env \<Rightarrow> bool \<times> bool \<Rightarrow> bool \<times> bool \<Rightarrow> time \<Rightarrow> addr \<Rightarrow> addr \<Rightarrow> int \<Rightarrow> lsm
     \<Rightarrow> lsm go" where
  "lsm_reader_turn es e0 e4 now cell d ttlInt s =
     (case (map_of (ls_reader s) ttlInt, map_of (ls_ttlCh s) ttlInt) of
        (Some (ttl, Some w), Some (itm # rest)) \<Rightarrow>
          (case vl_reader_turn es e0 e4 now ttl (ie_mem (env (ls_mem s)) itm) w (ls_files s) of
             None \<Rightarrow> None
           | Some (r, w', st) \<Rightarrow>
               let s1 = s\<lparr>ls_files := st, ls_ttlCh := AList.update ttlInt rest (ls_ttlCh s),
                     ls_reader := AList.update ttlInt (ttl, Some w') (ls_reader s)\<rparr> in
               case r of
                 None \<Rightarrow> Some s1
               | Some itd \<Rightarrow>
                   (case lsm_afterWrite now cell d itd ttl
                           ((ls_mem s1)\<lparr>env := env_take_disk d (env (ls_mem s1))\<rparr>) of
                      None \<Rightarrow> None
                    | Some m \<Rightarrow> Some (s1\<lparr>ls_mem := m\<rparr>)))
      | _ \<Rightarrow> Some s)"

end
