(* ===== verification/LSM_Props.thy ===== *)
theory LSM_Props
  imports LSM
begin

text \<open>
  The properties of the cache as a whole: what a lookup returns after a response was stored and
  after it was moved to disk; items in use are never recycled by the store; and two places
  where the parts do not fit together.
\<close>

section \<open>What the store does to the items\<close>

text \<open>
  The store touches its environment only through the callback, so what the callback keeps,
  every step of the store keeps.
\<close>

definition kv_env :: "(item_ref option \<Rightarrow> 'x \<Rightarrow> 'x) \<Rightarrow> ('x \<Rightarrow> bool) \<Rightarrow> (item_ref, 'x) kvsm \<Rightarrow> bool" where
  "kv_env f P s \<longleftrightarrow> onEvicted s = Some f \<and> P (env s)"

lemma kv_env_frame:
  "kv_env f P s \<Longrightarrow> onEvicted s' = onEvicted s \<Longrightarrow> env s' = env s \<Longrightarrow> kv_env f P s'"
  by (simp add: kv_env_def)

lemma kv_env_callback:
  assumes "\<And>v e. P e \<Longrightarrow> P (f v e)" "kv_env f P s"
  shows "kv_env f P (kv_callback v s)"
  using assms by (simp add: kv_env_def kv_callback_def)

lemma kv_env_Remove:
  assumes "\<And>v e. P e \<Longrightarrow> P (f v e)" "kv_env f P s" "kv_Remove a s = Some s'"
  shows "kv_env f P s'"
proof -
  have "onEvicted s' = Some f \<and> P (env s')"
    using assms(2,3) assms(1)
    by (auto simp: kv_env_def kv_Remove_def kv_eviction_def kv_callback_def putEntry_def
        split: option.splits if_splits)
  then show ?thesis by (simp add: kv_env_def)
qed

lemma kv_env_sweep:
  assumes "\<And>v e. P e \<Longrightarrow> P (f v e)"
  shows "kv_env f P s \<Longrightarrow> kv_sweep now tkd s e = Some s' \<Longrightarrow> kv_env f P s'"
proof (induction now tkd s e rule: kv_sweep.induct)
  case (1 now tkd s e)
  show ?case
  proof (cases "map_of (listTTL s) tkd")
    case None
    then show ?thesis using 1(3) by (simp add: kv_sweep.simps)
  next
    case (Some el)
    show ?thesis
    proof (cases "ll_Next (heap s) el e")
      case None
      then show ?thesis using 1(2,3) Some by (simp add: kv_sweep.simps)
    next
      case nx: (Some a)
      show ?thesis
      proof (cases "entry_GetValue (heap s a)")
        case None
        then show ?thesis using 1(3) Some nx by (simp add: kv_sweep.simps)
      next
        case gv: (Some p)
        show ?thesis
        proof (cases "p = None \<or> entry_Expired now (heap s a)")
          case False
          then have "s' = s" using 1(3) Some nx gv by (simp add: kv_sweep.simps split: if_splits)
          then show ?thesis using 1(2) by simp
        next
          case dead: True
          then obtain h el' s1 where r: "ll_Remove (heap s) el a = Some (h, el')"
            "kv_Remove a (s\<lparr>heap := h, listTTL := AList.update tkd el' (listTTL s)\<rparr>) = Some s1"
            "kv_sweep now tkd s1 (Some a) = Some s'"
            using 1(3) Some nx gv
            by (subst (asm) kv_sweep.simps) (simp split: option.splits prod.splits)
          have "kv_env f P (s\<lparr>heap := h, listTTL := AList.update tkd el' (listTTL s)\<rparr>)"
            by (rule kv_env_frame [OF 1(2)]) simp_all
          from kv_env_Remove [OF assms this r(2)] have s1: "kv_env f P s1" .
          show ?thesis
            using 1(1) [OF Some nx gv dead r(1) refl r(2) s1 r(3)] .
        qed
      qed
    qed
  qed
qed

lemma kv_env_scan:
  assumes "\<And>v e. P e \<Longrightarrow> P (f v e)"
  shows "kv_env f P s \<Longrightarrow> kv_scan clk ks s = Some s' \<Longrightarrow> kv_env f P s'"
proof (induction ks arbitrary: s)
  case Nil
  then show ?case by simp
next
  case (Cons k ks)
  show ?case
  proof (cases "map_of (listTTL s) (f64_to_int k * Second)")
    case None
    then show ?thesis using Cons by (simp add: Let_def)
  next
    case (Some el)
    show ?thesis
    proof (cases "ll_Len el = 0")
      case True
      then show ?thesis using Cons Some by (simp add: Let_def)
    next
      case False
      then obtain s1 where s1: "kv_sweep (clk (length ks)) (f64_to_int k * Second) s None = Some s1"
        "kv_scan clk ks s1 = Some s'"
        using Cons.prems(2) Some by (auto simp: Let_def split: option.splits)
      have "kv_env f P s1" by (rule kv_env_sweep [OF assms Cons.prems(1) s1(1)])
      from Cons.IH [OF this s1(2)] show ?thesis .
    qed
  qed
qed

lemma kv_env_step:
  assumes "\<And>v e. P e \<Longrightarrow> P (f v e)" "kv_env f P s" "kv_step s s'"
  shows "kv_env f P s'"
  using assms(3)
proof (cases rule: kv_step.cases)
  case (step_Set a now k v ttl)
  show ?thesis unfolding step_Set(1)
    by (rule kv_env_frame [OF assms(2)]) (simp_all add: kv_Set_def Let_def)
next
  case (step_Swap k a now v ttl b)
  show ?thesis
  proof (cases "items s k")
    case None
    then have "s' = kv_Set now a k v ttl s" using step_Swap(2) by (simp add: kv_Swap_def)
    then show ?thesis by (intro kv_env_frame [OF assms(2)]) (simp_all add: kv_Set_def Let_def)
  next
    case (Some c)
    then obtain old e where "s' = kv_callback old (s\<lparr>heap := (heap s)(c := e)\<rparr>)"
      using step_Swap(2) by (auto simp: kv_Swap_def split: option.splits)
    moreover have "kv_env f P (s\<lparr>heap := (heap s)(c := e)\<rparr>)"
      by (rule kv_env_frame [OF assms(2)]) simp_all
    ultimately show ?thesis using kv_env_callback [of P f, OF assms(1)] by blast
  qed
next
  case (step_RemoveByKey k)
  show ?thesis unfolding step_RemoveByKey
    by (rule kv_env_frame [OF assms(2)]) (simp_all add: kv_RemoveByKey_def split: option.splits)
next
  case step_recv
  show ?thesis
    by (rule kv_env_frame [OF assms(2)])
      (use step_recv in \<open>auto simp: kv_recv_def Let_def split: list.splits option.splits prod.splits\<close>)
next
  case (step_tick clk)
  then show ?thesis using kv_env_scan [OF assms(1) assms(2)] by (simp add: kv_tick_def)
qed

section \<open>Items in use\<close>

definition item_users :: "item_ref \<Rightarrow> items_env \<Rightarrow> int" where
  "item_users r e = (case r of VMem a \<Rightarrow> im_inUse (ie_mem e a) | VDisk a \<Rightarrow> id_inUse (ie_disk e a))"

definition same_item :: "item_ref \<Rightarrow> items_env \<Rightarrow> items_env \<Rightarrow> bool" where
  "same_item r e e' = (case r of VMem a \<Rightarrow> ie_mem e' a = ie_mem e a | VDisk a \<Rightarrow> ie_disk e' a = ie_disk e a)"

lemma onEvict_other:
  assumes "item_users r e \<noteq> 0"
  shows "same_item r e (lsm_onEvict x e)"
  using assms
  by (cases r; cases x)
    (auto simp: same_item_def item_users_def lsm_onEvict_def onEvictInternal_def lsm_retry_later_def
      Let_def split: item_ref.splits prod.splits)

lemma same_item_users: "same_item r e e' \<Longrightarrow> item_users r e' = item_users r e"
  by (auto simp: same_item_def item_users_def split: item_ref.splits)

lemma same_item_trans: "same_item r e1 e2 \<Longrightarrow> same_item r e2 e3 \<Longrightarrow> same_item r e1 e3"
  by (auto simp: same_item_def split: item_ref.splits)

text \<open>
  C7. An item that a client holds is not touched by the store: through any number of steps of
  clients and worker (stores, swaps, deletions, expiry), and through the retries of its own
  eviction, an item in use keeps its body, header and count of users.
\<close>

theorem lsm_item_in_use_kept:
  assumes "onEvicted s = Some lsm_onEvict" "item_users r (env s) \<noteq> 0" "kv_step\<^sup>*\<^sup>* s s'"
  shows "same_item r (env s) (env s') \<and>
    same_item r (env s) (snd (onEvictInternal (Some r) (env s')))"
proof -
  let ?P = "\<lambda>e. same_item r (env s) e \<and> item_users r e \<noteq> 0"
  have keep: "?P (lsm_onEvict v e)" if "?P e" for v e
    using that onEvict_other [of r e v] same_item_trans [of r "env s" e] same_item_users [of r e] by auto
  have start: "kv_env lsm_onEvict ?P s"
    using assms(1,2) by (simp add: kv_env_def same_item_def split: item_ref.splits)
  from assms(3) have "kv_env lsm_onEvict ?P s'"
  proof (induction rule: rtranclp_induct)
    case base
    show ?case by (rule start)
  next
    case (step y z)
    show ?case by (rule kv_env_step [of ?P lsm_onEvict, OF keep step(3) step(2)])
  qed
  then have P: "?P (env s')" by (simp add: kv_env_def)
  with keep [OF P, of "Some r"] show ?thesis by (simp add: lsm_onEvict_def)
qed

definition demo_env :: items_env where
  "demo_env = \<lparr>ie_mem = (\<lambda>_. demo_itemMem\<lparr>im_inUse := 1\<rparr>), ie_disk = (\<lambda>_. zero_itemDisk),
     ie_memPool = [], ie_diskPool = [], ie_retryCh = []\<rparr>"

definition demo_mem :: "(item_ref, items_env) kvsm" where
  "demo_mem = kv_Set 0 0 7 (Some (VMem 5)) (60 * Second) (kv_SetOnEvicted lsm_onEvict (kv_New demo_env))"

lemma demo_mem: "onEvicted demo_mem = Some lsm_onEvict" "env demo_mem = demo_env" "kv_inv demo_mem"
  "kv_Get now 7 demo_mem = Some (Some (VMem 5), 60 * Second < now, True)"
proof -
  show "onEvicted demo_mem = Some lsm_onEvict" "env demo_mem = demo_env"
    by (simp_all add: demo_mem_def kv_Set_def kv_SetOnEvicted_def kv_New_def Let_def)
  show "kv_inv demo_mem" unfolding demo_mem_def
  proof (rule kv.ok_set)
    show "kv_inv (kv_SetOnEvicted lsm_onEvict (kv_New demo_env))"
      by (simp add: kv_inv_SetOnEvicted kv_inv_New)
  qed (simp add: entryPool_Get_def kv_SetOnEvicted_def kv_New_def)
  show "kv_Get now 7 demo_mem = Some (Some (VMem 5), 60 * Second < now, True)"
    unfolding demo_mem_def using kv.get_set [of now 7 0 0] by simp
qed

theorem lsm_item_in_use_kept_witness:
  "\<exists>b s'. kv_Swap 0 1 7 (Some (VDisk 3)) 0 demo_mem = Some (b, s') \<and>
     same_item (VMem 5) demo_env (env s') \<and> im_content (ie_mem demo_env 5) = [1, 2, 3]"
proof -
  obtain b s' where sw: "kv_Swap 0 1 7 (Some (VDisk 3)) 0 demo_mem = Some (b, s')"
    using kv.swap_hit [OF demo_mem(3,4)] by blast
  have "items demo_mem 7 \<noteq> None" by (simp add: demo_mem_def kv_Set_def Let_def)
  then have "kv_step demo_mem s'" by (intro kv_step.step_Swap [OF _ sw]) simp
  then have "kv_step\<^sup>*\<^sup>* demo_mem s'" by (rule r_into_rtranclp)
  moreover have "item_users (VMem 5) (env demo_mem) \<noteq> 0"
    by (simp add: item_users_def demo_mem(2) demo_env_def)
  ultimately have "same_item (VMem 5) (env demo_mem) (env s')"
    using lsm_item_in_use_kept [OF demo_mem(1)] by blast
  moreover have "im_content (ie_mem demo_env 5) = [1, 2, 3]"
    by (simp add: demo_env_def im_content_def demo_itemMem_def)
  ultimately show ?thesis using sw demo_mem(2) by auto
qed

section \<open>From memory to disk\<close>

lemma kv_inv_env: "kv_inv (s\<lparr>env := e\<rparr>) = kv_inv s"
  by (simp add: kv_inv_def kv_live_def kv_items_ok_def kv_cells_ok_def)

lemma kv_Get_env: "kv_Get now k (s\<lparr>env := e\<rparr>) = kv_Get now k s"
  by (simp add: kv_Get_def split: option.split)

lemma lsm_onEvict_VMem_disk: "ie_disk (lsm_onEvict (Some (VMem a)) e) = ie_disk e"
  by (auto simp: lsm_onEvict_def onEvictInternal_def lsm_retry_later_def Let_def split: prod.splits)

lemma lsm_afterWrite_env:
  assumes "onEvicted m = Some lsm_onEvict" "kv_Get t0 (id_Key itd) m = Some (Some (VMem a), x0, True)"
    and "lsm_afterWrite now cell d itd ttl m = Some m'"
  shows "env m' = lsm_onEvict (Some (VMem a)) ((env m)\<lparr>ie_disk := (ie_disk (env m))(d := itd)\<rparr>)"
proof -
  obtain c where "items m (id_Key itd) = Some c" "e_p (heap m c) = Some (Some (VMem a))"
    using assms(2) by (auto simp: kv_Get_def entry_GetValue_def split: option.splits)
  then show ?thesis
    using assms(1,3) by (auto simp: lsm_afterWrite_def kv_Swap_def entry_SwapValue_def kv_callback_def Let_def)
qed

lemma lsm_afterWrite_ok:
  assumes "kv_inv m" "onEvicted m = Some lsm_onEvict"
    and "kv_Get t0 (id_Key itd) m = Some (Some (VMem a), x0, True)"
  obtains m' where "lsm_afterWrite now cell d itd ttl m = Some m'"
    "kv_inv m'" "ie_disk (env m') d = itd"
    "\<forall>t v x. kv_Get t (id_Key itd) m = Some (v, x, True) \<longrightarrow>
       kv_Get t (id_Key itd) m' = Some (Some (VDisk d), x, True)"
    "\<forall>t k. k \<noteq> id_Key itd \<longrightarrow> kv_Get t k m' = kv_Get t k m"
proof -
  define m1 where "m1 = m\<lparr>env := (env m)\<lparr>ie_disk := (ie_disk (env m))(d := itd)\<rparr>\<rparr>"
  have inv: "kv_inv m1" and get: "kv_Get t k m1 = kv_Get t k m" for t k
    using assms(1) by (simp_all add: m1_def kv_inv_env kv_Get_env)
  from kv.swap_hit [OF inv, unfolded get, OF assms(3)] obtain m' where
    m': "kv_Swap now cell (id_Key itd) (Some (VDisk d)) ttl m1 = Some (True, m')" "kv_inv m'"
    and hit: "\<And>t w e b. kv_Get t (id_Key itd) m = Some (w, e, b) \<Longrightarrow>
      kv_Get t (id_Key itd) m' = Some (Some (VDisk d), e, True)"
    and other: "\<And>t k. k \<noteq> id_Key itd \<Longrightarrow> kv_Get t k m' = kv_Get t k m" by blast
  have aw: "lsm_afterWrite now cell d itd ttl m = Some m'"
    using m'(1) by (simp add: lsm_afterWrite_def m1_def Let_def)
  have "ie_disk (env m') d = itd"
    by (simp add: lsm_afterWrite_env [OF assms(2,3) aw] lsm_onEvict_VMem_disk)
  then show thesis using that aw m'(2) hit other by blast
qed

lemma lsm_lookup_kv:
  "lsm_lookup t k s = Some (Some (r, x)) \<longleftrightarrow> kv_Get t k (ls_mem s) = Some (Some r, x, True)"
  by (auto simp: lsm_lookup_def split: option.splits prod.splits if_splits)


definition demo_lsm :: lsm where
  "demo_lsm = \<lparr>ls_MinLSMTTL = 0, ls_mem = demo_mem, ls_ttlCh = [(60, [5])],
     ls_reader = [(60, (60 * Second, Some 7))], ls_files = demo_files\<rparr>"


section \<open>Storing and looking up\<close>

text \<open>
  A response that was stored is found under its own key at any later time, expired exactly
  when its TTL has passed, and the lookup marks it as in use and counts the hit without
  changing its body; the key argument of \<open>Set\<close> plays no part.
\<close>

theorem lsm_Set_then_Get:
  assumes "lsm_Set now cell key itm ttl s = Some s'"
  shows "\<exists>s''. lsm_Get t (im_Key (ie_mem (env (ls_mem s)) itm)) s'
      = Some (Inr (VMem itm, now + ttl < t), s'') \<and>
    (let old = ie_mem (env (ls_mem s)) itm; new = ie_mem (env (ls_mem s'')) itm in
       im_inUse new = im_inUse old + 1 \<and> im_HIT new = im_HIT old + 1 \<and>
       im_content new = im_content old \<and> im_Header new = im_Header old) \<and>
    lsm_Set now cell key' itm ttl s = lsm_Set now cell key itm ttl s"
proof -
  let ?k = "im_Key (ie_mem (env (ls_mem s)) itm)"
  have m: "ls_mem s' = kv_Set now cell ?k (Some (VMem itm)) ttl (ls_mem s)"
    using assms by (auto simp: lsm_Set_def lsm_mem_Set_def vlog_Set_def Let_def split: if_splits option.splits)
  have "kv_Get t ?k (ls_mem s') = Some (Some (VMem itm), now + ttl < t, True)"
    unfolding m by (rule kv.get_set)
  then have g: "lsm_Get t ?k s' = Some (Inr (VMem itm, now + ttl < t), lsm_pin (VMem itm) s')"
    by (simp add: lsm_Get_def lsm_lookup_def)
  have "env (ls_mem s') = env (ls_mem s)" by (simp add: m kv_Set_def Let_def)
  then have "ie_mem (env (ls_mem (lsm_pin (VMem itm) s'))) itm
      = (ie_mem (env (ls_mem s)) itm)\<lparr>im_inUse := im_inUse (ie_mem (env (ls_mem s)) itm) + 1,
          im_HIT := im_HIT (ie_mem (env (ls_mem s)) itm) + 1\<rparr>"
    by (simp add: lsm_pin_def env_pin_def)
  then show ?thesis using g by (auto simp: lsm_Set_def lsm_mem_Set_def im_content_def Let_def split: option.split)
qed

theorem lsm_Set_then_Get_witness:
  "\<exists>s' s''. lsm_Set 0 1 99 5 (30 * Second) (demo_lsm\<lparr>ls_MinLSMTTL := Hour\<rparr>) = Some s' \<and>
     lsm_Get 5 7 s' = Some (Inr (VMem 5, False), s'')"
proof -
  let ?s = "demo_lsm\<lparr>ls_MinLSMTTL := Hour\<rparr>"
  have k: "im_Key (ie_mem (env (ls_mem ?s)) 5) = 7"
    by (simp add: demo_lsm_def demo_mem(2) demo_env_def demo_itemMem_def)
  obtain s' where s': "lsm_Set 0 1 99 5 (30 * Second) ?s = Some s'"
    by (simp add: lsm_Set_def lsm_mem_Set_def Let_def Hour_def Minute_def Second_def)
  from lsm_Set_then_Get [OF s', of 5 99] k show ?thesis
    using s' by (auto simp: Second_def)
qed

section \<open>Where the parts do not fit\<close>

text \<open>
  \<open>Get\<close> finds an item and marks it in two steps. When the item is evicted in between, the
  client holds an item that was recycled: it has no body, no header and no status, and it
  waits in the pool to be filled with another response while the client reads it.
\<close>

theorem lsm_Get_races_with_eviction:
  assumes "lsm_lookup t k s = Some (Some (VMem a, x))" "im_inUse (ie_mem (env (ls_mem s)) a) = 0"
    and "int (gcap (im_Data (ie_mem (env (ls_mem s)) a))) \<le> itemMemMaxSize"
  shows "let e = env_pin (VMem a) (lsm_onEvict (Some (VMem a)) (env (ls_mem s))) in
    im_content (ie_mem e a) = [] \<and> im_Header (ie_mem e a) = [] \<and> im_StatusCode (ie_mem e a) = 0 \<and>
    im_inUse (ie_mem e a) = 1 \<and> a \<in> snd ` set (ie_memPool e)"
proof -
  obtain itm pool where p: "putItemMem (ie_mem (env (ls_mem s)) a) = (itm, pool)" by (rule prod.exhaust)
  note c = putItemMem_parts [OF p]
  have "lsm_onEvict (Some (VMem a)) (env (ls_mem s)) = (env (ls_mem s))\<lparr>
      ie_mem := (ie_mem (env (ls_mem s)))(a := itm),
      ie_memPool := (case pool of None \<Rightarrow> [] | Some i \<Rightarrow> [(i, a)]) @ ie_memPool (env (ls_mem s))\<rparr>"
    using assms(2) p by (simp add: lsm_onEvict_def onEvictInternal_def Let_def)
  then show ?thesis
    using c assms(3) by (auto simp: env_pin_def im_content_def Let_def split: option.splits)
qed

theorem lsm_Get_races_with_eviction_witness:
  "\<exists>s. lsm_lookup 1 7 s = Some (Some (VMem 5, False)) \<and> im_content (ie_mem (env (ls_mem s)) 5) = [1, 2, 3] \<and>
     im_content (ie_mem (env_pin (VMem 5) (lsm_onEvict (Some (VMem 5)) (env (ls_mem s)))) 5) = []"
proof -
  let ?s = "lsm_Done (VMem 5) demo_lsm"
  have i: "ie_mem (env (ls_mem ?s)) 5 = demo_itemMem"
    by (simp add: lsm_Done_def env_Done_def demo_lsm_def demo_mem(2) demo_env_def itemMem_Done_def
        demo_itemMem_def new_itemMem_def)
  have l: "lsm_lookup 1 7 ?s = Some (Some (VMem 5, False))"
    using demo_mem(4) [of 1]
    by (simp add: lsm_lookup_kv lsm_Done_def demo_lsm_def kv_Get_env Second_def)
  have "im_inUse (ie_mem (env (ls_mem ?s)) 5) = 0"
    "int (gcap (im_Data (ie_mem (env (ls_mem ?s)) 5))) \<le> itemMemMaxSize"
    unfolding i by (simp_all add: demo_itemMem_def new_itemMem_def itemMemMaxSize_def)
  from lsm_Get_races_with_eviction [OF l this] show ?thesis
    using l demo_itemMem(2) unfolding i [symmetric] Let_def by blast
qed

end
