(* ===== verification/Go_Strings.thy ===== *)
theory Go_Strings
  imports Http_Header "HOL-Library.Sublist"
begin

text \<open>
  What the code uses of Go's packages \<open>strings\<close> and \<open>strconv\<close>: prefixes, suffixes and
  substrings, splitting at one character, trimming white space, and decimal numbers.
\<close>

section \<open>strings\<close>

definition HasPrefix :: "string \<Rightarrow> string \<Rightarrow> bool" where
  "HasPrefix s p \<longleftrightarrow> take (length p) s = p"

definition HasSuffix :: "string \<Rightarrow> string \<Rightarrow> bool" where
  "HasSuffix s p \<longleftrightarrow> length p \<le> length s \<and> drop (length s - length p) s = p"

fun Contains :: "string \<Rightarrow> string \<Rightarrow> bool" where
  "Contains [] p \<longleftrightarrow> p = []"
| "Contains (c # s) p \<longleftrightarrow> HasPrefix (c # s) p \<or> Contains s p"

lemma HasPrefix_prefix: "HasPrefix s p \<longleftrightarrow> prefix p s"
  by (metis HasPrefix_def append_eq_conv_conj prefix_def)

lemma HasSuffix_suffix: "HasSuffix s p \<longleftrightarrow> suffix p s"
proof
  assume "HasSuffix s p"
  then show "suffix p s" by (metis HasSuffix_def suffix_drop)
next
  assume "suffix p s"
  then obtain q where "s = q @ p" by (auto simp: suffix_def)
  then show "HasSuffix s p" by (simp add: HasSuffix_def)
qed

lemma Contains_sublist: "Contains s p \<longleftrightarrow> sublist p s"
proof (induction s)
  case Nil
  then show ?case by simp
next
  case (Cons c s)
  then show ?case by (simp add: HasPrefix_prefix sublist_Cons_right)
qed

text \<open>\<open>strings.Split(s, sep)\<close> for a separator of one character never returns an empty list.\<close>

fun Split :: "string \<Rightarrow> char \<Rightarrow> string list" where
  "Split [] sep = [[]]"
| "Split (c # s) sep =
     (if c = sep then [] # Split s sep
      else (case Split s sep of w # ws \<Rightarrow> (c # w) # ws | [] \<Rightarrow> [[c]]))"

lemma Split_not_Nil [simp]: "Split s sep \<noteq> []"
  by (induction s) (auto split: list.splits)

lemma Split_none: "sep \<notin> set s \<Longrightarrow> Split s sep = [s]"
  by (induction s) auto

lemma Split_append: "sep \<notin> set s \<Longrightarrow> Split (s @ sep # t) sep = s # Split t sep"
  by (induction s) (auto split: list.splits)

text \<open>
  \<open>TrimSpace\<close> removes the white space of Unicode in UTF-8: the six ASCII characters, and the
  encodings of the others.
\<close>

definition space_codes :: "string list" where
  "space_codes = [[TAB], [LF], [CHR 0x0B], [CHR 0x0C], [CR], [SP],
     [CHR 0xC2, CHR 0x85], [CHR 0xC2, CHR 0xA0], [CHR 0xE1, CHR 0x9A, CHR 0x80]]
   @ map (\<lambda>n. [CHR 0xE2, CHR 0x80, char_of (n :: nat)])
       ([0x80 ..< 0x8B] @ [0xA8, 0xA9, 0xAF])
   @ [[CHR 0xE2, CHR 0x81, CHR 0x9F], [CHR 0xE3, CHR 0x80, CHR 0x80]]"

lemma space_codes_ne: "p \<in> set space_codes \<Longrightarrow> p \<noteq> []"
  by (auto simp: space_codes_def)

function TrimLeftSpace :: "string \<Rightarrow> string" where
  "TrimLeftSpace s =
     (case List.find (HasPrefix s) space_codes of
        None \<Rightarrow> s
      | Some p \<Rightarrow> TrimLeftSpace (drop (length p) s))"
  by pat_completeness auto
termination
proof (relation "measure length", goal_cases)
  case 1
  then show ?case by simp
next
  case (2 s p)
  then have "HasPrefix s p" "p \<noteq> []" using space_codes_ne by (auto simp: find_Some_iff)
  then show ?case by (cases s; cases p) (auto simp: HasPrefix_def)
qed

function TrimRightSpace :: "string \<Rightarrow> string" where
  "TrimRightSpace s =
     (case List.find (HasSuffix s) space_codes of
        None \<Rightarrow> s
      | Some p \<Rightarrow> TrimRightSpace (take (length s - length p) s))"
  by pat_completeness auto
termination
proof (relation "measure length", goal_cases)
  case 1
  then show ?case by simp
next
  case (2 s p)
  then have "HasSuffix s p" "p \<noteq> []" using space_codes_ne by (auto simp: find_Some_iff)
  then show ?case by (cases s; cases p) (auto simp: HasSuffix_def)
qed

declare TrimLeftSpace.simps [simp del] TrimRightSpace.simps [simp del]

definition TrimSpace :: "string \<Rightarrow> string" where
  "TrimSpace s = TrimRightSpace (TrimLeftSpace s)"

text \<open>Text of plain characters at both ends is left alone.\<close>

definition plain_char :: "char \<Rightarrow> bool" where
  "plain_char c \<longleftrightarrow> (\<forall>p\<in>set space_codes. c \<notin> set p)"

lemma space_codes_not_printable:
  "list_all (list_all (\<lambda>c. of_char c \<le> (32 :: nat) \<or> 127 \<le> (of_char c :: nat))) space_codes"
  by code_simp

lemma printable_plain: "32 < (of_char c :: nat) \<Longrightarrow> (of_char c :: nat) < 127 \<Longrightarrow> plain_char c"
  using space_codes_not_printable unfolding plain_char_def list_all_iff
  by (meson leD linorder_not_le)

lemma TrimSpace_plain:
  assumes "s = [] \<or> (plain_char (hd s) \<and> plain_char (last s))"
  shows "TrimSpace s = s"
proof -
  have "\<not> HasPrefix s p" if "p \<in> set space_codes" for p
  proof
    assume h: "HasPrefix s p"
    have "p \<noteq> []" by (rule space_codes_ne [OF that])
    then have "s \<noteq> []" "hd s = hd p" using h by (cases s; cases p; auto simp: HasPrefix_def)+
    with assms that \<open>p \<noteq> []\<close> show False by (auto simp: plain_char_def)
  qed
  then have "List.find (HasPrefix s) space_codes = None" by (simp add: find_None_iff)
  then have l: "TrimLeftSpace s = s" by (subst TrimLeftSpace.simps) simp
  have "\<not> HasSuffix s p" if "p \<in> set space_codes" for p
  proof
    assume h: "HasSuffix s p"
    have p: "p \<noteq> []" by (rule space_codes_ne [OF that])
    obtain q where q: "s = q @ p" using h by (auto simp: HasSuffix_suffix suffix_def)
    then have "last s = last p" "s \<noteq> []" using p by simp_all
    with assms that p show False by (auto simp: plain_char_def)
  qed
  then have "List.find (HasSuffix s) space_codes = None" by (simp add: find_None_iff)
  then have "TrimRightSpace s = s" by (subst TrimRightSpace.simps) simp
  with l show ?thesis by (simp add: TrimSpace_def)
qed

section \<open>strconv\<close>

definition digit_val :: "char \<Rightarrow> int" where
  "digit_val c = of_char c - 48"

definition digits_val :: "string \<Rightarrow> int" where
  "digits_val s = foldl (\<lambda>n c. n * 10 + digit_val c) 0 s"

datatype num_error = ErrSyntax | ErrRange int

text \<open>
  \<open>ParseInt(s, 10, 64)\<close>: an optional sign and at least one digit; a number out of range is
  reported with the nearest number in range.
\<close>

definition ParseInt :: "string \<Rightarrow> num_error + int" where
  "ParseInt s =
     (let neg = (s \<noteq> [] \<and> hd s = CHR ''-'');
          ds = (if s \<noteq> [] \<and> (hd s = CHR ''-'' \<or> hd s = CHR ''+'') then tl s else s) in
      if ds = [] \<or> \<not> list_all is_digit ds then Inl ErrSyntax
      else
        let v = digits_val ds in
        if \<not> neg \<and> v \<ge> 2 ^ 63 then Inl (ErrRange (2 ^ 63 - 1))
        else if neg \<and> v > 2 ^ 63 then Inl (ErrRange (- (2 ^ 63)))
        else Inr (if neg then - v else v))"

text \<open>\<open>strconv.Atoi\<close> when its error is thrown away.\<close>

definition Atoi_value :: "string \<Rightarrow> int" where
  "Atoi_value s = (case ParseInt s of Inr v \<Rightarrow> v | Inl ErrSyntax \<Rightarrow> 0 | Inl (ErrRange v) \<Rightarrow> v)"

text \<open>\<open>strconv.Itoa\<close>\<close>

fun Utoa :: "nat \<Rightarrow> string" where
  "Utoa n = (if n < 10 then [char_of (48 + n)] else Utoa (n div 10) @ [char_of (48 + n mod 10)])"

declare Utoa.simps [simp del]

definition Itoa :: "int \<Rightarrow> string" where
  "Itoa i = (if i < 0 then CHR ''-'' # Utoa (nat (- i)) else Utoa (nat i))"

lemma digit_char:
  assumes "d < 10"
  shows "is_digit (char_of (48 + d))" "digit_val (char_of (48 + d)) = int d"
proof -
  have m: "of_char (char_of (48 + d) :: char) = (48 + d :: nat)"
    using assms by (simp add: of_char_of)
  then show "is_digit (char_of (48 + d))" using assms by (simp add: is_digit_def less_eq_char_def)
  have "(of_char (char_of (48 + d) :: char) :: int) = int (of_char (char_of (48 + d) :: char))"
    by (metis of_nat_of_char)
  then show "digit_val (char_of (48 + d)) = int d" using m by (simp add: digit_val_def)
qed

lemma digits_val_snoc: "digits_val (s @ [c]) = digits_val s * 10 + digit_val c"
  by (simp add: digits_val_def)

lemma Utoa_digits: "Utoa n \<noteq> [] \<and> list_all is_digit (Utoa n) \<and> digits_val (Utoa n) = int n"
proof (induction n rule: Utoa.induct)
  case (1 n)
  show ?case
  proof (cases "n < 10")
    case True
    then show ?thesis using digit_char [OF True]
      by (subst (1 2 3) Utoa.simps) (simp add: digits_val_def)
  next
    case False
    have "n div 10 * 10 + n mod 10 = n" by simp
    then have sum: "int (n div 10) * 10 + int (n mod 10) = int n"
      by (metis of_nat_add of_nat_mult of_nat_numeral)
    have "n mod 10 < 10" by simp
    from digit_char [OF this] sum 1 [OF False] False show ?thesis
      by (subst (1 2 3) Utoa.simps) (simp add: digits_val_snoc)
  qed
qed

lemma digit_not_sign: "is_digit c \<Longrightarrow> c \<noteq> CHR ''-'' \<and> c \<noteq> CHR ''+''"
  by (auto simp: is_digit_def less_eq_char_def)

lemma ParseInt_digits:
  assumes "ds \<noteq> []" "list_all is_digit ds" "digits_val ds < 2 ^ 63"
  shows "ParseInt ds = Inr (digits_val ds)"
proof -
  have "is_digit (hd ds)" using assms(1,2) by (cases ds) auto
  then show ?thesis using assms digit_not_sign by (auto simp: ParseInt_def Let_def)
qed

lemma ParseInt_Utoa: "n < 2 ^ 63 \<Longrightarrow> ParseInt (Utoa n) = Inr (int n)"
  using Utoa_digits [of n] ParseInt_digits [of "Utoa n"] by simp

section \<open>net.SplitHostPort\<close>

text \<open>Host and port, or \<open>None\<close> for an error.\<close>

definition last_colon :: "string \<Rightarrow> nat option" where
  "last_colon s =
     (if CHR '':'' \<in> set s
      then Some (length s - 1 - length (takeWhile (\<lambda>c. c \<noteq> CHR '':'') (rev s))) else None)"

definition SplitHostPort :: "string \<Rightarrow> (string \<times> string) option" where
  "SplitHostPort hp =
     (case last_colon hp of
        None \<Rightarrow> None
      | Some i \<Rightarrow>
          if hd hp = CHR ''['' then
            if CHR '']'' \<notin> set hp then None
            else let e = length (takeWhile (\<lambda>c. c \<noteq> CHR '']'') hp) in
              if e + 1 \<noteq> i then None
              else if CHR ''['' \<in> set (drop 1 hp) \<or> CHR '']'' \<in> set (drop (e + 1) hp) then None
              else Some (take (e - 1) (drop 1 hp), drop (i + 1) hp)
          else
            let host = take i hp in
            if CHR '':'' \<in> set host then None
            else if CHR ''['' \<in> set hp \<or> CHR '']'' \<in> set hp then None
            else Some (host, drop (i + 1) hp))"

end
