(* ===== verification/Cache_Rules.thy ===== *)
theory Cache_Rules
  imports Go_Strings Go_Time
begin

text \<open>
  \<open>httpsrv/cacherules\<close>: which requests and responses are cached, and for how long. A Go map
  that a rule loops over is an association list in the order of the iteration, which Go does
  not fix; a map that is only looked up is one too, so that \<open>len\<close> can be read off.
\<close>

record internalRules =
  NoReqExt :: "string list"
  NoReqPathPrefix :: "string list"
  NoReqPathSuffix :: "string list"
  NoReqPathContains :: "string list"
  NoReqCookieContains :: "string list"
  NoReqHeaders :: "(string \<times> string) list"
  RespHeadersBlackList :: "(string \<times> string list) list"
  RespContentTypeTTL :: "(string \<times> duration) list"
  RespContentTypeTTLString :: "(string \<times> string) list"
  RespStatusCodeTTL :: "(int \<times> duration) list"
  RespStatusCodeTTLString :: "(string \<times> string) list"

record rules = internalRules +
  Domain :: "(string \<times> internalRules) list option"

definition methodGET :: string where "methodGET = ''GET''"
definition methodHEAD :: string where "methodHEAD = ''HEAD''"
definition defaultTTL :: duration where "defaultTTL = 1 * Hour"

definition Between_From :: "int list \<Rightarrow> int go" where
  "Between_From b = (if length b > 0 then Some (b ! 0) else None)"

definition Between_To :: "int list \<Rightarrow> int go" where
  "Between_To b = (if length b > 1 then Some (b ! 1) else None)"

section \<open>Requests\<close>

record request =
  rq_Method :: string
  rq_Path :: string
  rq_Header :: header

text \<open>
  \<open>req.Cookies()\<close> of \<open>net/http\<close>: the parts between semicolons; those with an invalid name or
  value are left out.
\<close>

definition valid_cookie_value_byte :: "char \<Rightarrow> bool" where
  "valid_cookie_value_byte c \<longleftrightarrow>
     CHR 0x20 \<le> c \<and> c < CHR 0x7F \<and> c \<noteq> CHR 0x22 \<and> c \<noteq> CHR '';'' \<and> c \<noteq> CHR 0x5C"

definition parse_cookie_value :: "string \<Rightarrow> string option" where
  "parse_cookie_value raw =
     (let v = (if length raw > 1 \<and> hd raw = CHR 0x22 \<and> last raw = CHR 0x22
               then butlast (tl raw) else raw)
      in if list_all valid_cookie_value_byte v then Some v else None)"

definition parse_cookie :: "string \<Rightarrow> (string \<times> string) option" where
  "parse_cookie part =
     (let p = TrimSpace part;
          name = takeWhile (\<lambda>c. c \<noteq> CHR ''='') p;
          val = tl (dropWhile (\<lambda>c. c \<noteq> CHR ''='') p) in
      if p = [] then None
      else if name = [] \<or> \<not> list_all valid_field_byte name then None
      else case parse_cookie_value val of None \<Rightarrow> None | Some v \<Rightarrow> Some (name, v))"

definition req_Cookies :: "request \<Rightarrow> (string \<times> string) list" where
  "req_Cookies req =
     (case map_of (rq_Header req) ''Cookie'' of
        None \<Rightarrow> []
      | Some ls \<Rightarrow> List.map_filter parse_cookie
          (concat (map (\<lambda>l. Split (TrimSpace l) CHR '';'') ls)))"

fun isReqCachableExt_loop :: "string list \<Rightarrow> request \<Rightarrow> bool" where
  "isReqCachableExt_loop [] req = True"
| "isReqCachableExt_loop (v # vs) req =
     (if HasSuffix (rq_Path req) v then False else isReqCachableExt_loop vs req)"

definition isReqCachableExt :: "internalRules \<Rightarrow> request \<Rightarrow> bool" where
  "isReqCachableExt ir req = isReqCachableExt_loop (NoReqExt ir) req"

fun isReqCachablePathContent_loop :: "string list \<Rightarrow> request \<Rightarrow> bool" where
  "isReqCachablePathContent_loop [] req = True"
| "isReqCachablePathContent_loop (v # vs) req =
     (if Contains (rq_Path req) v then False else isReqCachablePathContent_loop vs req)"

definition isReqCachablePathContent :: "internalRules \<Rightarrow> request \<Rightarrow> bool" where
  "isReqCachablePathContent ir req = isReqCachablePathContent_loop (NoReqPathContains ir) req"

fun isReqCachablePathPrefix_loop :: "string list \<Rightarrow> request \<Rightarrow> bool" where
  "isReqCachablePathPrefix_loop [] req = True"
| "isReqCachablePathPrefix_loop (v # vs) req =
     (if HasPrefix (rq_Path req) v then False else isReqCachablePathPrefix_loop vs req)"

definition isReqCachablePathPrefix :: "internalRules \<Rightarrow> request \<Rightarrow> bool" where
  "isReqCachablePathPrefix ir req = isReqCachablePathPrefix_loop (NoReqPathPrefix ir) req"

fun isReqCachablePathSuffix_loop :: "string list \<Rightarrow> request \<Rightarrow> bool" where
  "isReqCachablePathSuffix_loop [] req = True"
| "isReqCachablePathSuffix_loop (v # vs) req =
     (if HasSuffix (rq_Path req) v then False else isReqCachablePathSuffix_loop vs req)"

definition isReqCachablePathSuffix :: "internalRules \<Rightarrow> request \<Rightarrow> bool" where
  "isReqCachablePathSuffix ir req = isReqCachablePathSuffix_loop (NoReqPathSuffix ir) req"

fun cookie_loop :: "string \<Rightarrow> (string \<times> string) list \<Rightarrow> bool" where
  "cookie_loop v [] = True"
| "cookie_loop v (c # cs) = (if Contains (fst c) v then False else cookie_loop v cs)"

fun isReqCachableCookieContains_loop :: "string list \<Rightarrow> request \<Rightarrow> bool" where
  "isReqCachableCookieContains_loop [] req = True"
| "isReqCachableCookieContains_loop (v # vs) req =
     (if \<not> cookie_loop v (req_Cookies req) then False else isReqCachableCookieContains_loop vs req)"

definition isReqCachableCookieContains :: "internalRules \<Rightarrow> request \<Rightarrow> bool" where
  "isReqCachableCookieContains ir req = isReqCachableCookieContains_loop (NoReqCookieContains ir) req"

text \<open>The results: whether the request may be answered from the cache, and whether it purges.\<close>

definition IsReqCachable :: "internalRules \<Rightarrow> request \<Rightarrow> bool \<times> bool" where
  "IsReqCachable ir req =
     (if rq_Method req \<noteq> methodGET \<and> rq_Method req \<noteq> methodHEAD then (False, False)
      else if \<not> isReqCachableExt ir req then (False, False)
      else if \<not> isReqCachablePathContent ir req then (False, False)
      else if \<not> isReqCachablePathPrefix ir req then (False, False)
      else if \<not> isReqCachablePathSuffix ir req then (False, False)
      else if \<not> isReqCachableCookieContains ir req then (False, True)
      else (True, False))"

section \<open>Responses\<close>

record response =
  rs_StatusCode :: int
  rs_Header :: header

definition getRespStatusCodeTTL :: "internalRules \<Rightarrow> response \<Rightarrow> duration \<times> bool \<times> bool" where
  "getRespStatusCodeTTL ir resp =
     (if length (RespStatusCodeTTL ir) = 0 then (defaultTTL, True, False)
      else case map_of (RespStatusCodeTTL ir) (rs_StatusCode resp) of
          Some v \<Rightarrow> if rs_StatusCode resp = 200 then (v, True, False) else (v, True, True)
        | None \<Rightarrow> (defaultTTL, False, True))"

fun isValidRespHeader_loop :: "(string \<times> string list) list \<Rightarrow> response \<Rightarrow> bool" where
  "isValidRespHeader_loop [] resp = True"
| "isValidRespHeader_loop ((k, v) # kvs) resp =
     (let headValue = header_Get (rs_Header resp) k in
      if headValue = [] then isValidRespHeader_loop kvs resp
      else if list_ex (Contains headValue) v then False
      else isValidRespHeader_loop kvs resp)"

definition isValidRespHeader :: "internalRules \<Rightarrow> response \<Rightarrow> bool" where
  "isValidRespHeader ir resp =
     (if length (RespHeadersBlackList ir) = 0 then True
      else isValidRespHeader_loop (RespHeadersBlackList ir) resp)"

fun contentType_loop :: "(string \<times> duration) list \<Rightarrow> duration \<Rightarrow> response \<Rightarrow> duration \<times> bool" where
  "contentType_loop [] ttl resp = (ttl, False)"
| "contentType_loop ((k, v) # kvs) ttl resp =
     (if Contains (header_Get (rs_Header resp) ''Content-Type'') k then (ttl + v, True)
      else contentType_loop kvs ttl resp)"

definition getRespContentTypeTTL :: "internalRules \<Rightarrow> duration \<Rightarrow> response \<Rightarrow> duration \<times> bool" where
  "getRespContentTypeTTL ir ttl resp =
     (if header_Get (rs_Header resp) ''Content-Type'' = [] then (ttl, False)
      else if length (RespContentTypeTTL ir) = 0 then (ttl, False)
      else contentType_loop (RespContentTypeTTL ir) ttl resp)"

definition IsRespCachable :: "internalRules \<Rightarrow> response \<Rightarrow> duration \<times> bool" where
  "IsRespCachable ir resp =
     (case getRespStatusCodeTTL ir resp of
        (ttl, ok, islast) \<Rightarrow>
          if \<not> ok \<or> islast then (ttl, ok)
          else if \<not> isValidRespHeader ir resp then (ttl, False)
          else case getRespContentTypeTTL ir ttl resp of
              (ttl', True) \<Rightarrow> (ttl', True)
            | (ttl', False) \<Rightarrow> (ttl', True))"

end
