(* ===== verification/Cache_Rules_Parse.thy ===== *)
theory Cache_Rules_Parse
  imports Cache_Rules Go_IO
begin

text \<open>
  \<open>httpsrv/cacherules/parse.go\<close>: the TTLs of the configuration, which are strings, are parsed
  into durations. \<open>ParseDuration\<close> is that of Go's \<open>time\<close> package, with the wrap-around checks of
  its \<open>int64\<close> arithmetic.
\<close>

section \<open>time.ParseDuration\<close>

datatype dur_error = ErrInvalidDuration

definition max_int64 :: int where "max_int64 = 2 ^ 63 - 1"

text \<open>Digits at the front: the number, which may be too large, and the rest.\<close>

fun leadingInt :: "int \<Rightarrow> string \<Rightarrow> (int \<times> string) option" where
  "leadingInt x [] = Some (x, [])"
| "leadingInt x (c # s) =
     (if \<not> is_digit c then Some (x, c # s)
      else if x > max_int64 div 10 then None
      else let x' = wrap64 (x * 10 + digit_val c) in if x' < 0 then None else leadingInt x' s)"

text \<open>The digits of a fraction, as a number and its scale; digits that do not fit are skipped.\<close>

fun leadingFraction :: "bool \<Rightarrow> int \<Rightarrow> float64 \<Rightarrow> string \<Rightarrow> int \<times> float64 \<times> string" where
  "leadingFraction ovf x scale [] = (x, scale, [])"
| "leadingFraction ovf x scale (c # s) =
     (if \<not> is_digit c then (x, scale, c # s)
      else if ovf then leadingFraction True x scale s
      else if x > max_int64 div 10 then leadingFraction True x scale s
      else let y = wrap64 (x * 10 + digit_val c) in
        if y < 0 then leadingFraction True x scale s
        else leadingFraction False y (f64 (scale * 10)) s)"

definition unitMap :: "(string \<times> int) list" where
  "unitMap = [(''ns'', 1), (''us'', 1000), ([CHR 0xC2, CHR 0xB5] @ ''s'', 1000),
     ([CHR 0xCE, CHR 0xBC] @ ''s'', 1000), (''ms'', 1000000), (''s'', Second), (''m'', Minute),
     (''h'', Hour)]"

lemma leadingInt_rest: "leadingInt x s = Some (v, r) \<Longrightarrow> length r \<le> length s"
  by (induction x s rule: leadingInt.induct) (auto simp: Let_def split: if_splits)

lemma leadingFraction_rest: "leadingFraction ovf x scale s = (f, sc, r) \<Longrightarrow> length r \<le> length s"
  by (induction ovf x scale s rule: leadingFraction.induct)
    (auto simp: Let_def split: if_splits)

definition is_unit_char :: "char \<Rightarrow> bool" where
  "is_unit_char c \<longleftrightarrow> c \<noteq> CHR ''.'' \<and> \<not> is_digit c"

function ParseDuration_loop :: "string \<Rightarrow> int \<Rightarrow> dur_error + int" where
  "ParseDuration_loop s d =
     (if s = [] then Inr d
      else if \<not> (hd s = CHR ''.'' \<or> is_digit (hd s)) then Inl ErrInvalidDuration
      else case leadingInt 0 s of
          None \<Rightarrow> Inl ErrInvalidDuration
        | Some (v, s1) \<Rightarrow>
            let pre = (length s1 \<noteq> length s) in
            case (if s1 \<noteq> [] \<and> hd s1 = CHR ''.''
                  then (case leadingFraction False 0 1 (tl s1) of
                          (f, scale, s2) \<Rightarrow> (f, scale, s2, length s2 \<noteq> length (tl s1)))
                  else (0, 1, s1, False)) of
              (f, scale, s2, post) \<Rightarrow>
                if \<not> pre \<and> \<not> post then Inl ErrInvalidDuration
                else
                  let u = takeWhile is_unit_char s2; s3 = dropWhile is_unit_char s2 in
                  if u = [] then Inl ErrInvalidDuration
                  else case map_of unitMap u of
                      None \<Rightarrow> Inl ErrInvalidDuration
                    | Some unit \<Rightarrow>
                        if v > max_int64 div unit then Inl ErrInvalidDuration
                        else
                          let v1 = v * unit;
                              v2 = (if f > 0
                                then wrap64 (v1 + f64_to_int (f64 (f64 (of_int f) * f64 (f64 (of_int unit) / scale))))
                                else v1);
                              d' = wrap64 (d + v2) in
                          if f > 0 \<and> v2 < 0 then Inl ErrInvalidDuration
                          else if d' < 0 then Inl ErrInvalidDuration
                          else ParseDuration_loop s3 d')"
  by pat_completeness auto
termination
proof (relation "measure (\<lambda>(s, d). length s)", goal_cases)
  case 1
  then show ?case by simp
next
  case (2 s d p v s1 pre f pr1 scale pr2 s2 post u s3 unit v1 v2 d')
  have li: "leadingInt 0 s = Some (v, s1)" using 2(3,4) by simp
  have fr: "(f, scale, s2, post)
    = (if s1 \<noteq> [] \<and> hd s1 = CHR ''.''
       then (case leadingFraction False 0 1 (tl s1) of
               (f, scale, s2) \<Rightarrow> (f, scale, s2, length s2 \<noteq> length (tl s1)))
       else (0, 1, s1, False))" using 2(6-8) by simp
  have "length s1 \<le> length s" by (rule leadingInt_rest [OF li])
  moreover have "length s2 \<le> length s1"
    using fr leadingFraction_rest [of False 0 1 "tl s1"]
    by (cases "leadingFraction False 0 1 (tl s1)") (auto split: if_splits)
  moreover have "length s3 < length s2"
  proof -
    have "length u + length s3 = length s2"
      using 2(10,11) by (metis length_append takeWhile_dropWhile_id)
    then show ?thesis using 2(12) by (cases u) auto
  qed
  ultimately show ?case by simp
qed

declare ParseDuration_loop.simps [simp del]

definition ParseDuration :: "string \<Rightarrow> dur_error + duration" where
  "ParseDuration s =
     (let neg = (s \<noteq> [] \<and> hd s = CHR ''-'');
          s1 = (if s \<noteq> [] \<and> (hd s = CHR ''-'' \<or> hd s = CHR ''+'') then tl s else s) in
      if s1 = ''0'' then Inr 0
      else if s1 = [] then Inl ErrInvalidDuration
      else case ParseDuration_loop s1 0 of
          Inl e \<Rightarrow> Inl e
        | Inr d \<Rightarrow> Inr (if neg then - d else d))"

section \<open>Parse\<close>

text \<open>
  A failed parse stores the zero duration under its key before the error is returned; what
  comes later in the iteration is not looked at.
\<close>

fun Parse_status :: "(string \<times> string) list \<Rightarrow> (int \<times> duration) list
    \<Rightarrow> dur_error option \<times> (int \<times> duration) list" where
  "Parse_status [] m = (None, m)"
| "Parse_status ((k, v) # kvs) m =
     (let c = Atoi_value k in
      if c < 100 then Parse_status kvs m
      else case ParseDuration v of
          Inl err \<Rightarrow> (Some err, AList.update c 0 m)
        | Inr d \<Rightarrow> Parse_status kvs (AList.update c d m))"

fun Parse_contentType :: "(string \<times> string) list \<Rightarrow> (string \<times> duration) list
    \<Rightarrow> dur_error option \<times> (string \<times> duration) list" where
  "Parse_contentType [] m = (None, m)"
| "Parse_contentType ((k, v) # kvs) m =
     (case ParseDuration v of
        Inl err \<Rightarrow> (Some err, AList.update k 0 m)
      | Inr d \<Rightarrow> Parse_contentType kvs (AList.update k d m))"

definition Parse :: "internalRules \<Rightarrow> dur_error option \<times> internalRules" where
  "Parse ir =
     (case Parse_status (RespStatusCodeTTLString ir) [] of
        (Some err, m) \<Rightarrow> (Some err, ir\<lparr>RespStatusCodeTTL := m\<rparr>)
      | (None, m) \<Rightarrow>
          (case Parse_contentType (RespContentTypeTTLString ir) [] of
             (err, m') \<Rightarrow> (err, ir\<lparr>RespStatusCodeTTL := m, RespContentTypeTTL := m'\<rparr>)))"

end
