(* ===== verification/Cache_Rules_Props.thy ===== *)
theory Cache_Rules_Props
  imports Cache_Rules_Parse
begin

text \<open>
  The properties of the cache rules: what makes a request or a response cachable, which
  results depend on the order in which Go iterates over a map, and what parsing the TTLs of
  the configuration gives.
\<close>

section \<open>Requests\<close>

lemma isReqCachableExt_iff: "isReqCachableExt ir req \<longleftrightarrow> list_all (\<lambda>v. \<not> suffix v (rq_Path req)) (NoReqExt ir)"
proof -
  have "isReqCachableExt_loop vs req \<longleftrightarrow> list_all (\<lambda>v. \<not> suffix v (rq_Path req)) vs" for vs
    by (induction vs) (simp_all add: HasSuffix_suffix)
  then show ?thesis by (simp add: isReqCachableExt_def)
qed

lemma isReqCachablePathContent_iff:
  "isReqCachablePathContent ir req \<longleftrightarrow> list_all (\<lambda>v. \<not> sublist v (rq_Path req)) (NoReqPathContains ir)"
proof -
  have "isReqCachablePathContent_loop vs req \<longleftrightarrow> list_all (\<lambda>v. \<not> sublist v (rq_Path req)) vs" for vs
    by (induction vs) (simp_all add: Contains_sublist)
  then show ?thesis by (simp add: isReqCachablePathContent_def)
qed

lemma isReqCachablePathPrefix_iff:
  "isReqCachablePathPrefix ir req \<longleftrightarrow> list_all (\<lambda>v. \<not> prefix v (rq_Path req)) (NoReqPathPrefix ir)"
proof -
  have "isReqCachablePathPrefix_loop vs req \<longleftrightarrow> list_all (\<lambda>v. \<not> prefix v (rq_Path req)) vs" for vs
    by (induction vs) (simp_all add: HasPrefix_prefix)
  then show ?thesis by (simp add: isReqCachablePathPrefix_def)
qed

lemma isReqCachablePathSuffix_iff:
  "isReqCachablePathSuffix ir req \<longleftrightarrow> list_all (\<lambda>v. \<not> suffix v (rq_Path req)) (NoReqPathSuffix ir)"
proof -
  have "isReqCachablePathSuffix_loop vs req \<longleftrightarrow> list_all (\<lambda>v. \<not> suffix v (rq_Path req)) vs" for vs
    by (induction vs) (simp_all add: HasSuffix_suffix)
  then show ?thesis by (simp add: isReqCachablePathSuffix_def)
qed

lemma isReqCachableCookieContains_iff:
  "isReqCachableCookieContains ir req \<longleftrightarrow>
     list_all (\<lambda>v. list_all (\<lambda>c. \<not> sublist v (fst c)) (req_Cookies req)) (NoReqCookieContains ir)"
proof -
  have c: "cookie_loop v cs \<longleftrightarrow> list_all (\<lambda>c. \<not> sublist v (fst c)) cs" for v cs
    by (induction cs) (simp_all add: Contains_sublist)
  have "isReqCachableCookieContains_loop vs req \<longleftrightarrow>
      list_all (\<lambda>v. list_all (\<lambda>c. \<not> sublist v (fst c)) (req_Cookies req)) vs" for vs
    by (induction vs) (simp_all add: c)
  then show ?thesis by (simp add: isReqCachableCookieContains_def)
qed

text \<open>What the rules say, without the order of the checks.\<close>

definition req_allowed :: "internalRules \<Rightarrow> request \<Rightarrow> bool" where
  "req_allowed ir req \<longleftrightarrow>
     rq_Method req \<in> {''GET'', ''HEAD''} \<and>
     list_all (\<lambda>v. \<not> suffix v (rq_Path req)) (NoReqExt ir @ NoReqPathSuffix ir) \<and>
     list_all (\<lambda>v. \<not> prefix v (rq_Path req)) (NoReqPathPrefix ir) \<and>
     list_all (\<lambda>v. \<not> sublist v (rq_Path req)) (NoReqPathContains ir)"

definition req_private :: "internalRules \<Rightarrow> request \<Rightarrow> bool" where
  "req_private ir req \<longleftrightarrow>
     list_ex (\<lambda>v. list_ex (\<lambda>c. sublist v (fst c)) (req_Cookies req)) (NoReqCookieContains ir)"

text \<open>
  C16. A request is answered from the cache exactly when its method is GET or HEAD, its path
  has none of the extensions, suffixes, prefixes and substrings of the rules, and no cookie
  has a name with a substring of the rules; it purges the cached response exactly when the
  cookies are the only obstacle. It never does both.
\<close>

theorem IsReqCachable_spec:
  "IsReqCachable ir req
    = (req_allowed ir req \<and> \<not> req_private ir req, req_allowed ir req \<and> req_private ir req)"
proof -
  have c: "isReqCachableCookieContains ir req \<longleftrightarrow> \<not> req_private ir req"
    by (auto simp: isReqCachableCookieContains_iff req_private_def list_all_iff list_ex_iff)
  show ?thesis
    by (auto simp: IsReqCachable_def req_allowed_def c methodGET_def methodHEAD_def
        isReqCachableExt_iff isReqCachablePathContent_iff isReqCachablePathPrefix_iff
        isReqCachablePathSuffix_iff)
qed

section \<open>Responses\<close>

definition blacklisted :: "response \<Rightarrow> string \<times> string list \<Rightarrow> bool" where
  "blacklisted resp kv \<longleftrightarrow> header_Get (rs_Header resp) (fst kv) \<noteq> [] \<and>
     (\<exists>s\<in>set (snd kv). sublist s (header_Get (rs_Header resp) (fst kv)))"

lemma isValidRespHeader_iff:
  "isValidRespHeader ir resp \<longleftrightarrow> \<not> (\<exists>kv\<in>set (RespHeadersBlackList ir). blacklisted resp kv)"
proof -
  have step: "isValidRespHeader_loop (kv # bl) resp
      = (\<not> blacklisted resp kv \<and> isValidRespHeader_loop bl resp)" for kv bl
    by (cases kv) (simp add: blacklisted_def Let_def list_ex_iff Contains_sublist)
  have "isValidRespHeader_loop bl resp \<longleftrightarrow> \<not> (\<exists>kv\<in>set bl. blacklisted resp kv)" for bl
    by (induction bl) (simp_all only: step, auto)
  then show ?thesis by (simp add: isValidRespHeader_def)
qed

definition type_matches :: "response \<Rightarrow> string \<times> duration \<Rightarrow> bool" where
  "type_matches resp kv \<longleftrightarrow> header_Get (rs_Header resp) ''Content-Type'' \<noteq> [] \<and>
     sublist (fst kv) (header_Get (rs_Header resp) ''Content-Type'')"

lemma getRespContentTypeTTL_find:
  "getRespContentTypeTTL ir ttl resp
    = (case List.find (type_matches resp) (RespContentTypeTTL ir) of
         None \<Rightarrow> (ttl, False) | Some kv \<Rightarrow> (ttl + snd kv, True))"
proof (cases "header_Get (rs_Header resp) ''Content-Type'' = []")
  case True
  then have "List.find (type_matches resp) (RespContentTypeTTL ir) = None"
    by (simp add: find_None_iff type_matches_def)
  then show ?thesis using True by (simp add: getRespContentTypeTTL_def)
next
  case False
  have "contentType_loop kvs ttl resp = (case List.find (type_matches resp) kvs of
         None \<Rightarrow> (ttl, False) | Some kv \<Rightarrow> (ttl + snd kv, True))" for kvs
    by (induction kvs) (auto simp: type_matches_def Contains_sublist False)
  then show ?thesis using False by (simp add: getRespContentTypeTTL_def)
qed

lemma find_SomeD: "List.find P xs = Some x \<Longrightarrow> x \<in> set xs \<and> P x"
  by (induction xs) (auto split: if_splits)

lemma find_order:
  assumes "set xs = set ys" "\<And>x y. x \<in> set xs \<Longrightarrow> y \<in> set xs \<Longrightarrow> P x \<Longrightarrow> P y \<Longrightarrow> f x = f y"
  shows "map_option f (List.find P xs) = map_option f (List.find P ys)"
proof (cases "List.find P xs")
  case None
  then have "List.find P ys = None" using assms(1) by (simp add: find_None_iff)
  then show ?thesis using None by simp
next
  case (Some x)
  have x: "x \<in> set xs" "P x" using find_SomeD [OF Some] by simp_all
  have "List.find P ys \<noteq> None" using x assms(1) by (auto simp: find_None_iff)
  then obtain y where y: "List.find P ys = Some y" by blast
  have "y \<in> set xs" "P y" using find_SomeD [OF y] assms(1) by simp_all
  then have "f x = f y" using x by (intro assms(2))
  then show ?thesis using Some y by simp
qed

definition types_agree :: "internalRules \<Rightarrow> response \<Rightarrow> bool" where
  "types_agree ir resp \<longleftrightarrow> (\<forall>x\<in>set (RespContentTypeTTL ir). \<forall>y\<in>set (RespContentTypeTTL ir).
     type_matches resp x \<longrightarrow> type_matches resp y \<longrightarrow> snd x = snd y)"

text \<open>
  Whether a response is cached does not depend on the order in which Go iterates over the
  black list and the content types, and neither does the TTL when the content types that
  match the response agree on it.
\<close>

theorem IsRespCachable_order_irrelevant:
  assumes "mset (RespHeadersBlackList ir') = mset (RespHeadersBlackList ir)"
    and "mset (RespContentTypeTTL ir') = mset (RespContentTypeTTL ir)"
    and "RespStatusCodeTTL ir' = RespStatusCodeTTL ir"
  shows "snd (IsRespCachable ir' resp) = snd (IsRespCachable ir resp) \<and>
    (types_agree ir resp \<longrightarrow> IsRespCachable ir' resp = IsRespCachable ir resp)"
proof -
  have bl: "isValidRespHeader ir' resp = isValidRespHeader ir resp"
    using mset_eq_setD [OF assms(1)] by (simp add: isValidRespHeader_iff)
  have st: "getRespStatusCodeTTL ir' resp = getRespStatusCodeTTL ir resp"
    using assms(3) by (simp add: getRespStatusCodeTTL_def)
  have any: "snd (IsRespCachable i resp)
      = (case getRespStatusCodeTTL i resp of (ttl, ok, islast) \<Rightarrow>
           if \<not> ok \<or> islast then ok else isValidRespHeader i resp)" for i
    by (auto simp: IsRespCachable_def split: prod.splits bool.splits)
  have same: "IsRespCachable ir' resp = IsRespCachable ir resp" if "types_agree ir resp"
  proof -
    have "map_option snd (List.find (type_matches resp) (RespContentTypeTTL ir))
        = map_option snd (List.find (type_matches resp) (RespContentTypeTTL ir'))"
    proof (rule find_order)
      show "set (RespContentTypeTTL ir) = set (RespContentTypeTTL ir')"
        using mset_eq_setD [OF assms(2)] by (rule sym)
      show "snd x = snd y" if "x \<in> set (RespContentTypeTTL ir)" "y \<in> set (RespContentTypeTTL ir)"
        "type_matches resp x" "type_matches resp y" for x y
        using \<open>types_agree ir resp\<close> that unfolding types_agree_def by blast
    qed
    then have "getRespContentTypeTTL ir' ttl resp = getRespContentTypeTTL ir ttl resp" for ttl
      by (cases "List.find (type_matches resp) (RespContentTypeTTL ir)";
        cases "List.find (type_matches resp) (RespContentTypeTTL ir')")
        (simp_all add: getRespContentTypeTTL_find)
    then show ?thesis by (cases "getRespStatusCodeTTL ir resp") (simp add: IsRespCachable_def bl st)
  qed
  show ?thesis using same by (simp add: any bl st)
qed

definition demo_rules :: internalRules where
  "demo_rules = \<lparr>NoReqExt = [], NoReqPathPrefix = [], NoReqPathSuffix = [], NoReqPathContains = [],
     NoReqCookieContains = [''wordpress_logged_in''], NoReqHeaders = [], RespHeadersBlackList = [],
     RespContentTypeTTL = [(''font/'', Hour), (''image/'', Minute)], RespContentTypeTTLString = [],
     RespStatusCodeTTL = [(200, Minute), (404, Second)], RespStatusCodeTTLString = []\<rparr>"

definition demo_resp :: response where
  "demo_resp = \<lparr>rs_StatusCode = 200, rs_Header = [(''Content-Type'', [''font/woff2''])]\<rparr>"

lemma canonical_content_type: "canonical_key ''Content-Type'' = ''Content-Type''"
  by (simp add: canonical_key_def valid_field_byte_def is_upper_def is_lower_def is_digit_def
      to_upper_def to_lower_def less_eq_char_def token_punct_def)

lemma demo_resp_type: "header_Get (rs_Header demo_resp) ''Content-Type'' = ''font/woff2''"
  by (simp add: header_Get_def canonical_content_type demo_resp_def)

theorem IsRespCachable_order_irrelevant_witness:
  "IsRespCachable (demo_rules\<lparr>RespContentTypeTTL := [(''image/'', Minute), (''font/'', Hour)]\<rparr>) demo_resp
    = IsRespCachable demo_rules demo_resp"
proof -
  let ?ir = "demo_rules\<lparr>RespContentTypeTTL := [(''image/'', Minute), (''font/'', Hour)]\<rparr>"
  have "\<not> type_matches demo_resp (''image/'', Minute)"
    by (simp add: type_matches_def demo_resp_type Contains_sublist [symmetric] HasPrefix_def)
  then show ?thesis
    using IsRespCachable_order_irrelevant [of ?ir demo_rules demo_resp]
    by (simp add: demo_rules_def types_agree_def)
qed

text \<open>
  When two content types of the rules match a response, the TTL is the one of whichever Go
  happens to meet first, added to the TTL of the status code.
\<close>

theorem overlapping_content_types:
  "IsRespCachable (demo_rules\<lparr>RespContentTypeTTL := [(''font/'', Hour), (''woff'', Second)]\<rparr>) demo_resp
     = (Minute + Hour, True) \<and>
   IsRespCachable (demo_rules\<lparr>RespContentTypeTTL := [(''woff'', Second), (''font/'', Hour)]\<rparr>) demo_resp
     = (Minute + Second, True)"
proof -
  have m: "type_matches demo_resp (''font/'', Hour)" "type_matches demo_resp (''woff'', Second)"
    by (simp_all add: type_matches_def demo_resp_type Contains_sublist [symmetric] HasPrefix_def)
  have "IsRespCachable (demo_rules\<lparr>RespContentTypeTTL := kv # kvs\<rparr>) demo_resp = (Minute + snd kv, True)"
    if "type_matches demo_resp kv" for kv kvs
    using that
  proof -
    let ?ir = "demo_rules\<lparr>RespContentTypeTTL := kv # kvs\<rparr>"
    have "getRespStatusCodeTTL ?ir demo_resp = (Minute, True, False)"
      by (simp add: getRespStatusCodeTTL_def demo_rules_def demo_resp_def)
    moreover have "isValidRespHeader ?ir demo_resp" by (simp add: isValidRespHeader_iff demo_rules_def)
    ultimately show ?thesis using that by (simp add: IsRespCachable_def getRespContentTypeTTL_find)
  qed
  from this [OF m(1)] this [OF m(2)] show ?thesis by simp
qed

section \<open>Parsing the TTLs\<close>

lemma digit_val_range: "is_digit c \<Longrightarrow> 0 \<le> digit_val c \<and> digit_val c \<le> 9"
proof -
  assume "is_digit c"
  then have "48 \<le> (of_char c :: nat)" "(of_char c :: nat) \<le> 57"
    by (auto simp: is_digit_def less_eq_char_def)
  moreover have "(of_char c :: int) = int (of_char c)" by (metis of_nat_of_char)
  ultimately show ?thesis by (simp add: digit_val_def)
qed

lemma foldl_digits_mono:
  "list_all is_digit ds \<Longrightarrow> 0 \<le> x \<Longrightarrow> x \<le> foldl (\<lambda>n c. n * 10 + digit_val c) x ds"
proof (induction ds arbitrary: x)
  case Nil
  then show ?case by simp
next
  case (Cons c ds)
  have "0 \<le> digit_val c" using Cons.prems(1) digit_val_range by simp
  then have "x \<le> x * 10 + digit_val c" "0 \<le> x * 10 + digit_val c" using Cons.prems(2) by linarith+
  moreover from this(2) Cons.IH [of "x * 10 + digit_val c"] Cons.prems(1)
  have "x * 10 + digit_val c \<le> foldl (\<lambda>n c. n * 10 + digit_val c) (x * 10 + digit_val c) ds" by simp
  ultimately show ?case by simp
qed

lemma leadingInt_digits:
  assumes "list_all is_digit ds" "rest = [] \<or> \<not> is_digit (hd rest)" "0 \<le> x"
    and "foldl (\<lambda>n c. n * 10 + digit_val c) x ds \<le> max_int64"
  shows "leadingInt x (ds @ rest) = Some (foldl (\<lambda>n c. n * 10 + digit_val c) x ds, rest)"
  using assms(1,3,4)
proof (induction ds arbitrary: x)
  case Nil
  then show ?case using assms(2) by (cases rest) auto
next
  case (Cons c ds)
  let ?x = "x * 10 + digit_val c"
  have d: "is_digit c" "0 \<le> digit_val c" using Cons.prems(1) digit_val_range by simp_all
  have le: "?x \<le> max_int64"
    using foldl_digits_mono [of ds ?x] Cons.prems d(2) by simp
  then have "x \<le> max_int64 div 10" using d(2) by (simp add: max_int64_def)
  moreover have "wrap64 ?x = ?x"
    using le d(2) Cons.prems(2) by (intro wrap64_id) (simp_all add: max_int64_def)
  ultimately show ?case using Cons d by simp
qed

text \<open>
  A TTL of the configuration that is a whole number and one of the units is parsed to that
  many nanoseconds, as long as it fits in 63 bits, and is refused when it does not.
\<close>

lemma ParseDuration_number_unit:
  assumes "map_of unitMap u = Some unit" "int n \<le> max_int64"
  shows "ParseDuration (Utoa n @ u) =
    (if int n * unit \<le> max_int64 then Inr (int n * unit) else Inl ErrInvalidDuration)"
proof -
  let ?ds = "Utoa n"
  have ds: "?ds \<noteq> []" "list_all is_digit ?ds" "digits_val ?ds = int n"
    using Utoa_digits [of n] by simp_all
  have u: "u \<noteq> []" "\<not> is_digit (hd u)" "hd u \<noteq> CHR ''.''" "takeWhile is_unit_char u = u"
    "dropWhile is_unit_char u = []" "0 < unit"
    using assms(1)
    by (auto simp: unitMap_def is_unit_char_def is_digit_def less_eq_char_def Second_def
        Minute_def Hour_def split: if_splits)
  have hd: "is_digit (hd (?ds @ u))" using ds(1,2) by (cases ?ds) auto
  then have sign: "hd (?ds @ u) \<noteq> CHR ''-''" "hd (?ds @ u) \<noteq> CHR ''+''"
    using digit_not_sign by blast+
  have not0: "?ds @ u \<noteq> ''0''"
    using u(1) ds(1) by (cases ?ds; cases u) auto
  have li: "leadingInt 0 (?ds @ u) = Some (int n, u)"
    using leadingInt_digits [of ?ds u 0] ds assms(2) u(2) by (simp add: digits_val_def)
  have div: "int n > max_int64 div unit \<longleftrightarrow> \<not> int n * unit \<le> max_int64"
  proof -
    have "max_int64 div unit < int n \<longleftrightarrow> max_int64 < int n * unit"
    proof
      assume "max_int64 div unit < int n"
      then have "(max_int64 div unit + 1) * unit \<le> int n * unit" using u(6) by simp
      moreover have "max_int64 < (max_int64 div unit + 1) * unit"
        using u(6) by (metis distrib_right div_mult_mod_eq add_less_cancel_left mult_1 pos_mod_bound)
      ultimately show "max_int64 < int n * unit" by linarith
    next
      assume "max_int64 < int n * unit"
      moreover have "max_int64 div unit * unit \<le> max_int64"
        using u(6) by (metis add_le_cancel_left add.right_neutral div_mult_mod_eq pos_mod_sign)
      ultimately have "max_int64 div unit * unit < int n * unit" by linarith
      then show "max_int64 div unit < int n" using u(6) by (simp add: mult_less_cancel_right)
    qed
    then show ?thesis by (simp add: not_le)
  qed
  have "ParseDuration_loop (?ds @ u) 0
      = (if int n * unit \<le> max_int64 then Inr (int n * unit) else Inl ErrInvalidDuration)"
  proof (cases "int n * unit \<le> max_int64")
    case True
    have nn: "0 \<le> int n * unit" using u(6) by simp
    then have w: "wrap64 (int n * unit) = int n * unit"
      using True by (intro wrap64_id) (auto simp: max_int64_def)
    have "ParseDuration_loop (?ds @ u) 0 = ParseDuration_loop [] (int n * unit)"
      using ds(1) u(1,3) hd div True assms(1) nn w
      by (subst ParseDuration_loop.simps) (simp add: li u(4,5) Let_def)
    also have "\<dots> = Inr (int n * unit)" by (simp add: ParseDuration_loop.simps)
    finally show ?thesis using True by simp
  next
    case False
    then have "int n > max_int64 div unit" using div by simp
    then show ?thesis
      using ds(1) u(1,3) hd False assms(1)
      by (subst ParseDuration_loop.simps) (simp add: li u(4,5) Let_def)
  qed
  then show ?thesis using sign not0 ds(1) by (simp add: ParseDuration_def Let_def)
qed

lemma ParseDuration_number_unit_witness:
  "ParseDuration (Utoa 90 @ ''s'') = Inr (90 * Second)"
  using ParseDuration_number_unit [of "''s''" Second 90]
  by (simp add: unitMap_def max_int64_def Second_def)

lemma Parse_status_prefix:
  assumes "\<forall>(k, v)\<in>set pre. Atoi_value k < 100 \<or> (\<exists>d. ParseDuration v = Inr d)"
  shows "\<exists>m'. Parse_status (pre @ post) m = Parse_status post m'"
  using assms
proof (induction pre arbitrary: m)
  case Nil
  then show ?case by auto
next
  case (Cons kv pre)
  obtain k v where kv: "kv = (k, v)" by (cases kv)
  have rest: "\<forall>(k, v)\<in>set pre. Atoi_value k < 100 \<or> (\<exists>d. ParseDuration v = Inr d)"
    using Cons.prems by simp
  show ?case
  proof (cases "Atoi_value k < 100")
    case True
    then show ?thesis using Cons.IH [OF rest, of m] kv by simp
  next
    case False
    then obtain d where "ParseDuration v = Inr d" using Cons.prems kv by auto
    then show ?thesis using Cons.IH [OF rest, of "AList.update (Atoi_value k) d m"] kv False by simp
  qed
qed

text \<open>
  A TTL of a status code that cannot be parsed is reported, but it also leaves the status
  code in the table with a TTL of zero and the content types unread: if the error is ignored,
  a response with this status is taken as cachable, for no time at all.
\<close>

theorem Parse_error_leaves_zero_ttl:
  assumes "RespStatusCodeTTLString ir = pre @ (k, v) # post"
    and "\<forall>(k, v)\<in>set pre. Atoi_value k < 100 \<or> (\<exists>d. ParseDuration v = Inr d)"
    and "100 \<le> Atoi_value k" "Atoi_value k \<noteq> 200" "ParseDuration v = Inl e"
  shows "\<exists>ir'. Parse ir = (Some e, ir') \<and> RespContentTypeTTL ir' = RespContentTypeTTL ir \<and>
    IsRespCachable ir' (resp\<lparr>rs_StatusCode := Atoi_value k\<rparr>) = (0, True)"
proof -
  obtain m where "Parse_status (pre @ (k, v) # post) [] = Parse_status ((k, v) # post) m"
    using Parse_status_prefix [OF assms(2)] by blast
  then have "Parse_status (RespStatusCodeTTLString ir) [] = (Some e, AList.update (Atoi_value k) 0 m)"
    using assms(1,3,5) by simp
  moreover have "AList.update (Atoi_value k) 0 m \<noteq> []" by (cases m) auto
  ultimately show ?thesis
    using assms(4) by (simp add: Parse_def IsRespCachable_def getRespStatusCodeTTL_def update_conv')
qed

theorem Parse_error_leaves_zero_ttl_witness:
  "\<exists>ir'. Parse (demo_rules\<lparr>RespStatusCodeTTLString := [(''200'', ''1m''), (''404'', ''10'')]\<rparr>)
       = (Some ErrInvalidDuration, ir') \<and>
     IsRespCachable ir' (demo_resp\<lparr>rs_StatusCode := 404\<rparr>) = (0, True)"
proof -
  let ?ir = "demo_rules\<lparr>RespStatusCodeTTLString := [(''200'', ''1m''), (''404'', ''10'')]\<rparr>"
  have d: "is_digit CHR ''0''" "is_digit CHR ''1''" "is_digit CHR ''2''" "is_digit CHR ''4''" "\<not> is_digit CHR ''m''"
    by (simp_all add: is_digit_def less_eq_char_def)
  have a: "Atoi_value ''404'' = 404" "Atoi_value ''200'' = 200"
    by (simp_all add: Atoi_value_def ParseInt_def d digits_val_def digit_val_def)
  have u: "Utoa 1 = ''1''" by code_simp
  have ok: "ParseDuration ''1m'' = Inr (1 * Minute)"
    using ParseDuration_number_unit [of "''m''" Minute 1]
    by (simp add: unitMap_def max_int64_def Minute_def Second_def u [unfolded One_nat_def])
  have "ParseDuration_loop ''10'' 0 = Inl ErrInvalidDuration"
    by (subst ParseDuration_loop.simps) (simp add: d max_int64_def digit_val_def wrap64_def Let_def)
  then have bad: "ParseDuration ''10'' = Inl ErrInvalidDuration" by (simp add: ParseDuration_def)
  show ?thesis
    using Parse_error_leaves_zero_ttl [of ?ir "[(''200'', ''1m'')]" "''404''" "''10''" "[]"
        ErrInvalidDuration demo_resp] a ok bad by auto
qed

end
