(* ===== verification/Handler_Range.thy ===== *)
theory Handler_Range
  imports Go_Strings Cached_Item
begin

text \<open>
  \<open>httpsrv/handler/utils.go\<close>: the Range header. \<open>parseRange\<close> returns the first and the last
  byte of every range, the latter in the field that is called \<open>length\<close>.
\<close>

record httpRange =
  r_start :: int
  r_length :: int

datatype range_error = ErrInvalidRange | ErrNoRange

text \<open>The numbers between the dashes of one range: the first is the start, the others the length.\<close>

fun parseRange_parts :: "nat \<Rightarrow> string list \<Rightarrow> int \<Rightarrow> int \<Rightarrow> range_error + int \<times> int" where
  "parseRange_parts i [] start len = Inr (start, len)"
| "parseRange_parts i (pa # ps) start len =
     (if length pa = 0 then parseRange_parts (i + 1) ps start len
      else case ParseInt pa of
          Inl _ \<Rightarrow> Inl ErrInvalidRange
        | Inr v \<Rightarrow>
            if i = 0 then parseRange_parts (i + 1) ps v len
            else parseRange_parts (i + 1) ps start v)"

fun parseRange_loop ::
  "string list \<Rightarrow> int \<Rightarrow> int \<Rightarrow> httpRange list \<Rightarrow> range_error + httpRange list" where
  "parseRange_loop [] defsize sz ranges = Inr ranges"
| "parseRange_loop (ra0 # ras) defsize sz ranges =
     (let ra = TrimSpace ra0 in
      if ra = [] then parseRange_loop ras defsize sz ranges
      else case parseRange_parts 0 (Split ra CHR ''-'') 0 sz of
          Inl e \<Rightarrow> Inl e
        | Inr (start, len) \<Rightarrow>
            if start \<ge> 0 then
              parseRange_loop ras defsize sz
                (ranges @ [\<lparr>r_start = start,
                   r_length = (if len = - 1 then wrap64 (start + defsize) else len)\<rparr>])
            else parseRange_loop ras defsize sz ranges)"

definition parseRange :: "string \<Rightarrow> int \<Rightarrow> int \<Rightarrow> range_error + httpRange list option" where
  "parseRange s defsize sz =
     (if s = [] \<or> sz = 0 then Inr None
      else if \<not> HasPrefix s ''bytes='' then Inl ErrInvalidRange
      else case parseRange_loop (Split (drop (length ''bytes='') s) CHR '','') defsize sz [] of
          Inl e \<Rightarrow> Inl e
        | Inr ranges \<Rightarrow> if length ranges = 0 then Inl ErrNoRange else Inr (Some ranges))"

section \<open>One range\<close>

text \<open>The parts of a range in a header: a number or nothing.\<close>

definition opt_num :: "nat option \<Rightarrow> string" where
  "opt_num n = (case n of None \<Rightarrow> [] | Some k \<Rightarrow> Utoa k)"

lemma opt_num_digits: "list_all is_digit (opt_num n)"
  using Utoa_digits by (simp add: opt_num_def split: option.splits)

lemma digit_plain: "is_digit c \<Longrightarrow> plain_char c"
  by (rule printable_plain) (auto simp: is_digit_def less_eq_char_def)

lemma digit_not: "is_digit c \<Longrightarrow> c \<noteq> CHR '','' \<and> c \<noteq> CHR ''-''"
  by (auto simp: is_digit_def less_eq_char_def)

lemma dash_plain: "plain_char CHR ''-''"
  by (rule printable_plain) simp_all

lemma TrimSpace_range: "TrimSpace (opt_num a @ ''-'' @ opt_num b) = opt_num a @ ''-'' @ opt_num b"
proof (rule TrimSpace_plain, rule disjI2, rule conjI)
  show "plain_char (hd (opt_num a @ ''-'' @ opt_num b))"
    using opt_num_digits [of a] dash_plain digit_plain by (cases "opt_num a") auto
  show "plain_char (last (opt_num a @ ''-'' @ opt_num b))"
    using opt_num_digits [of b] dash_plain digit_plain
    by (cases "opt_num b" rule: rev_cases) auto
qed

lemma parse_opt_num:
  assumes "\<And>k. n = Some k \<Longrightarrow> k < 2 ^ 63"
  shows "opt_num n \<noteq> [] \<Longrightarrow> ParseInt (opt_num n) = Inr (int (the n))"
    and "opt_num n = [] \<longleftrightarrow> n = None"
  using assms ParseInt_Utoa Utoa_digits by (auto simp: opt_num_def split: option.splits)

lemma parseRange_loop_one:
  assumes "TrimSpace ra \<noteq> []" "parseRange_parts 0 (Split (TrimSpace ra) CHR ''-'') 0 sz = Inr (s, l)"
    and "0 \<le> s" "0 \<le> l"
  shows "parseRange_loop [ra] defsize sz [] = Inr [\<lparr>r_start = s, r_length = l\<rparr>]"
  using assms by (simp add: Let_def)

lemma parseRange_one:
  assumes "\<And>k. a = Some k \<Longrightarrow> k < 2 ^ 63" "\<And>k. b = Some k \<Longrightarrow> k < 2 ^ 63" "0 < sz"
  shows "parseRange (''bytes='' @ opt_num a @ ''-'' @ opt_num b) defsize sz
    = Inr (Some [\<lparr>r_start = (case a of None \<Rightarrow> 0 | Some k \<Rightarrow> int k),
        r_length = (case b of None \<Rightarrow> sz | Some k \<Rightarrow> int k)\<rparr>])"
proof -
  let ?ra = "opt_num a @ ''-'' @ opt_num b"
  have nocomma: "CHR '','' \<notin> set ?ra"
    using opt_num_digits [of a] opt_num_digits [of b] digit_not by (auto simp: list_all_iff)
  have nodash: "CHR ''-'' \<notin> set (opt_num a)" "CHR ''-'' \<notin> set (opt_num b)"
    using opt_num_digits [of a] opt_num_digits [of b] digit_not by (auto simp: list_all_iff)
  have parts: "Split ?ra CHR ''-'' = [opt_num a, opt_num b]"
    using Split_append [OF nodash(1), of "opt_num b"] Split_none [OF nodash(2)] by simp
  have pa: "ParseInt (opt_num a) = Inr (int (the a))" if "a \<noteq> None"
    using parse_opt_num [of a, OF assms(1)] that by blast
  have pb: "ParseInt (opt_num b) = Inr (int (the b))" if "b \<noteq> None"
    using parse_opt_num [of b, OF assms(2)] that by blast
  have ea: "opt_num a = [] \<longleftrightarrow> a = None" and eb: "opt_num b = [] \<longleftrightarrow> b = None"
    using parse_opt_num(2) [of a, OF assms(1)] parse_opt_num(2) [of b, OF assms(2)] by blast+
  have pp: "parseRange_parts 0 [opt_num a, opt_num b] 0 sz
      = Inr (case a of None \<Rightarrow> 0 | Some k \<Rightarrow> int k, case b of None \<Rightarrow> sz | Some k \<Rightarrow> int k)"
    using pa pb ea eb by (cases a; cases b) simp_all
  let ?s = "case a of None \<Rightarrow> 0 | Some k \<Rightarrow> int k" and ?l = "case b of None \<Rightarrow> sz | Some k \<Rightarrow> int k"
  have l: "parseRange_loop (Split ?ra CHR '','') defsize sz [] = Inr [\<lparr>r_start = ?s, r_length = ?l\<rparr>]"
    unfolding Split_none [OF nocomma]
  proof (rule parseRange_loop_one)
    show "TrimSpace ?ra \<noteq> []" unfolding TrimSpace_range by simp
    show "parseRange_parts 0 (Split (TrimSpace ?ra) CHR ''-'') 0 sz = Inr (?s, ?l)"
      unfolding TrimSpace_range parts by (rule pp)
  qed (use assms(3) in \<open>simp_all split: option.splits\<close>)
  have "HasPrefix (''bytes='' @ ?ra) ''bytes=''" "drop (length ''bytes='') (''bytes='' @ ?ra) = ?ra"
    by (simp_all add: HasPrefix_def)
  then show ?thesis using assms(3) l unfolding parseRange_def by simp
qed

text \<open>
  A header with one range, \<open>a-b\<close>, \<open>a-\<close> or \<open>-b\<close>, is parsed to its numbers, with the sz
  of the response for a missing last byte; but a missing first byte is taken as zero, so that
  \<open>-b\<close>, which asks for the last \<open>b\<close> bytes, is served as the bytes \<open>0-b\<close>.
\<close>

theorem parseRange_single:
  assumes "a < 2 ^ 63" "b < 2 ^ 63" "0 < sz"
  shows "parseRange (''bytes='' @ Utoa a @ ''-'' @ Utoa b) defsize sz
      = Inr (Some [\<lparr>r_start = int a, r_length = int b\<rparr>]) \<and>
    parseRange (''bytes='' @ Utoa a @ ''-'') defsize sz
      = Inr (Some [\<lparr>r_start = int a, r_length = sz\<rparr>]) \<and>
    parseRange (''bytes='' @ ''-'' @ Utoa b) defsize sz
      = parseRange (''bytes='' @ Utoa 0 @ ''-'' @ Utoa b) defsize sz"
  using parseRange_one [of "Some a" "Some b" sz defsize] parseRange_one [of "Some a" None sz defsize]
    parseRange_one [of None "Some b" sz defsize] parseRange_one [of "Some 0" "Some b" sz defsize]
    assms by (simp add: opt_num_def)

theorem parseRange_single_witness:
  "parseRange (''bytes='' @ ''-'' @ Utoa 50) 1048576 200
     = Inr (Some [\<lparr>r_start = 0, r_length = 50\<rparr>])"
  using parseRange_single [of 0 50 200 1048576] by simp

section \<open>No range has a negative end\<close>

text \<open>A part has no dash in it, so its number is not negative.\<close>

lemma Split_no_sep: "w \<in> set (Split s c) \<Longrightarrow> c \<notin> set w"
proof (induction s arbitrary: w)
  case Nil
  then show ?case by simp
next
  case (Cons x s)
  obtain v vs where vs: "Split s c = v # vs" using Split_not_Nil [of s c] by (cases "Split s c") auto
  show ?case
  proof (cases "x = c")
    case True
    then show ?thesis using Cons by auto
  next
    case False
    then have "w = x # v \<or> w \<in> set vs" using Cons.prems vs by auto
    then show ?thesis using Cons.IH [of v] Cons.IH [of w] vs False by auto
  qed
qed

lemma digits_val_nonneg: "list_all is_digit ds \<Longrightarrow> 0 \<le> digits_val ds"
proof (induction ds rule: rev_induct)
  case Nil
  then show ?case by (simp add: digits_val_def)
next
  case (snoc c ds)
  have "48 \<le> (of_char c :: nat)" using snoc.prems by (auto simp: is_digit_def less_eq_char_def)
  moreover have "(of_char c :: int) = int (of_char c)" by (metis of_nat_of_char)
  ultimately have "0 \<le> digit_val c" by (simp add: digit_val_def)
  then show ?case using snoc by (simp add: digits_val_snoc)
qed

lemma ParseInt_nonneg:
  assumes "ParseInt pa = Inr v" "CHR ''-'' \<notin> set pa"
  shows "0 \<le> v"
proof -
  have "hd pa \<noteq> CHR ''-''" if "pa \<noteq> []" using that assms(2) by (cases pa) auto
  then show ?thesis
    using assms(1) digits_val_nonneg by (auto simp: ParseInt_def Let_def split: if_splits)
qed

lemma parseRange_parts_nonneg:
  assumes "parseRange_parts i ps start len = Inr (s, l)" "0 \<le> start" "0 \<le> len"
    and "\<forall>p\<in>set ps. CHR ''-'' \<notin> set p"
  shows "0 \<le> s \<and> 0 \<le> l"
  using assms
proof (induction i ps start len rule: parseRange_parts.induct)
  case (1 i start len)
  then show ?case by simp
next
  case (2 i pa ps start len)
  show ?case
  proof (cases "length pa = 0")
    case True
    then show ?thesis using 2 by simp
  next
    case False
    then obtain v where v: "ParseInt pa = Inr v" using 2(4) by (cases "ParseInt pa") auto
    have "0 \<le> v" by (rule ParseInt_nonneg [OF v]) (use 2(7) in simp)
    then show ?thesis using 2 False v by (cases "i = 0") auto
  qed
qed

lemma parseRange_loop_nonneg:
  assumes "parseRange_loop ras defsize sz ranges = Inr rs" "0 \<le> sz"
    and "\<forall>r\<in>set ranges. 0 \<le> r_start r \<and> 0 \<le> r_length r"
  shows "\<forall>r\<in>set rs. 0 \<le> r_start r \<and> 0 \<le> r_length r"
  using assms
proof (induction ras arbitrary: ranges)
  case Nil
  then show ?case by simp
next
  case (Cons ra ras)
  show ?case
  proof (cases "TrimSpace ra = []")
    case True
    then show ?thesis using Cons by (simp add: Let_def)
  next
    case False
    then obtain s l where sl: "parseRange_parts 0 (Split (TrimSpace ra) CHR ''-'') 0 sz = Inr (s, l)"
      using Cons.prems(1) by (auto simp: Let_def split: sum.splits)
    have nn: "0 \<le> s" "0 \<le> l"
      using parseRange_parts_nonneg [OF sl] Cons.prems(2) Split_no_sep by auto
    then have "parseRange_loop ras defsize sz (ranges @ [\<lparr>r_start = s, r_length = l\<rparr>]) = Inr rs"
      using Cons.prems(1) False sl by (simp add: Let_def)
    from Cons.IH [OF this Cons.prems(2)] Cons.prems(3) nn show ?thesis by simp
  qed
qed

text \<open>
  Whatever the header says, the ranges that \<open>parseRange\<close> returns have a start and an end
  that are not negative; the default size for an end of \<open>-1\<close> is never used.
\<close>

theorem parseRange_nonneg:
  assumes "parseRange s defsize sz = Inr (Some rs)" "0 \<le> sz"
  shows "rs \<noteq> [] \<and> list_all (\<lambda>r. 0 \<le> r_start r \<and> 0 \<le> r_length r) rs"
proof -
  have l: "parseRange_loop (Split (drop (length ''bytes='') s) CHR '','') defsize sz [] = Inr rs"
    and "rs \<noteq> []"
    using assms(1) by (auto simp: parseRange_def split: if_splits sum.splits)
  then show ?thesis using parseRange_loop_nonneg [OF l assms(2)] by (simp add: list_all_iff)
qed

theorem parseRange_nonneg_witness:
  "list_all (\<lambda>r. 0 \<le> r_start r \<and> 0 \<le> r_length r) [\<lparr>r_start = 10, r_length = 200\<rparr>]"
proof -
  have "parseRange (''bytes='' @ Utoa 10 @ ''-'') 0 200
      = Inr (Some [\<lparr>r_start = int 10, r_length = 200\<rparr>])"
    using parseRange_one [of "Some 10" None 200 0] by (simp add: opt_num_def)
  from parseRange_nonneg [OF this] show ?thesis by simp
qed

end
