(* ===== verification/Item_Ref.thy ===== *)
theory Item_Ref
  imports LSM
begin

text \<open>
  The interface \<open>Item\<close> of \<open>lsm/item.go\<close> as its users call it: a method call on an item goes to
  the item in memory or the item on disk. With the heaps of the cache both together provide
  the interface of cached items, so that what is proved of it holds wherever a response is.
\<close>

definition item_Len :: "items_env \<Rightarrow> item_ref \<Rightarrow> int" where
  "item_Len e r = (case r of VMem a \<Rightarrow> itemMem_Len (ie_mem e a) | VDisk a \<Rightarrow> itemDisk_Len (ie_disk e a))"

definition item_GetHIT :: "items_env \<Rightarrow> item_ref \<Rightarrow> u64" where
  "item_GetHIT e r = (case r of VMem a \<Rightarrow> itemMem_GetHIT (ie_mem e a) | VDisk a \<Rightarrow> itemDisk_GetHIT (ie_disk e a))"

definition item_GetStatusCode :: "items_env \<Rightarrow> item_ref \<Rightarrow> int" where
  "item_GetStatusCode e r =
     (case r of VMem a \<Rightarrow> itemMem_GetStatusCode (ie_mem e a) | VDisk a \<Rightarrow> itemDisk_GetStatusCode (ie_disk e a))"

definition item_GetHeader :: "vfiles \<Rightarrow> items_env \<Rightarrow> item_ref \<Rightarrow> header_result" where
  "item_GetHeader fs e r =
     (case r of VMem a \<Rightarrow> Header_is (itemMem_GetHeader (ie_mem e a))
      | VDisk a \<Rightarrow> itemDisk_GetHeader fs (ie_disk e a))"

definition item_ValidRange :: "items_env \<Rightarrow> item_ref \<Rightarrow> int \<Rightarrow> int \<Rightarrow> lsm_error + (int \<times> int \<times> int)" where
  "item_ValidRange e r =
     (case r of VMem a \<Rightarrow> itemMem_ValidRange (ie_mem e a) | VDisk a \<Rightarrow> itemDisk_ValidRange (ie_disk e a))"

definition item_WriteTo ::
  "bool \<Rightarrow> vfiles \<Rightarrow> items_env \<Rightarrow> 'w writer \<Rightarrow> item_ref \<Rightarrow> 'w \<Rightarrow> 'w io_result" where
  "item_WriteTo open_ok fs e wr r w =
     (case r of VMem a \<Rightarrow> Some (Some (itemMem_WriteTo open_ok wr (ie_mem e a) w))
      | VDisk a \<Rightarrow> itemDisk_WriteTo fs wr (ie_disk e a) w)"

definition item_WriteToRange ::
  "bool \<Rightarrow> vfiles \<Rightarrow> items_env \<Rightarrow> 'w writer \<Rightarrow> item_ref \<Rightarrow> int \<Rightarrow> int \<Rightarrow> 'w \<Rightarrow> 'w io_result" where
  "item_WriteToRange open_ok fs e wr r from to w =
     (case r of VMem a \<Rightarrow> Some (itemMem_WriteToRange open_ok wr (ie_mem e a) from to w)
      | VDisk a \<Rightarrow> itemDisk_WriteToRange fs wr (ie_disk e a) from to w)"

section \<open>The items of the cache provide the interface\<close>

definition item_ready :: "vfiles \<Rightarrow> items_env \<Rightarrow> item_ref \<Rightarrow> bool" where
  "item_ready fs e r = (case r of VMem a \<Rightarrow> im_ready (ie_mem e a) | VDisk a \<Rightarrow> id_ready fs (ie_disk e a))"

definition item_body :: "vfiles \<Rightarrow> items_env \<Rightarrow> item_ref \<Rightarrow> byte list" where
  "item_body fs e r = (case r of VMem a \<Rightarrow> im_content (ie_mem e a) | VDisk a \<Rightarrow> id_body fs (ie_disk e a))"

lemmas item_ref_defs = item_Len_def item_ValidRange_def item_WriteTo_def item_WriteToRange_def
  item_ready_def item_body_def

context sink
begin

lemma ref_item: "cached_item wr contents good (item_ready fs e) (item_body fs e) (item_Len e)
    (item_ValidRange e) (item_WriteTo True fs e wr) (item_WriteToRange True fs e wr)"
proof (unfold_locales, goal_cases)
  case (1 i)
  then show ?case by (cases i) (simp_all add: item_ref_defs mem.len_body disk.len_body)
next
  case (2 i)
  then show ?case by (cases i) (simp_all add: item_ref_defs mem.len_bound [simplified] disk.len_bound [simplified])
next
  case (3 i s e)
  show ?case by (cases i) (simp_all add: item_ref_defs mem.vrange_is disk.vrange_is)
next
  case (4 i w)
  then show ?case
    by (cases i) (simp_all add: item_ref_defs mem.write_to_law [simplified] disk.write_to_law [simplified])
next
  case (5 i w f t)
  then show ?case
    by (cases i) (simp_all add: item_ref_defs mem.write_to_range_law [simplified]
      disk.write_to_range_law [simplified])
qed

end

sublocale sink \<subseteq> ref: cached_item wr contents good "item_ready fs e" "item_body fs e" "item_Len e"
    "item_ValidRange e" "item_WriteTo True fs e wr" "item_WriteToRange True fs e wr" for fs e
  by (rule ref_item)

text \<open>Marking an item as in use, and releasing it, leaves it as readable as it was.\<close>

lemma im_use [simp]:
  "im_ready (itm\<lparr>im_inUse := n, im_HIT := k\<rparr>) = im_ready itm"
  "im_content (itm\<lparr>im_inUse := n, im_HIT := k\<rparr>) = im_content itm"
  "itemMem_Len (itm\<lparr>im_inUse := n, im_HIT := k\<rparr>) = itemMem_Len itm"
  "itemMem_GetStatusCode (itm\<lparr>im_inUse := n, im_HIT := k\<rparr>) = itemMem_GetStatusCode itm"
  "itemMem_GetHeader (itm\<lparr>im_inUse := n, im_HIT := k\<rparr>) = itemMem_GetHeader itm"
  by (simp_all add: im_ready_def im_ok_def im_content_def itemMem_Len_def
    itemMem_GetStatusCode_def itemMem_GetHeader_def cong: option.case_cong)

lemma id_use [simp]:
  "id_ready fs (itd\<lparr>id_inUse := n, id_HIT := k\<rparr>) = id_ready fs itd"
  "id_body fs (itd\<lparr>id_inUse := n, id_HIT := k\<rparr>) = id_body fs itd"
  "itemDisk_Len (itd\<lparr>id_inUse := n, id_HIT := k\<rparr>) = itemDisk_Len itd"
  "itemDisk_GetStatusCode (itd\<lparr>id_inUse := n, id_HIT := k\<rparr>) = itemDisk_GetStatusCode itd"
  "itemDisk_GetHeader fs (itd\<lparr>id_inUse := n, id_HIT := k\<rparr>) = itemDisk_GetHeader fs itd"
  by (simp_all add: id_ready_def id_body_def itemDisk_Len_def
    itemDisk_GetStatusCode_def itemDisk_GetHeader_def cong: option.case_cong)

lemma item_pin [simp]:
  "item_ready fs (env_pin r e) x = item_ready fs e x"
  "item_body fs (env_pin r e) x = item_body fs e x"
  "item_Len (env_pin r e) x = item_Len e x"
  "item_GetStatusCode (env_pin r e) x = item_GetStatusCode e x"
  "item_GetHeader fs (env_pin r e) x = item_GetHeader fs e x"
  by (cases r; cases x; simp add: env_pin_def item_ref_defs item_GetStatusCode_def item_GetHeader_def)+

lemma item_GetHIT_pin: "item_GetHIT (env_pin r e) r = item_GetHIT e r + 1"
  by (cases r) (simp_all add: env_pin_def item_GetHIT_def itemMem_GetHIT_def itemDisk_GetHIT_def)

text \<open>A lookup and its release: the hit is counted, and nothing else has changed.\<close>

lemma env_Done_pin:
  "env_Done r (env_pin r e) =
     (case r of
        VMem a \<Rightarrow> e\<lparr>ie_mem := (ie_mem e)(a := (ie_mem e a)\<lparr>im_HIT := im_HIT (ie_mem e a) + 1\<rparr>)\<rparr>
      | VDisk a \<Rightarrow> e\<lparr>ie_disk := (ie_disk e)(a := (ie_disk e a)\<lparr>id_HIT := id_HIT (ie_disk e a) + 1\<rparr>)\<rparr>)"
  by (cases r) (simp_all add: env_Done_def env_pin_def itemMem_Done_def itemDisk_Done_def)

end
