(* ===== verification/Http_Log.thy ===== *)
theory Http_Log
  imports Cache_Rules Go_IO
begin

text \<open>
  \<open>httpsrv/httplog\<close>: the log entry of a request, which gives the key the response is cached
  under, and which wraps the response writer to count what is sent. The socket that entries
  are published on and the Prometheus metrics are left out; the classification of user agents
  is the third-party function \<open>ua\<close>.
\<close>

record http_request = request +
  hr_RemoteAddr :: string
  hr_Proto :: string
  hr_ProtoMajor :: int
  hr_Host :: string
  hr_TLS :: bool
  hr_Scheme :: string
  hr_User :: "string option"
  hr_RawQuery :: string
  hr_ContentLength :: int

definition schemaHTTP :: string where "schemaHTTP = ''http''"
definition schemaHTTPS :: string where "schemaHTTPS = ''https''"

section \<open>The response writer\<close>

text \<open>
  What a handler can do to a response: change the header, send the status, which fixes the
  header that goes out, and send the body. A body without a status is sent with status 200.
\<close>

record resp_writer =
  rw_Header :: header
  rw_Sent :: "(int \<times> header) option"
  rw_Body :: "byte list"

definition rw_WriteHeader :: "int \<Rightarrow> resp_writer \<Rightarrow> resp_writer" where
  "rw_WriteHeader code w =
     (case rw_Sent w of None \<Rightarrow> w\<lparr>rw_Sent := Some (code, rw_Header w)\<rparr> | Some _ \<Rightarrow> w)"

definition rw_Write :: "byte list \<Rightarrow> resp_writer \<Rightarrow> int \<times> lsm_error option \<times> resp_writer" where
  "rw_Write b w = (let w' = rw_WriteHeader 200 w in (int (length b), None, w'\<lparr>rw_Body := rw_Body w' @ b\<rparr>))"

section \<open>The log entry\<close>

record httpLog =
  hl_ClientIP :: string
  hl_Proto :: string
  hl_TLS :: bool
  hl_Method :: string
  hl_StatusCode :: int
  hl_Schema :: string
  hl_Host :: string
  hl_User :: string
  hl_URL :: string
  hl_UserAgent :: string
  hl_Cookies :: int
  hl_ReqBytes :: int
  hl_RespBytes :: int
  hl_HIT :: bool
  hl_RateLimit :: bool
  hl_Device :: int
  hl_CustomTags :: "string list"
  hl_w :: resp_writer

definition httplog_New :: "(string \<Rightarrow> int) \<Rightarrow> http_request \<Rightarrow> resp_writer \<Rightarrow> httpLog" where
  "httplog_New ua r w =
     (let schema = (if hr_Scheme r = [] then if \<not> hr_TLS r then schemaHTTP else schemaHTTPS else []);
          localHost = (case SplitHostPort (hr_Host r) of None \<Rightarrow> hr_Host r | Some (h, _) \<Rightarrow> h);
          agent = header_Get (rq_Header r) ''User-Agent'';
          url = schema @ ''://'' @ hr_Host r @ rq_Path r in
      \<lparr>hl_ClientIP = (case SplitHostPort (hr_RemoteAddr r) of None \<Rightarrow> [] | Some (h, _) \<Rightarrow> h),
       hl_Proto = hr_Proto r, hl_TLS = hr_TLS r, hl_Method = rq_Method r, hl_StatusCode = 0,
       hl_Schema = schema, hl_Host = (if localHost = [] then hr_Host r else localHost),
       hl_User = (case hr_User r of None \<Rightarrow> [] | Some u \<Rightarrow> u),
       hl_URL = (if hr_RawQuery r \<noteq> [] then url @ ''?'' @ hr_RawQuery r else url),
       hl_UserAgent = agent, hl_Cookies = int (length (req_Cookies (request.truncate r))),
       hl_ReqBytes = hr_ContentLength r, hl_RespBytes = 0, hl_HIT = False, hl_RateLimit = False,
       hl_Device = ua agent, hl_CustomTags = [], hl_w = w\<rparr>)"

definition GetKeyStrDevice :: "httpLog \<Rightarrow> int \<Rightarrow> string" where
  "GetKeyStrDevice hl device = Itoa device @ hl_Method hl @ hl_URL hl"

definition GetKeyStr :: "httpLog \<Rightarrow> string" where
  "GetKeyStr hl = GetKeyStrDevice hl (hl_Device hl)"

text \<open>The writer: \<open>fnHeaders\<close> gives the tags and may change the header before it is sent.\<close>

definition hl_Header :: "httpLog \<Rightarrow> header" where
  "hl_Header hl = rw_Header (hl_w hl)"

definition hl_set_header :: "header \<Rightarrow> httpLog \<Rightarrow> httpLog" where
  "hl_set_header h hl = hl\<lparr>hl_w := (hl_w hl)\<lparr>rw_Header := h\<rparr>\<rparr>"

definition hl_Write :: "byte list \<Rightarrow> httpLog \<Rightarrow> int \<times> lsm_error option \<times> httpLog" where
  "hl_Write b hl =
     (case rw_Write b (hl_w hl) of
        (n, err, w) \<Rightarrow> (n, err, hl\<lparr>hl_w := w, hl_RespBytes := hl_RespBytes hl + n\<rparr>))"

definition hl_WriteHeader ::
  "(resp_writer \<Rightarrow> string list \<times> resp_writer) \<Rightarrow> int \<Rightarrow> httpLog \<Rightarrow> httpLog" where
  "hl_WriteHeader fnHeaders code hl =
     (case fnHeaders (hl_w hl) of
        (tags, w) \<Rightarrow> hl\<lparr>hl_StatusCode := code, hl_CustomTags := tags, hl_w := rw_WriteHeader code w\<rparr>)"

text \<open>
  \<open>Done\<close> stops the clock, counts the request in the metrics and offers the entry to the channel
  \<open>msgCh\<close> of two entries: a full channel drops it.
\<close>

definition msgCh_size :: nat where "msgCh_size = 2"

definition hl_Done :: "httpLog list \<times> httpLog list \<Rightarrow> httpLog \<Rightarrow> httpLog list \<times> httpLog list" where
  "hl_Done s hl =
     (case s of (metrics, msgCh) \<Rightarrow>
        (metrics @ [hl], if length msgCh < msgCh_size then msgCh @ [hl] else msgCh))"

text \<open>Once the status is sent, the log entry is a sink that keeps what it was sent.\<close>

definition hl_body :: "httpLog \<Rightarrow> byte list" where
  "hl_body hl = rw_Body (hl_w hl)"

definition hl_rest :: "httpLog \<Rightarrow> httpLog" where
  "hl_rest hl = hl\<lparr>hl_w := (hl_w hl)\<lparr>rw_Body := []\<rparr>, hl_RespBytes := 0\<rparr>"

text \<open>The status \<open>s\<close> was sent, and nothing but the body and its length differs from \<open>hl0\<close>.\<close>

definition hl_sending :: "int \<times> header \<Rightarrow> httpLog \<Rightarrow> httpLog \<Rightarrow> bool" where
  "hl_sending s hl0 hl \<longleftrightarrow> rw_Sent (hl_w hl) = Some s \<and> hl_rest hl = hl_rest hl0 \<and>
     hl_RespBytes hl = int (length (hl_body hl))"

interpretation hlog: sink hl_Write hl_body "hl_sending s hl0" for s hl0
  by unfold_locales
    (auto simp: hl_Write_def rw_Write_def rw_WriteHeader_def hl_sending_def hl_body_def hl_rest_def Let_def)

end
