(* ===== verification/Handler.thy ===== *)
theory Handler
  imports Item_Ref Handler_Range Http_Log
begin

text \<open>
  \<open>httpsrv/handler\<close>: what happens to a request. \<open>respondFromCache\<close> answers from the cache;
  \<open>reverseProxy\<close> asks the backend and, on the way back, \<open>modifyResponse\<close> stores the response;
  \<open>ServeHTTP\<close> chooses between them.

  The result of a call is one of four: it returns, panics, does not return, or has come to a
  header that is parsed from bytes that are handed out twice (see \<open>Item_Disk\<close>), which is not
  followed.
\<close>

datatype 'a outcome = Returns 'a | Panics | Stuck | Rereads

definition limitRange :: int where "limitRange = 1024 * 1024"
definition defaultRateLimit :: int where "defaultRateLimit = 8"

definition privateHeaders :: "string list" where
  "privateHeaders = [''Set-Cache'', ''Proxy-Authenticate'', ''WWW-Authenticate'']"

text \<open>The classes of devices of \<open>uaDeviceCleaner\<close>: its length is what counts.\<close>

datatype device = DeviceUnknown | DeviceComputer | DeviceTablet | DevicePhone | DeviceConsole

definition uaDeviceCleaner :: "device list" where
  "uaDeviceCleaner = [DeviceUnknown, DeviceComputer, DeviceTablet, DevicePhone, DeviceConsole]"

record handler_config =
  BackendHost :: string
  BackendPort :: string
  BackendTLSHost :: string
  BackendTLSPort :: string
  BackendOnce :: bool
  DomainSuffix :: string
  RateLimit :: int
  ReqRemoveHeaders :: "string list"
  RespRemoveHeaders :: "string list"
  CustomTags :: "string list"
  CacheRules :: rules
  Cache :: "duration option"

text \<open>Of the configuration of the cache, \<open>nil\<close> or not, only \<open>MinLSMTTL\<close> is used.\<close>

record handler =
  hd_rules :: rules
  hd_cfg :: handler_config
  hd_cache :: lsm
  hd_log :: "httpLog list \<times> httpLog list"

definition handler_New ::
  "(addr \<Rightarrow> itemMem) \<Rightarrow> vfiles \<Rightarrow> handler_config \<Rightarrow> handler go" where
  "handler_New mems fs cfg =
     (case Cache cfg of
        None \<Rightarrow> None
      | Some minTTL \<Rightarrow>
          Some \<lparr>hd_rules = CacheRules cfg,
            hd_cfg = (if RateLimit cfg = 0 then cfg\<lparr>RateLimit := defaultRateLimit\<rparr> else cfg),
            hd_cache = lsm_New minTTL mems fs, hd_log = ([], [])\<rparr>)"

text \<open>The rules in use, \<open>handler.rules\<close>, are not those of the new configuration.\<close>

definition handler_Reload :: "handler_config \<Rightarrow> handler \<Rightarrow> handler go" where
  "handler_Reload cfg h =
     (case Cache cfg of
        None \<Rightarrow> None
      | Some minTTL \<Rightarrow> Some (h\<lparr>hd_cfg := cfg, hd_cache := lsm_Reload minTTL (hd_cache h)\<rparr>))"

text \<open>What the log entry calls when the status is sent.\<close>

definition handler_customTags :: "handler_config \<Rightarrow> resp_writer \<Rightarrow> string list \<times> resp_writer" where
  "handler_customTags cfg w =
     (map (header_Get (rw_Header w)) (CustomTags cfg),
      w\<lparr>rw_Header := fold header_Del (RespRemoveHeaders cfg) (rw_Header w)\<rparr>)"

section \<open>Answers from the cache\<close>

fun Join :: "string list \<Rightarrow> string \<Rightarrow> string" where
  "Join [] sep = []"
| "Join [x] sep = x"
| "Join (x # y # xs) sep = x @ sep @ Join (y # xs) sep"

definition hl_set :: "string \<Rightarrow> string \<Rightarrow> httpLog \<Rightarrow> httpLog" where
  "hl_set k v hl = hl_set_header (header_Set k v (hl_Header hl)) hl"

definition hl_print :: "string \<Rightarrow> httpLog \<Rightarrow> httpLog" where
  "hl_print s hl = snd (snd (hl_Write (bytes_of s) hl))"

text \<open>
  The header of a cached response. \<open>ok\<close> is what the cache says about the expiry: true when the
  response has expired.
\<close>

definition cache_headers :: "items_env \<Rightarrow> item_ref \<Rightarrow> bool \<Rightarrow> header \<Rightarrow> httpLog \<Rightarrow> httpLog" where
  "cache_headers e it ok headers w =
     (let w1 = (if \<not> ok then hl_set ''X-Expired'' ''false'' w else w);
          w2 = fold (\<lambda>(k, v). hl_set k (Join v '', '')) headers w1 in
      hl_set ''Age'' (Itoa (uint (item_GetHIT e it)))
        (hl_set ''Server'' ''elinproxy'' (hl_set ''Accept-Ranges'' ''none'' w2)))"

definition range_error_text :: "range_error \<Rightarrow> string" where
  "range_error_text err = (case err of ErrInvalidRange \<Rightarrow> ''invalid range'' | ErrNoRange \<Rightarrow> ''no range'')"

definition ErrWrongRange_text :: string where
  "ErrWrongRange_text = ''Data is smaller that the range requested''"

definition respond_416 :: "handler_config \<Rightarrow> string \<Rightarrow> httpLog \<Rightarrow> httpLog" where
  "respond_416 cfg err w =
     hl_print err (hl_print [LF] (hl_print ''ERROR 416 // RFC 7233, 4.4''
       (hl_WriteHeader (handler_customTags cfg) 416 w)))"

definition written_item :: "httpLog \<Rightarrow> httpLog io_result \<Rightarrow> bool outcome \<times> httpLog" where
  "written_item w0 res =
     (case res of
        None \<Rightarrow> (Stuck, w0)
      | Some None \<Rightarrow> (Panics, w0)
      | Some (Some (_, _, w)) \<Rightarrow> (Returns True, w))"

definition respond_full ::
  "handler_config \<Rightarrow> bool \<Rightarrow> vfiles \<Rightarrow> items_env \<Rightarrow> item_ref \<Rightarrow> httpLog \<Rightarrow> bool outcome \<times> httpLog" where
  "respond_full cfg open_ok fs e it w =
     (let w1 = hl_set ''Content-Length'' (Itoa (item_Len e it)) w;
          w2 = hl_WriteHeader (handler_customTags cfg) (item_GetStatusCode e it) w1 in
      written_item w2 (item_WriteTo open_ok fs e hl_Write it w2))"

definition respond_range ::
  "handler_config \<Rightarrow> bool \<Rightarrow> vfiles \<Rightarrow> items_env \<Rightarrow> item_ref \<Rightarrow> httpRange \<Rightarrow> httpLog
     \<Rightarrow> bool outcome \<times> httpLog" where
  "respond_range cfg open_ok fs e it r w =
     (case item_ValidRange e it (r_start r) (r_length r) of
        Inl err \<Rightarrow> (Returns True, respond_416 cfg ErrWrongRange_text w)
      | Inr (rangeFrom, rangeTo, rangeLength) \<Rightarrow>
          let w1 = hl_set ''Accept-Ranges'' ''bytes'' w;
              w2 = hl_set ''Content-Range'' (''bytes '' @ Itoa rangeFrom @ ''-'' @ Itoa (rangeTo - 1)
                     @ ''/'' @ Itoa (item_Len e it)) w1;
              w3 = hl_set ''Content-Length'' (Itoa rangeLength) w2;
              w4 = hl_WriteHeader (handler_customTags cfg) 206 w3 in
          written_item w4 (item_WriteToRange open_ok fs e hl_Write it rangeFrom rangeTo w4))"

definition respond_item ::
  "handler_config \<Rightarrow> bool \<Rightarrow> vfiles \<Rightarrow> items_env \<Rightarrow> item_ref \<Rightarrow> string \<Rightarrow> httpLog
     \<Rightarrow> bool outcome \<times> httpLog" where
  "respond_item cfg open_ok fs e it rangeHeader w =
     (case (if rangeHeader \<noteq> [] then parseRange rangeHeader limitRange (item_Len e it) else Inr None) of
        Inl err \<Rightarrow> (Returns True, respond_416 cfg (range_error_text err) w)
      | Inr None \<Rightarrow> respond_full cfg open_ok fs e it w
      | Inr (Some rs) \<Rightarrow>
          if item_GetStatusCode e it \<noteq> 200 then respond_full cfg open_ok fs e it w
          else (case rs of [] \<Rightarrow> (Panics, w) | r # _ \<Rightarrow> respond_range cfg open_ok fs e it r w))"

text \<open>
  \<open>respondFromCache\<close>: \<open>defer item.Done()\<close> also runs on a panic, but not in a call that does not
  return.
\<close>

definition respondFromCache ::
  "handler_config \<Rightarrow> bool \<Rightarrow> time \<Rightarrow> u64 \<Rightarrow> http_request \<Rightarrow> httpLog \<Rightarrow> lsm
     \<Rightarrow> bool outcome \<times> httpLog \<times> lsm" where
  "respondFromCache cfg open_ok now key r w s =
     (case lsm_Get now key s of
        None \<Rightarrow> (Panics, w, s)
      | Some (Inl _, s1) \<Rightarrow> (Returns False, w, s1)
      | Some (Inr (it, ok), s1) \<Rightarrow>
          let e = env (ls_mem s1); fs = fl_fs (ls_files s1) in
          case item_GetHeader fs e it of
            Header_nil \<Rightarrow> (Returns False, w, lsm_Done it s1)
          | Header_panics \<Rightarrow> (Panics, w, lsm_Done it s1)
          | Header_rereads \<Rightarrow> (Rereads, w, s1)
          | Header_is headers \<Rightarrow>
              (case respond_item cfg open_ok fs e it (header_Get (rq_Header r) ''Range'')
                      (cache_headers e it ok headers w) of
                 (res, w') \<Rightarrow> (res, w', if res = Stuck then s1 else lsm_Done it s1)))"

section \<open>Requests to the backend\<close>

text \<open>
  The URI that the backend is asked for, made of the decoded path, and the host it is told. The
  URI is parsed again by \<open>net/url\<close>; here it is handed to the backend as it is.
\<close>

definition buildBackendURL :: "handler_config \<Rightarrow> http_request \<Rightarrow> string \<times> http_request" where
  "buildBackendURL cfg req =
     (let uri =
        (if (hr_TLS req \<or> header_Get (rq_Header req) ''X-Forwarded-Protocol'' = ''https'')
            \<and> BackendTLSHost cfg \<noteq> []
         then ''https://'' @ BackendTLSHost cfg @ '':'' @ BackendTLSPort cfg @ rq_Path req
         else ''http://'' @ BackendHost cfg @ '':'' @ BackendPort cfg @ rq_Path req);
          uri' = (if hr_RawQuery req \<noteq> [] then uri @ ''?'' @ hr_RawQuery req else uri);
          host = (case SplitHostPort (hr_Host req) of None \<Rightarrow> hr_Host req | Some (h, _) \<Rightarrow> h) in
      (uri', if HasSuffix host (DomainSuffix cfg)
             then req\<lparr>hr_Host := take (length host - length (DomainSuffix cfg)) host @ '':'' @ BackendPort cfg\<rparr>
             else req))"

definition modifyRequest :: "handler_config \<Rightarrow> http_request \<Rightarrow> http_request" where
  "modifyRequest cfg req =
     (let h1 = fold header_Del (ReqRemoveHeaders cfg) (rq_Header req) in
      req\<lparr>rq_Header := header_Del ''Range'' (header_Set ''Accept-Encoding'' ''gzip'' h1)\<rparr>)"

text \<open>
  A response of the backend: its body, \<open>nil\<close> or the bytes that can be read, and whether reading
  it, or closing it, ends with an error.
\<close>

record http_response = response +
  hp_Body :: "byte list option"
  hp_ReadErr :: bool
  hp_ContentLength :: int
  hp_Close :: bool

text \<open>
  The item as the destination of the copy: the writes consume the outcomes of the system, whether
  a temporary file can be made and how the two writes to it end; when none is left, all succeed.
\<close>

type_synonym item_writer = "(bool \<times> wres \<times> wres) list \<times> itemMem"

definition iw_Write :: "(nat \<Rightarrow> nat \<Rightarrow> nat) \<Rightarrow> item_writer writer" where
  "iw_Write grow b s =
     (case s of (os, itm) \<Rightarrow>
        case (case os of [] \<Rightarrow> (True, W_ok, W_ok) | o1 # _ \<Rightarrow> o1) of
          (tmp_ok, r1, r2) \<Rightarrow>
            (case itemMem_Write grow tmp_ok r1 r2 b itm of (n, err, itm') \<Rightarrow> (n, err, (tl os, itm'))))"

text \<open>The body is read in whole first, then copied into the item, and stays to be sent.\<close>

definition drainBody :: "byte list \<Rightarrow> bool \<Rightarrow> lsm_error + byte list \<times> byte list \<times> int" where
  "drainBody b read_err = (if read_err then Inl ErrOS else Inr (b, b, int (length b)))"

definition DumpResponse ::
  "(nat \<Rightarrow> nat \<Rightarrow> nat) \<Rightarrow> http_response \<Rightarrow> bool \<Rightarrow> item_writer
     \<Rightarrow> lsm_error option \<times> http_response \<times> item_writer" where
  "DumpResponse grow resp body s =
     (let copy = (\<lambda>save src.
            case io_Copy (iw_Write grow) src 0 s of
              (_, Some err, s') \<Rightarrow> (Some err, resp\<lparr>hp_Body := Some []\<rparr>, s')
            | (n, None, s') \<Rightarrow> (None, resp\<lparr>hp_Body := save, hp_ContentLength := n\<rparr>, s')) in
      if \<not> body then
        (if hp_ContentLength resp = 0 then copy (hp_Body resp) []
         else (Some ErrNoBody, resp\<lparr>hp_Body := Some []\<rparr>, s))
      else case hp_Body resp of
          None \<Rightarrow> copy None []
        | Some b \<Rightarrow>
            (case drainBody b (hp_ReadErr resp) of
               Inl err \<Rightarrow> (Some err, resp\<lparr>hp_Body := Some []\<rparr>, s)
             | Inr (save, src, _) \<Rightarrow> copy (Some save) src))"

section \<open>The pool of buffers\<close>

text \<open>
  The buffers that the proxy copies with: the pool gives them out, and takes them back, with
  length zero. Go's proxy makes its own buffer in place of an empty one.
\<close>

definition defaultMinPoolByteSize :: nat where "defaultMinPoolByteSize = 128"
definition defaultMaxPoolByteSize :: nat where "defaultMaxPoolByteSize = 1024 * 1024"

definition bytesPool_Get :: "gslice option \<Rightarrow> gslice" where
  "bytesPool_Get got = (case got of Some b \<Rightarrow> b | None \<Rightarrow> gmake defaultMinPoolByteSize)"

definition bytesPool_Put :: "gslice \<Rightarrow> gslice option" where
  "bytesPool_Put b = (if defaultMaxPoolByteSize \<le> gcap b then None else Some (gtruncate b))"

lemma bytesPool_empty:
  "glen (bytesPool_Get None) = 0" "bytesPool_Put b = Some b' \<Longrightarrow> glen (bytesPool_Get (Some b')) = 0"
  by (auto simp: bytesPool_Get_def bytesPool_Put_def gmake_def gtruncate_def split: if_splits)

text \<open>The log entry as a sink serves every item of the cache.\<close>

interpretation hcache: cached_item hl_Write hl_body "hl_sending s hl0" "item_ready fs e" "item_body fs e"
    "item_Len e" "item_ValidRange e" "item_WriteTo True fs e hl_Write" "item_WriteToRange True fs e hl_Write"
    for s hl0 fs e
  by (rule sink.ref_item [OF hlog.sink_axioms])

end
