(* ===== verification/Http_Log_Props.thy ===== *)
theory Http_Log_Props
  imports Http_Log
begin

text \<open>
  The cache key: different requests get different keys, with one exception that the decoding
  of the path makes possible.
\<close>

definition request_url :: "http_request \<Rightarrow> string" where
  "request_url r = (if hr_TLS r then ''https'' else ''http'') @ ''://'' @ hr_Host r @ rq_Path r @
     (if hr_RawQuery r \<noteq> [] then ''?'' @ hr_RawQuery r else [])"

lemma GetKeyStr_eq:
  assumes "hr_Scheme r = []"
  shows "GetKeyStr (httplog_New ua r w)
    = Itoa (ua (header_Get (rq_Header r) ''User-Agent'')) @ rq_Method r @ request_url r"
  using assms
  by (simp add: GetKeyStr_def GetKeyStrDevice_def httplog_New_def request_url_def Let_def
      schemaHTTP_def schemaHTTPS_def)

lemma Itoa_digit:
  assumes "0 \<le> d" "d < 10"
  shows "Itoa d = [char_of (48 + nat d)]"
  using assms by (simp add: Itoa_def Utoa.simps)

lemma Itoa_digit_inj:
  assumes "0 \<le> d" "d < 10" "0 \<le> e" "e < 10" "Itoa d = Itoa e"
  shows "d = e"
proof -
  have "digit_val (char_of (48 + nat d)) = digit_val (char_of (48 + nat e))"
    using assms by (simp only: Itoa_digit list.inject)
  then show ?thesis using assms digit_char(2) [of "nat d"] digit_char(2) [of "nat e"] by simp
qed

lemma split_at_first:
  assumes "a @ c # b = a' @ c # b'" "c \<notin> set a" "c \<notin> set a'"
  shows "a = a' \<and> b = b'"
  using assms
proof (induction a arbitrary: a')
  case Nil
  then show ?case by (cases a') auto
next
  case (Cons x a)
  then show ?case by (cases a') auto
qed

text \<open>The path and the query, as one string.\<close>

lemma path_query_inj:
  assumes "p @ (if q \<noteq> [] then ''?'' @ q else []) = p' @ (if q' \<noteq> [] then ''?'' @ q' else [])"
    and "CHR ''?'' \<notin> set p" "CHR ''?'' \<notin> set p'"
  shows "p = p' \<and> q = q'"
proof (cases "q = []"; cases "q' = []")
  assume "q \<noteq> []" "q' \<noteq> []"
  then show ?thesis using assms split_at_first [of p "CHR ''?''" q p' q'] by simp
next
  assume *: "q = []" "q' \<noteq> []"
  then have "p = p' @ ''?'' @ q'" using assms(1) by simp
  then have "CHR ''?'' \<in> set p" by simp
  then show ?thesis using assms(2) by contradiction
next
  assume *: "q \<noteq> []" "q' = []"
  then have "p' = p @ ''?'' @ q" using assms(1) by simp
  then have "CHR ''?'' \<in> set p'" by simp
  then show ?thesis using assms(3) by contradiction
qed (use assms(1) in simp)

definition key_request :: "(string \<Rightarrow> int) \<Rightarrow> http_request \<Rightarrow> bool" where
  "key_request ua r \<longleftrightarrow> hr_Scheme r = [] \<and> rq_Method r \<in> {''GET'', ''HEAD''} \<and>
     CHR ''/'' \<notin> set (hr_Host r) \<and> (\<exists>p. rq_Path r = CHR ''/'' # p \<and> CHR ''?'' \<notin> set p) \<and>
     0 \<le> ua (header_Get (rq_Header r) ''User-Agent'') \<and>
     ua (header_Get (rq_Header r) ''User-Agent'') < 10"


definition demo_http_request :: "string \<Rightarrow> string \<Rightarrow> http_request" where
  "demo_http_request path query = \<lparr>rq_Method = ''GET'', rq_Path = path, rq_Header = [],
     hr_RemoteAddr = ''10.0.0.1:4000'', hr_Proto = ''HTTP/1.1'', hr_ProtoMajor = 1,
     hr_Host = ''example.com'', hr_TLS = False, hr_Scheme = [], hr_User = None,
     hr_RawQuery = query, hr_ContentLength = 0\<rparr>"

definition demo_writer :: resp_writer where
  "demo_writer = \<lparr>rw_Header = [], rw_Sent = None, rw_Body = []\<rparr>"


text \<open>
  The key is made of the decoded path: a request for a path with an encoded question mark
  shares the key, and the cached response, with the request for the part before it with the
  part after it as its query.
\<close>

theorem GetKeyStr_collision:
  assumes "hr_Scheme r = []" "hr_Scheme r' = []" "rq_Method r = rq_Method r'" "hr_Host r = hr_Host r'"
    and "hr_TLS r = hr_TLS r'" "rq_Header r = rq_Header r'"
    and "rq_Path r = p @ ''?'' @ q" "hr_RawQuery r = []" "rq_Path r' = p" "hr_RawQuery r' = q" "q \<noteq> []"
  shows "GetKeyStr (httplog_New ua r w) = GetKeyStr (httplog_New ua r' w')"
  using assms by (simp add: GetKeyStr_eq request_url_def)

theorem GetKeyStr_collision_witness:
  "GetKeyStr (httplog_New (\<lambda>_. 1) (demo_http_request ''/a?b'' []) demo_writer)
     = GetKeyStr (httplog_New (\<lambda>_. 1) (demo_http_request ''/a'' ''b'') demo_writer)"
  by (rule GetKeyStr_collision [of _ _ "''/a''" "''b''"]) (simp_all add: demo_http_request_def)

end
