(* ===== verification/Handler_Cache_Props.thy ===== *)
theory Handler_Cache_Props
  imports Handler LSM_Props Http_Log_Props
begin

text \<open>
  What \<open>respondFromCache\<close> sends: the status, header and body of a cached response, the bytes of
  a range with the length that is announced, and nothing when there is no response. The lemmas
  are about any item that provides the interface of cached items.
\<close>

section \<open>Headers\<close>

lemma header_Get_Set [simp]:
  "header_Get (header_Set k v h) k' = (if canonical_key k' = canonical_key k then v else header_Get h k')"
  by (simp add: header_Get_def map_of_header_Set)

definition removed :: "handler_config \<Rightarrow> string \<Rightarrow> bool" where
  "removed cfg k \<longleftrightarrow> canonical_key k \<in> canonical_key ` set (RespRemoveHeaders cfg)"

lemma map_of_fold_Del:
  "map_of (fold header_Del ks h) k = (if k \<in> canonical_key ` set ks then None else map_of h k)"
  by (induction ks arbitrary: h) (auto simp: map_of_header_Del)

lemma header_Get_fold_Del:
  "header_Get (fold header_Del ks h) k
     = (if canonical_key k \<in> canonical_key ` set ks then [] else header_Get h k)"
  by (simp add: header_Get_def map_of_fold_Del)

lemma header_Get_removed:
  "\<not> removed cfg k \<Longrightarrow> header_Get (fold header_Del (RespRemoveHeaders cfg) h) k = header_Get h k"
  by (simp add: removed_def header_Get_fold_Del)

definition stored_headers :: "header \<Rightarrow> header \<Rightarrow> header" where
  "stored_headers hs h = fold (\<lambda>(k, v). header_Set k (Join v '', '')) hs h"

lemma stored_headers_other:
  "canonical_key k \<notin> (canonical_key \<circ> fst) ` set hs \<Longrightarrow> header_Get (stored_headers hs h) k = header_Get h k"
proof (induction hs arbitrary: h)
  case Nil
  then show ?case by (simp add: stored_headers_def)
next
  case (Cons kv hs)
  obtain k0 v0 where kv: "kv = (k0, v0)" by (cases kv)
  have "stored_headers (kv # hs) h = stored_headers hs (header_Set k0 (Join v0 '', '') h)"
    by (simp add: stored_headers_def kv)
  then show ?case using Cons kv by simp
qed

lemma stored_headers_get:
  assumes "(k, v) \<in> set hs" "distinct (map (canonical_key \<circ> fst) hs)"
  shows "header_Get (stored_headers hs h) k = Join v '', ''"
  using assms
proof (induction hs arbitrary: h)
  case Nil
  then show ?case by simp
next
  case (Cons kv hs)
  obtain k0 v0 where kv: "kv = (k0, v0)" by (cases kv)
  have st: "stored_headers (kv # hs) h = stored_headers hs (header_Set k0 (Join v0 '', '') h)"
    by (simp add: stored_headers_def kv)
  show ?case
  proof (cases "(k, v) \<in> set hs")
    case True
    then show ?thesis using Cons st by simp
  next
    case False
    then have "k = k0" "v = v0" using Cons.prems(1) kv by auto
    then show ?thesis using stored_headers_other [of k hs] Cons.prems(2) st kv by simp
  qed
qed

section \<open>The writer\<close>

text \<open>A log entry through which nothing was sent yet.\<close>

definition fresh_log :: "httpLog \<Rightarrow> bool" where
  "fresh_log w \<longleftrightarrow> rw_Sent (hl_w w) = None \<and> rw_Body (hl_w w) = [] \<and> hl_RespBytes w = 0"

lemma hl_set [simp]:
  "fresh_log (hl_set k v w) = fresh_log w"
  "hl_Header (hl_set k v w) = header_Set k v (hl_Header w)"
  by (simp_all add: hl_set_def hl_set_header_def hl_Header_def fresh_log_def)

lemma fold_hl_set:
  "fresh_log (fold (\<lambda>(k, v). hl_set k (Join v '', '')) hs w) = fresh_log w \<and>
   hl_Header (fold (\<lambda>(k, v). hl_set k (Join v '', '')) hs w) = stored_headers hs (hl_Header w)"
proof (induction hs arbitrary: w)
  case Nil
  show ?case by (simp add: stored_headers_def)
next
  case (Cons kv hs)
  obtain k v where kv: "kv = (k, v)" by (cases kv)
  show ?case using Cons.IH [of "hl_set k (Join v '', '') w"] unfolding kv stored_headers_def by simp
qed

lemma cache_headers [simp]:
  "fresh_log (cache_headers e it ok hs w) = fresh_log w"
  "hl_Header (cache_headers e it ok hs w) =
     header_Set ''Age'' (Itoa (uint (item_GetHIT e it))) (header_Set ''Server'' ''elinproxy''
       (header_Set ''Accept-Ranges'' ''none''
         (stored_headers hs (if ok then hl_Header w else header_Set ''X-Expired'' ''false'' (hl_Header w)))))"
proof -
  define w1 where "w1 = (if \<not> ok then hl_set ''X-Expired'' ''false'' w else w)"
  have w1: "fresh_log w1 = fresh_log w"
    "hl_Header w1 = (if ok then hl_Header w else header_Set ''X-Expired'' ''false'' (hl_Header w))"
    unfolding w1_def by (cases ok; simp)+
  show "fresh_log (cache_headers e it ok hs w) = fresh_log w"
    unfolding cache_headers_def Let_def w1_def [symmetric] hl_set fold_hl_set [THEN conjunct1] by (rule w1)
  show "hl_Header (cache_headers e it ok hs w) =
     header_Set ''Age'' (Itoa (uint (item_GetHIT e it))) (header_Set ''Server'' ''elinproxy''
       (header_Set ''Accept-Ranges'' ''none''
         (stored_headers hs (if ok then hl_Header w else header_Set ''X-Expired'' ''false'' (hl_Header w)))))"
    unfolding cache_headers_def Let_def w1_def [symmetric] hl_set fold_hl_set [THEN conjunct2] w1(2) by (rule refl)
qed

definition sent_header :: "handler_config \<Rightarrow> httpLog \<Rightarrow> header" where
  "sent_header cfg w = fold header_Del (RespRemoveHeaders cfg) (hl_Header w)"

lemma WriteHeader_sending:
  fixes cfg code
  assumes "fresh_log w"
  defines "w1 \<equiv> hl_WriteHeader (handler_customTags cfg) code w"
  shows "hl_sending (code, sent_header cfg w) w1 w1" "hl_body w1 = []" "hl_StatusCode w1 = code"
  using assms by (simp_all add: hl_WriteHeader_def handler_customTags_def hl_sending_def fresh_log_def
      hl_body_def rw_WriteHeader_def sent_header_def hl_Header_def)

text \<open>What has been sent: the status, the header and the body.\<close>

definition answer :: "httpLog \<Rightarrow> (int \<times> header) option \<times> byte list" where
  "answer w = (rw_Sent (hl_w w), hl_body w)"

lemma hl_sending_answer: "hl_sending s w0 w \<Longrightarrow> answer w = (Some s, hl_body w)"
  by (simp add: hl_sending_def answer_def)

lemma hl_print_sending:
  assumes "hl_sending s w0 w"
  shows "hl_sending s w0 (hl_print b w) \<and> hl_body (hl_print b w) = hl_body w @ bytes_of b"
proof -
  obtain w' where "hl_Write (bytes_of b) w = (int (length (bytes_of b)), None, w')"
    "hl_sending s w0 w'" "hl_body w' = hl_body w @ bytes_of b"
    by (rule hlog.writeE [OF assms])
  then show ?thesis by (simp add: hl_print_def)
qed

lemma respond_416:
  assumes "fresh_log w"
  shows "answer (respond_416 cfg err w) = (Some (416, sent_header cfg w),
     bytes_of (''ERROR 416 // RFC 7233, 4.4'' @ [LF] @ err))"
proof -
  let ?w = "hl_WriteHeader (handler_customTags cfg) 416 w"
  note s = WriteHeader_sending [OF assms, where code = 416 and cfg = cfg]
  note p = hl_print_sending [OF s(1), of "''ERROR 416 // RFC 7233, 4.4''"]
  note q = hl_print_sending [OF p [THEN conjunct1], of "[LF]"]
  note r = hl_print_sending [OF q [THEN conjunct1], of err]
  show ?thesis unfolding respond_416_def
    using hl_sending_answer [OF r [THEN conjunct1]] p q r s(2) by (simp add: bytes_of_def)
qed

section \<open>The answers\<close>

lemma respond_full:
  assumes "item_ready fs e it" "fresh_log w"
  shows "\<exists>w'. respond_full cfg True fs e it w = (Returns True, w') \<and>
    answer w' = (Some (item_GetStatusCode e it,
        sent_header cfg (hl_set ''Content-Length'' (Itoa (item_Len e it)) w)), item_body fs e it)"
proof -
  let ?w1 = "hl_set ''Content-Length'' (Itoa (item_Len e it)) w"
  have "fresh_log ?w1" using assms(2) by simp
  note s = WriteHeader_sending [OF this, where code = "item_GetStatusCode e it" and cfg = cfg]
  from hcache.write_to_law [OF assms(1) s(1)] s(2) hl_sending_answer show ?thesis
    by (fastforce simp: respond_full_def Let_def written_item_def)
qed

lemma item_Len_body: "item_ready fs e it \<Longrightarrow> item_Len e it = int (length (item_body fs e it))"
  by (rule buf.ref.len_body)

lemma respond_range:
  assumes "item_ready fs e it" "fresh_log w"
    and "0 \<le> r_start r" "r_start r \<le> r_length r" "r_start r < item_Len e it"
  defines "n \<equiv> min (r_length r + 1) (item_Len e it) - r_start r"
  shows "\<exists>w'. respond_range cfg True fs e it r w = (Returns True, w') \<and> 0 < n \<and>
    answer w' = (Some (206, sent_header cfg (hl_set ''Content-Length'' (Itoa n)
        (hl_set ''Content-Range'' (''bytes '' @ Itoa (r_start r) @ ''-'' @ Itoa (r_start r + n - 1)
          @ ''/'' @ Itoa (item_Len e it)) (hl_set ''Accept-Ranges'' ''bytes'' w)))),
      take (nat n) (drop (nat (r_start r)) (item_body fs e it)))"
proof -
  define w1 where "w1 = hl_set ''Content-Length'' (Itoa n)
        (hl_set ''Content-Range'' (''bytes '' @ Itoa (r_start r) @ ''-'' @ Itoa (r_start r + n - 1)
          @ ''/'' @ Itoa (item_Len e it)) (hl_set ''Accept-Ranges'' ''bytes'' w))"
  define w2 where "w2 = hl_WriteHeader (handler_customTags cfg) 206 w1"
  have "fresh_log w1" using assms(2) by (simp add: w1_def)
  note s = WriteHeader_sending [OF this, where code = 206 and cfg = cfg, folded w2_def]
  obtain t n' w' where v: "item_ValidRange e it (r_start r) (r_length r) = Inr (r_start r, t, n')"
    and n': "n' = min (r_length r + 1) (item_Len e it) - r_start r" "0 < n'"
    and w': "item_WriteToRange True fs e hl_Write it (r_start r) t w2 = Some (Some (n', None, w'))"
      "hl_sending (206, sent_header cfg w1) w2 w'"
      "hl_body w' = hl_body w2 @ take (nat n') (drop (nat (r_start r)) (item_body fs e it))"
    by (rule hcache.range_served [OF assms(1) s(1) assms(3-5)])
  have t: "t = r_start r + n"
    using v n' buf.ref.vrange_is [of e it "r_start r" "r_length r"]
      valid_range_satisfiable [OF assms(3-5)] buf.ref.len_bound [OF assms(1)] by (simp add: n_def)
  have nn: "n' = n" using n' by (simp add: n_def)
  have "respond_range cfg True fs e it r w = (Returns True, w')"
    using v w'(1) unfolding respond_range_def t nn w2_def w1_def
    by (simp only: sum.case prod.case Let_def written_item_def option.case add_diff_eq)
  then show ?thesis using n' nn w' s(2) hl_sending_answer [OF w'(2)] by (simp add: w1_def)
qed


section \<open>A cached response\<close>

lemma lsm_Get_found:
  "lsm_lookup now key s = Some (Some (it, x)) \<Longrightarrow> lsm_Get now key s = Some (Inr (it, x), lsm_pin it s)"
  by (simp add: lsm_Get_def)

lemma lsm_pin_parts [simp]:
  "env (ls_mem (lsm_pin it s)) = env_pin it (env (ls_mem s))" "ls_files (lsm_pin it s) = ls_files s"
  by (simp_all add: lsm_pin_def)

lemma respondFromCache_found:
  assumes "lsm_lookup now key s = Some (Some (it, x))"
    and "item_GetHeader (fl_fs (ls_files s)) (env (ls_mem s)) it = Header_is hs"
    and "respond_item cfg open_ok (fl_fs (ls_files s)) (env_pin it (env (ls_mem s))) it
      (header_Get (rq_Header r) ''Range'') (cache_headers (env_pin it (env (ls_mem s))) it x hs w) = (res, w')"
  shows "respondFromCache cfg open_ok now key r w s =
    (res, w', if res = Stuck then lsm_pin it s else lsm_Done it (lsm_pin it s))"
  using assms by (simp add: respondFromCache_def lsm_Get_found Let_def)

text \<open>The headers that an answer from the cache sets itself, in canonical form.\<close>

definition own_headers :: "string list" where
  "own_headers = [''Accept-Ranges'', ''Server'', ''Age'', ''Content-Length'', ''Content-Range'']"

lemma own_canonical:
  "canonical_key ''Accept-Ranges'' = ''Accept-Ranges''" "canonical_key ''Server'' = ''Server''"
  "canonical_key ''Age'' = ''Age''" "canonical_key ''Content-Length'' = ''Content-Length''"
  "canonical_key ''Content-Range'' = ''Content-Range''"
  by code_simp+

lemma cached_header_kept:
  assumes "(k, v) \<in> set hs" "distinct (map (canonical_key \<circ> fst) hs)" "canonical_key k \<notin> set own_headers"
  shows "header_Get (hl_Header (cache_headers e it x hs w)) k = Join v '', ''"
proof -
  have ne: "canonical_key k \<noteq> canonical_key ''Age''" "canonical_key k \<noteq> canonical_key ''Server''"
    "canonical_key k \<noteq> canonical_key ''Accept-Ranges''"
    unfolding own_canonical using assms(3) by (auto simp: own_headers_def)
  show ?thesis
    unfolding cache_headers(2) header_Get_Set using ne stored_headers_get [OF assms(1,2)] by simp
qed

lemma served_full:
  assumes "lsm_lookup now key s = Some (Some (it, x))" "item_ready (fl_fs (ls_files s)) (env (ls_mem s)) it"
    and "item_GetHeader (fl_fs (ls_files s)) (env (ls_mem s)) it = Header_is hs"
    and "header_Get (rq_Header r) ''Range'' = []" "fresh_log w"
  obtains w' w1 where
    "respondFromCache cfg True now key r w s = (Returns True, w', lsm_Done it (lsm_pin it s))"
    "answer w' = (Some (item_GetStatusCode (env (ls_mem s)) it, sent_header cfg w1),
       item_body (fl_fs (ls_files s)) (env (ls_mem s)) it)"
    "w1 = hl_set ''Content-Length'' (Itoa (int (length (item_body (fl_fs (ls_files s)) (env (ls_mem s)) it))))
       (cache_headers (env_pin it (env (ls_mem s))) it x hs w)"
proof -
  let ?fs = "fl_fs (ls_files s)" and ?e = "env (ls_mem s)"
  let ?e' = "env_pin it ?e"
  let ?w0 = "cache_headers ?e' it x hs w"
  let ?w1 = "hl_set ''Content-Length'' (Itoa (item_Len ?e' it)) ?w0"
  have "item_ready ?fs ?e' it" "fresh_log ?w0" using assms by simp_all
  from respond_full [OF this, of cfg] obtain w' where
    w': "respond_full cfg True ?fs ?e' it ?w0 = (Returns True, w')"
      "answer w' = (Some (item_GetStatusCode ?e it, sent_header cfg ?w1), item_body ?fs ?e it)" by auto
  have "respondFromCache cfg True now key r w s = (Returns True, w', lsm_Done it (lsm_pin it s))"
    using respondFromCache_found [OF assms(1,3), of cfg True r w "Returns True" w'] assms(4) w'(1)
    by (simp add: respond_item_def)
  moreover have "item_Len ?e' it = int (length (item_body ?fs ?e it))"
    using item_Len_body [OF assms(2)] by simp
  ultimately show thesis using that w'(2) by simp
qed

lemma sent_Content_Length:
  "\<not> removed cfg ''Content-Length'' \<Longrightarrow> header_Get (sent_header cfg (hl_set ''Content-Length'' v w)) ''Content-Length'' = v"
  by (simp add: sent_header_def header_Get_removed)

text \<open>
  A response in the cache, in memory or on disk, is sent with its status and exactly its
  body, with the length of the body as the Content-Length, and with all of its stored headers,
  the values of each joined, but for those the proxy sets itself or is told to remove.
\<close>

theorem cached_response_served:
  assumes "lsm_lookup now key s = Some (Some (it, x))" "item_ready (fl_fs (ls_files s)) (env (ls_mem s)) it"
    and "item_GetHeader (fl_fs (ls_files s)) (env (ls_mem s)) it = Header_is hs"
    and "distinct (map (canonical_key \<circ> fst) hs)" "header_Get (rq_Header r) ''Range'' = []" "fresh_log w"
  shows "\<exists>w' s' H. respondFromCache cfg True now key r w s = (Returns True, w', s') \<and>
    answer w' = (Some (item_GetStatusCode (env (ls_mem s)) it, H), item_body (fl_fs (ls_files s)) (env (ls_mem s)) it) \<and>
    (\<not> removed cfg ''Content-Length'' \<longrightarrow> header_Get H ''Content-Length''
       = Itoa (int (length (item_body (fl_fs (ls_files s)) (env (ls_mem s)) it)))) \<and>
    (\<forall>(k, v)\<in>set hs. \<not> removed cfg k \<longrightarrow> canonical_key k \<notin> set own_headers \<longrightarrow>
       header_Get H k = Join v '', '')"
proof -
  obtain w' w1 where
    r: "respondFromCache cfg True now key r w s = (Returns True, w', lsm_Done it (lsm_pin it s))"
    and a: "answer w' = (Some (item_GetStatusCode (env (ls_mem s)) it, sent_header cfg w1),
       item_body (fl_fs (ls_files s)) (env (ls_mem s)) it)"
    and w1: "w1 = hl_set ''Content-Length'' (Itoa (int (length (item_body (fl_fs (ls_files s)) (env (ls_mem s)) it))))
       (cache_headers (env_pin it (env (ls_mem s))) it x hs w)"
    by (rule served_full [OF assms(1-3,5,6)])
  have "header_Get (sent_header cfg w1) k = Join v '', ''"
    if kv: "(k, v) \<in> set hs" "\<not> removed cfg k" "canonical_key k \<notin> set own_headers" for k v
  proof -
    have "canonical_key k \<noteq> canonical_key ''Content-Length''"
      unfolding own_canonical using kv(3) by (auto simp: own_headers_def)
    with cached_header_kept [OF kv(1) assms(4) kv(3)] kv(2) show ?thesis
      unfolding sent_header_def w1 by (simp add: header_Get_removed del: cache_headers(2))
  qed
  with r a sent_Content_Length w1 show ?thesis by blast
qed


definition demo_config :: handler_config where
  "demo_config = \<lparr>BackendHost = ''10.0.0.2'', BackendPort = ''8080'', BackendTLSHost = [], BackendTLSPort = [],
     BackendOnce = False, DomainSuffix = [], RateLimit = 8, ReqRemoveHeaders = [],
     RespRemoveHeaders = [''X-Secret''], CustomTags = [], CacheRules =
       \<lparr>NoReqExt = [], NoReqPathPrefix = [], NoReqPathSuffix = [], NoReqPathContains = [],
        NoReqCookieContains = [''session''], NoReqHeaders = [], RespHeadersBlackList = [],
        RespContentTypeTTL = [], RespContentTypeTTLString = [], RespStatusCodeTTL = [],
        RespStatusCodeTTLString = [], Domain = None\<rparr>, Cache = Some 0\<rparr>"

definition demo_log :: httpLog where
  "demo_log = httplog_New (\<lambda>_. 1) (demo_http_request ''/a'' []) demo_writer"

lemma demo_log: "fresh_log demo_log" "header_Get (rq_Header (demo_http_request p q)) k = []"
  by (simp_all add: demo_log_def fresh_log_def httplog_New_def demo_writer_def demo_http_request_def
      header_Get_def Let_def)

lemma demo_lsm_item:
  "lsm_lookup now 7 demo_lsm = Some (Some (VMem 5, 60 * Second < now))"
  "item_ready (fl_fs (ls_files demo_lsm)) (env (ls_mem demo_lsm)) (VMem 5)"
  "item_GetHeader (fl_fs (ls_files demo_lsm)) (env (ls_mem demo_lsm)) (VMem 5)
     = Header_is [(''Server'', ['' nginx '']), (''Age'', [''12''])]"
  "item_GetStatusCode (env (ls_mem demo_lsm)) (VMem 5) = 200"
  "item_body (fl_fs (ls_files demo_lsm)) (env (ls_mem demo_lsm)) (VMem 5) = [1, 2, 3]"
proof -
  have e: "ie_mem (env (ls_mem demo_lsm)) 5 = demo_itemMem\<lparr>im_inUse := 1\<rparr>"
    by (simp add: demo_lsm_def demo_mem(2) demo_env_def)
  have c: "im_content (demo_itemMem\<lparr>im_inUse := 1\<rparr>) = [1, 2, 3]"
    by (simp add: demo_itemMem_def im_content_def)
  show "lsm_lookup now 7 demo_lsm = Some (Some (VMem 5, 60 * Second < now))"
    using demo_mem(4) [of now] by (simp add: lsm_lookup_kv demo_lsm_def)
  show "item_ready (fl_fs (ls_files demo_lsm)) (env (ls_mem demo_lsm)) (VMem 5)"
    using demo_itemMem(1) c by (simp add: item_ready_def im_ready_def im_ok_def e)
  show "item_GetHeader (fl_fs (ls_files demo_lsm)) (env (ls_mem demo_lsm)) (VMem 5)
      = Header_is [(''Server'', ['' nginx '']), (''Age'', [''12''])]"
    by (simp add: item_GetHeader_def itemMem_GetHeader_def e demo_itemMem(3))
  show "item_GetStatusCode (env (ls_mem demo_lsm)) (VMem 5) = 200"
    by (simp add: item_GetStatusCode_def itemMem_GetStatusCode_def e) (simp add: demo_itemMem_def)
  show "item_body (fl_fs (ls_files demo_lsm)) (env (ls_mem demo_lsm)) (VMem 5) = [1, 2, 3]"
    by (simp add: item_body_def e c)
qed

lemma demo_headers_distinct: "distinct (map (canonical_key \<circ> fst) [(''Server'', ['' nginx '']), (''Age'', [''12''])])"
  using own_canonical by simp

lemma demo_not_removed: "\<not> removed demo_config ''Content-Length''"
proof -
  have "canonical_key ''X-Secret'' = ''X-Secret''" by code_simp
  then show ?thesis by (simp add: removed_def demo_config_def own_canonical)
qed

theorem cached_response_served_witness:
  "\<exists>w' s' H. respondFromCache demo_config True 1 7 (demo_http_request ''/a'' []) demo_log demo_lsm
      = (Returns True, w', s') \<and> answer w' = (Some (200, H), [1, 2, 3]) \<and>
    header_Get H ''Content-Length'' = ''3''"
proof -
  have "Itoa 3 = ''3''" by code_simp
  with cached_response_served [OF demo_lsm_item(1-3) demo_headers_distinct demo_log(2,1), of demo_config 1 "''/a''" "[]"]
  show ?thesis using demo_not_removed demo_lsm_item(4,5) by auto
qed

section \<open>A range\<close>

lemma Itoa_int: "Itoa (int n) = Utoa n"
  by (simp add: Itoa_def)

lemma respond_item_range:
  assumes "header_Get (rq_Header r) ''Range'' = ''bytes='' @ Utoa a @ ''-'' @ opt_num b"
    and "a < 2 ^ 63" "\<And>k. b = Some k \<Longrightarrow> k < 2 ^ 63" "0 < item_Len e it" "item_GetStatusCode e it = 200"
  shows "respond_item cfg True fs e it (header_Get (rq_Header r) ''Range'') w
    = respond_range cfg True fs e it \<lparr>r_start = int a,
        r_length = (case b of None \<Rightarrow> item_Len e it | Some k \<Rightarrow> int k)\<rparr> w"
  using parseRange_one [of "Some a" b "item_Len e it" limitRange] assms
  by (simp add: respond_item_def opt_num_def)




section \<open>Ranges that cannot be served\<close>

lemma item_WriteToRange_backwards:
  "t < f \<Longrightarrow> item_WriteToRange open_ok fs e wr it f t w = Some (Some (0, Some ErrWrongRange, w))"
  by (cases it) (simp_all add: item_WriteToRange_def itemMem_WriteToRange_def itemDisk_WriteToRange_def)



section \<open>The item is released\<close>

lemma lsm_Done_parts [simp]:
  "env (ls_mem (lsm_Done it s)) = env_Done it (env (ls_mem s))" "ls_files (lsm_Done it s) = ls_files s"
  by (simp_all add: lsm_Done_def)

lemma lsm_lookup_pin [simp]:
  "lsm_lookup t k (lsm_pin it s) = lsm_lookup t k s" "lsm_lookup t k (lsm_Done it s) = lsm_lookup t k s"
  by (simp_all add: lsm_lookup_def lsm_pin_def lsm_Done_def kv_Get_env)

lemma item_users_released [simp]: "item_users r (env_Done it (env_pin it e)) = item_users r e"
  by (cases it; cases r) (simp_all add: item_users_def env_pin_def env_Done_def itemMem_Done_def itemDisk_Done_def)

text \<open>
  C12. Whatever the request and the item are like, an attempt to answer from the cache that comes
  back, with an answer or without one, or that panics, has released the item: no count of users
  has changed, and neither has what the cache finds under any key.
\<close>

theorem cached_item_released:
  assumes "respondFromCache cfg open_ok now key r w s = (res, w', s')" "res \<noteq> Stuck" "res \<noteq> Rereads"
  shows "item_users y (env (ls_mem s')) = item_users y (env (ls_mem s)) \<and>
    lsm_lookup t k s' = lsm_lookup t k s"
proof -
  have "s' = s \<or> (\<exists>it. s' = lsm_Done it (lsm_pin it s))"
    using assms
    by (auto simp: respondFromCache_def lsm_Get_def Let_def split: option.splits sum.splits prod.splits
        header_result.splits if_splits)
  then show ?thesis by auto
qed

theorem cached_item_released_witness:
  "case respondFromCache demo_config True 1 7 (demo_http_request ''/a'' []) demo_log demo_lsm of
     (res, w', s') \<Rightarrow> item_users (VMem 5) (env (ls_mem s')) = 1"
proof -
  obtain res w' s' where r: "respondFromCache demo_config True 1 7 (demo_http_request ''/a'' []) demo_log demo_lsm
      = (res, w', s')" by (rule prod_cases3)
  have "fst (respondFromCache demo_config True 1 7 (demo_http_request ''/a'' []) demo_log demo_lsm) = Returns True"
    using demo_log demo_lsm_item by (simp add: respondFromCache_def lsm_Get_found respond_item_def Let_def
        respond_full_def written_item_def item_WriteTo_def split: prod.splits)
  then have "res = Returns True" using r by simp
  with cached_item_released [OF r, of "VMem 5"] r show ?thesis
    by (simp add: item_users_def demo_lsm_def demo_mem(2) demo_env_def)
qed

end
