(* ===== verification/Handler_Serve.thy ===== *)
theory Handler_Serve
  imports Handler
begin

text \<open>
  The path of a response from the backend into the cache and to the client, and the choice
  between cache and backend.

  What a request depends on outside the program is an argument, a record \<open>serve_env\<close>: the
  classification of user agents and the hash of the keys (third-party functions), the rate
  limiter, which may add headers and refuse with a status and a message, the backend, which
  answers a URI and a request or fails (the answer is what \<open>httputil.ReverseProxy\<close> has after
  its removal of hop-by-hop headers; protocol upgrades are left out), the clock, the addresses
  that the allocator or the pools give, and the outcomes of the operating system.
\<close>

record serve_env =
  se_ua :: "string \<Rightarrow> int"
  se_hash :: "string \<Rightarrow> u64"
  se_limiter :: "http_request \<Rightarrow> header \<Rightarrow> (int \<times> string) option \<times> header"
  se_backend :: "string \<Rightarrow> http_request \<Rightarrow> http_response option"
  se_now :: time
  se_date :: string
  se_cell :: addr
  se_item :: addr
  se_grow :: "nat \<Rightarrow> nat \<Rightarrow> nat"
  se_writes :: "(bool \<times> wres \<times> wres) list"
  se_open_ok :: bool

section \<open>Storing a response\<close>

definition append_headers :: "header \<Rightarrow> header \<Rightarrow> header" where
  "append_headers h m =
     fold (\<lambda>(k, v) m. AList.update k ((case map_of m k of None \<Rightarrow> [] | Some vs \<Rightarrow> vs) @ v) m) h m"

text \<open>The header as it is stored and sent.\<close>

definition redirect_codes :: "int list" where "redirect_codes = [301, 302, 307, 308]"

definition resp_headers :: "handler_config \<Rightarrow> string \<Rightarrow> int \<Rightarrow> http_response \<Rightarrow> http_response" where
  "resp_headers cfg date proto resp =
     (let h1 = fold header_Del privateHeaders (rs_Header resp);
          h2 = fold header_Del (RespRemoveHeaders cfg) h1;
          redirect = (proto \<le> 1 \<and> rs_StatusCode resp \<in> set redirect_codes);
          h3 = (if redirect then header_Set ''Connection'' ''close'' h2 else h2) in
      resp\<lparr>rs_Header := header_Set ''Last-Modified'' date h3,
        hp_Close := (hp_Close resp \<or> redirect)\<rparr>)"

definition modifyResponse ::
  "serve_env \<Rightarrow> handler_config \<Rightarrow> u64 \<Rightarrow> int \<Rightarrow> http_response \<Rightarrow> duration \<Rightarrow> lsm
     \<Rightarrow> lsm_error option outcome \<times> http_response \<times> lsm" where
  "modifyResponse ev cfg key proto resp ttl s =
     (let resp1 = resp_headers cfg (se_date ev) proto resp;
          lengthStr = header_Get (rs_Header resp1) ''Content-Length'';
          len = (if lengthStr \<noteq> [] then Atoi_value lengthStr else 0); a = se_item ev in
      case lsm_NewItem a len s of
        None \<Rightarrow> (Panics, resp1, s)
      | Some s1 \<Rightarrow>
          let itm = (lsm_item a s1)\<lparr>im_Key := key, im_StatusCode := rs_StatusCode resp1,
                im_Header := append_headers (rs_Header resp1) (im_Header (lsm_item a s1))\<rparr> in
          case DumpResponse (se_grow ev) resp1 True (se_writes ev, itm) of
            (Some err, resp2, (_, itm')) \<Rightarrow> (Returns (Some err), resp2, lsm_put_item a itm' s1)
          | (None, resp2, (_, itm')) \<Rightarrow>
              (case lsm_Set (se_now ev) (se_cell ev) key a ttl (lsm_put_item a itm' s1) of
                 None \<Rightarrow> (Stuck, resp2, lsm_mem_Set (se_now ev) (se_cell ev) a ttl (lsm_put_item a itm' s1))
               | Some s2 \<Rightarrow> (Returns None, resp2, s2)))"

section \<open>The reverse proxy\<close>

text \<open>
  \<open>badGateway\<close> and the error handler of the proxy write a status and a text. (That they also
  read the rest of the client's body, and that \<open>closeNotify\<close> does, has no effect here.)
\<close>

definition badGateway :: "handler_config \<Rightarrow> int \<Rightarrow> string \<Rightarrow> httpLog \<Rightarrow> httpLog" where
  "badGateway cfg code msg w = hl_print msg (hl_WriteHeader (handler_customTags cfg) code w)"

definition rp_ErrorHandler :: "handler_config \<Rightarrow> httpLog \<Rightarrow> httpLog" where
  "rp_ErrorHandler cfg w =
     hl_print ''Backend error response'' (hl_WriteHeader (handler_customTags cfg) 502 w)"

text \<open>The response is copied to the client; a body that cannot be read to its end aborts the handler.\<close>

definition header_Add :: "string \<Rightarrow> string \<Rightarrow> header \<Rightarrow> header" where
  "header_Add k v h = mime_add (canonical_key k) v h"

definition rp_copy :: "handler_config \<Rightarrow> http_response \<Rightarrow> httpLog \<Rightarrow> httpLog" where
  "rp_copy cfg resp w =
     (let h = fold (\<lambda>(k, vs) h. fold (header_Add k) vs h) (rs_Header resp) (hl_Header w);
          w1 = hl_WriteHeader (handler_customTags cfg) (rs_StatusCode resp) (hl_set_header h w) in
      snd (snd (io_Copy hl_Write (case hp_Body resp of None \<Rightarrow> [] | Some b \<Rightarrow> b) 0 w1)))"

definition rp_Director ::
  "handler_config \<Rightarrow> bool \<Rightarrow> http_request \<Rightarrow> string \<times> http_request" where
  "rp_Director cfg isCachable r =
     (case buildBackendURL cfg r of (uri, req) \<Rightarrow> (uri, if isCachable then modifyRequest cfg req else req))"

definition reverseProxy ::
  "serve_env \<Rightarrow> bool \<Rightarrow> u64 \<Rightarrow> http_request \<Rightarrow> httpLog \<Rightarrow> handler
     \<Rightarrow> bool outcome \<times> httpLog \<times> handler" where
  "reverseProxy ev isCachable key r w h =
     (let cfg = hd_cfg h in
      case se_limiter ev r (hl_Header w) of
        (Some (code, msg), hdr) \<Rightarrow> (Returns False, badGateway cfg code msg (hl_set_header hdr w), h)
      | (None, hdr) \<Rightarrow>
          let w1 = hl_set_header hdr w in
          case (case rp_Director cfg isCachable r of (uri, req) \<Rightarrow> se_backend ev uri req) of
            None \<Rightarrow> (Returns True, rp_ErrorHandler cfg w1, h)
          | Some resp \<Rightarrow>
              (let copied = (\<lambda>resp' h'.
                     (if hp_ReadErr resp' then Panics else Returns True, rp_copy cfg resp' w1, h')) in
               if Cache cfg = None \<or> \<not> isCachable then copied resp h
               else case IsRespCachable (internalRules.truncate (hd_rules h)) (response.truncate resp) of
                   (_, False) \<Rightarrow> copied resp h
                 | (ttl, True) \<Rightarrow>
                     (case modifyResponse ev cfg key (hr_ProtoMajor r) resp ttl (hd_cache h) of
                        (Panics, resp', s') \<Rightarrow> (Panics, w1, h\<lparr>hd_cache := s'\<rparr>)
                      | (Stuck, resp', s') \<Rightarrow> (Stuck, w1, h\<lparr>hd_cache := s'\<rparr>)
                      | (Rereads, resp', s') \<Rightarrow> (Rereads, w1, h\<lparr>hd_cache := s'\<rparr>)
                      | (Returns (Some err), resp', s') \<Rightarrow>
                          (Returns True, rp_ErrorHandler cfg w1, h\<lparr>hd_cache := s'\<rparr>)
                      | (Returns None, resp', s') \<Rightarrow>
                          copied (resp'\<lparr>hp_ReadErr := False\<rparr>) (h\<lparr>hd_cache := s'\<rparr>))))"

section \<open>A request\<close>

text \<open>
  With \<open>BackendOnce\<close>, requests for one key go to the backend one at a time. What a request meets
  is an argument: it is the one that goes; or it waited for another, and goes on with the state
  of the program at that time; or it waited for a minute, and gives up; or it is the one that
  went, and after its time it leaves the answer and the program as its call to the backend, which
  is not stopped, has them by then.
\<close>

datatype flight = First | Waited handler | Timeout_first httpLog handler | Timeout_waiting

definition proxied :: "bool outcome \<times> httpLog \<times> handler \<Rightarrow> unit outcome \<times> httpLog \<times> handler" where
  "proxied res =
     (case res of
        (Returns True, w, h) \<Rightarrow> (Returns (), w, h)
      | (Returns False, w, h) \<Rightarrow> (Returns (), w\<lparr>hl_RateLimit := True\<rparr>, h)
      | (Panics, w, h) \<Rightarrow> (Panics, w, h)
      | (Stuck, w, h) \<Rightarrow> (Stuck, w, h)
      | (Rereads, w, h) \<Rightarrow> (Rereads, w, h))"

text \<open>The answer from the cache; when there is none, what \<open>next\<close> does.\<close>

definition cached_or ::
  "serve_env \<Rightarrow> u64 \<Rightarrow> http_request \<Rightarrow> httpLog \<Rightarrow> handler
     \<Rightarrow> (httpLog \<Rightarrow> handler \<Rightarrow> unit outcome \<times> httpLog \<times> handler) \<Rightarrow> unit outcome \<times> httpLog \<times> handler" where
  "cached_or ev key r w h next =
     (case respondFromCache (hd_cfg h) (se_open_ok ev) (se_now ev) key r w (hd_cache h) of
        (Returns True, w', s) \<Rightarrow> (Returns (), w'\<lparr>hl_HIT := True\<rparr>, h\<lparr>hd_cache := s\<rparr>)
      | (Returns False, w', s) \<Rightarrow> next w' (h\<lparr>hd_cache := s\<rparr>)
      | (Panics, w', s) \<Rightarrow> (Panics, w', h\<lparr>hd_cache := s\<rparr>)
      | (Stuck, w', s) \<Rightarrow> (Stuck, w', h\<lparr>hd_cache := s\<rparr>)
      | (Rereads, w', s) \<Rightarrow> (Rereads, w', h\<lparr>hd_cache := s\<rparr>))"

text \<open>The rules of the host, when there are some, decide in place of the general ones.\<close>

definition request_rules :: "rules \<Rightarrow> http_request \<Rightarrow> bool \<times> bool" where
  "request_rules rs r =
     (case IsReqCachable (internalRules.truncate rs) (request.truncate r) of
        (isCachable, isRefreshable) \<Rightarrow>
          (case Domain rs of
             Some hosts \<Rightarrow>
               if isCachable then
                 (case map_of hosts (hr_Host r) of
                    Some hostRule \<Rightarrow> IsReqCachable hostRule (request.truncate r)
                  | None \<Rightarrow> (isCachable, isRefreshable))
               else (isCachable, isRefreshable)
           | None \<Rightarrow> (isCachable, isRefreshable)))"

definition purge :: "(string \<Rightarrow> u64) \<Rightarrow> httpLog \<Rightarrow> lsm \<Rightarrow> lsm" where
  "purge hash hl s =
     fold (\<lambda>i. lsm_Delete (hash (GetKeyStrDevice hl (int i)))) [0..<length uaDeviceCleaner] s"

definition logged :: "unit outcome \<times> httpLog \<times> handler \<Rightarrow> unit outcome \<times> httpLog \<times> handler" where
  "logged res =
     (case res of (out, w, h) \<Rightarrow>
        (out, w, if out = Stuck \<or> out = Rereads then h else h\<lparr>hd_log := hl_Done (hd_log h) w\<rparr>))"

definition ServeHTTP ::
  "serve_env \<Rightarrow> flight \<Rightarrow> http_request \<Rightarrow> resp_writer \<Rightarrow> handler \<Rightarrow> unit outcome \<times> httpLog \<times> handler" where
  "ServeHTTP ev fl r orgW h =
     (let hl = httplog_New (se_ua ev) r orgW; key = se_hash ev (GetKeyStr hl) in
      logged
      (case request_rules (hd_rules h) r of
         (False, isRefreshable) \<Rightarrow>
           let h1 = (if isRefreshable then h\<lparr>hd_cache := purge (se_hash ev) hl (hd_cache h)\<rparr> else h) in
           proxied (reverseProxy ev False key r hl h1)
       | (True, _) \<Rightarrow>
           cached_or ev key r hl h (\<lambda>w h1.
             if \<not> BackendOnce (hd_cfg h1) then proxied (reverseProxy ev True key r w h1)
             else case fl of
                 First \<Rightarrow> proxied (reverseProxy ev True key r w h1)
               | Waited h2 \<Rightarrow>
                   cached_or ev key r w h2 (\<lambda>w h3. proxied (reverseProxy ev True key r w h3))
               | Timeout_waiting \<Rightarrow>
                   (Returns (), w\<lparr>hl_w := snd (snd (rw_Write (bytes_of ''RFC 7231, 6.6.3'')
                      (rw_WriteHeader 502 (hl_w w))))\<rparr>, h1)
               | Timeout_first w1 h2 \<Rightarrow> (Returns (), w1, h2))))"

end
