(* ===== verification/Handler_Serve_Props.thy ===== *)
theory Handler_Serve_Props
  imports Handler_Serve Handler_Cache_Props
begin

text \<open>
  A response on its way through the proxy: it is stored whole or not at all, what is stored is
  what later requests with the same key are answered with, without the backend; requests the
  rules do not allow, and requests over the limit, leave the cache as it is.
\<close>

section \<open>Writing into an item\<close>

text \<open>A copy into a writer that tells the truth about its writes.\<close>

lemma io_Copy_honest:
  assumes honest: "\<And>b w n e w'. good w \<Longrightarrow> wr b w = (n, e, w') \<Longrightarrow>
      good w' \<and> (e = None \<longrightarrow> contents w' = contents w @ b)"
    and "good w" "io_Copy wr src k w = (n, e, w')"
  shows "good w' \<and> (e = None \<longrightarrow> contents w' = contents w @ src)"
  using assms(2,3)
proof (induction "length src" arbitrary: src k w rule: less_induct)
  case less
  show ?case
  proof (cases "src = []")
    case True
    then show ?thesis using less.prems by (simp add: io_Copy.simps)
  next
    case False
    obtain n1 e1 w1 where w1: "wr (take 32768 src) w = (n1, e1, w1)" by (rule prod_cases3)
    note h = honest [OF less.prems(1) w1]
    let ?k' = "if 0 < n1 then k + n1 else k"
    have step: "io_Copy wr src k w =
        (if e1 \<noteq> None then (?k', e1, w1)
         else if n1 \<noteq> int (length (take 32768 src)) then (?k', Some ErrShortWrite, w1)
         else io_Copy wr (drop 32768 src) ?k' w1)"
      using False w1 by (subst io_Copy.simps) (simp add: Let_def)
    show ?thesis
    proof (cases "e1 = None \<and> n1 = int (length (take 32768 src))")
      case True
      then have "io_Copy wr (drop 32768 src) ?k' w1 = (n, e, w')" using step less.prems(2) by simp
      moreover have "length (drop 32768 src) < length src" using False by simp
      ultimately have "good w' \<and> (e = None \<longrightarrow> contents w' = contents w1 @ drop 32768 src)"
        using less.hyps h by blast
      then show ?thesis using h True by simp
    next
      case False
      then show ?thesis using step less.prems(2) h by (auto split: if_splits)
    qed
  qed
qed

definition im_frame :: "itemMem \<Rightarrow> u64 \<times> int \<times> header \<times> u64 \<times> int" where
  "im_frame itm = (im_Key itm, im_StatusCode itm, im_Header itm, im_HIT itm, im_inUse itm)"

lemma itemMem_Write_frame:
  "itemMem_Write grow tmp_ok r1 r2 b itm = (n, err, itm') \<Longrightarrow> im_frame itm' = im_frame itm"
  by (auto simp: itemMem_Write_def im_frame_def Let_def split: option.splits prod.splits if_splits)

lemma iw_Write_honest:
  assumes "im_ok (snd s) \<and> im_frame (snd s) = f" "iw_Write grow b s = (n, err, s')"
  shows "(im_ok (snd s') \<and> im_frame (snd s') = f) \<and>
    (err = None \<longrightarrow> im_content (snd s') = im_content (snd s) @ b)"
proof -
  obtain os itm where s: "s = (os, itm)" by (cases s)
  obtain tmp_ok r1 r2 where o1: "(case os of [] \<Rightarrow> (True, W_ok, W_ok) | o1 # _ \<Rightarrow> o1) = (tmp_ok, r1, r2)"
    by (rule prod_cases3)
  obtain itm' where w: "itemMem_Write grow tmp_ok r1 r2 b itm = (n, err, itm')" "snd s' = itm'"
    using assms(2) o1 by (auto simp: iw_Write_def s split: prod.splits)
  show ?thesis
    using itemMem_Write_ok [OF _ w(1)] itemMem_Write_frame [OF w(1)] assms(1) w(2) s by auto
qed


lemma DumpResponse_honest:
  assumes "im_ok itm" "DumpResponse grow resp True (os, itm) = (err, resp', (os', itm'))"
  shows "im_ok itm' \<and> im_frame itm' = im_frame itm"
    and "err = None \<Longrightarrow> im_content itm' = im_content itm @ (case hp_Body resp of None \<Rightarrow> [] | Some b \<Rightarrow> b)
      \<and> hp_Body resp' = hp_Body resp \<and> (hp_Body resp \<noteq> None \<longrightarrow> \<not> hp_ReadErr resp)
      \<and> rs_StatusCode resp' = rs_StatusCode resp \<and> rs_Header resp' = rs_Header resp"
proof -
  let ?b = "case hp_Body resp of None \<Rightarrow> [] | Some b \<Rightarrow> b"
  obtain n e s' where c: "io_Copy (iw_Write grow) ?b 0 (os, itm) = (n, e, s')" by (rule prod_cases3)
  have h: "(im_ok (snd s') \<and> im_frame (snd s') = im_frame itm) \<and>
      (e = None \<longrightarrow> im_content (snd s') = im_content (snd (os, itm)) @ ?b)"
    by (rule io_Copy_honest [of "\<lambda>s. im_ok (snd s) \<and> im_frame (snd s) = im_frame itm" _ "\<lambda>s. im_content (snd s)",
          OF iw_Write_honest _ c]) (use assms(1) in auto)
  show "im_ok itm' \<and> im_frame itm' = im_frame itm"
    using assms h c by (auto simp: DumpResponse_def drainBody_def Let_def split: option.splits if_splits)
  show "im_content itm' = im_content itm @ ?b \<and> hp_Body resp' = hp_Body resp
      \<and> (hp_Body resp \<noteq> None \<longrightarrow> \<not> hp_ReadErr resp)
      \<and> rs_StatusCode resp' = rs_StatusCode resp \<and> rs_Header resp' = rs_Header resp" if "err = None"
    using assms(2) h c that
    by (auto simp: DumpResponse_def drainBody_def Let_def split: option.splits if_splits)
qed

section \<open>Storing a response\<close>

definition im_clean :: "itemMem \<Rightarrow> bool" where
  "im_clean itm \<longleftrightarrow> im_ok itm \<and> im_content itm = [] \<and> im_Header itm = []"

lemma im_clean_new: "im_clean (new_itemMem l)"
  unfolding im_clean_def by (simp only: im_ok_new) (simp add: new_itemMem_def)

text \<open>The items in the pools were cleaned when they were put there.\<close>

definition pool_clean :: "lsm \<Rightarrow> bool" where
  "pool_clean s \<longleftrightarrow> (\<forall>(i, a)\<in>set (ie_memPool (env (ls_mem s))). im_clean (lsm_item a s))"

lemma lsm_NewItem_clean:
  assumes "lsm_NewItem a l s = Some s1" "pool_clean s"
  shows "im_clean (lsm_item a s1)" "lsm_lookup t k s1 = lsm_lookup t k s"
    "ls_MinLSMTTL s1 = ls_MinLSMTTL s" "ls_ttlCh s1 = ls_ttlCh s" "ls_files s1 = ls_files s"
proof -
  let ?got = "\<lambda>j. if (j, a) \<in> set (ie_memPool (env (ls_mem s))) then Some (lsm_item a s) else None"
  obtain itm where itm: "getItemLen ?got l = Some itm"
    and s1: "s1 = s\<lparr>ls_mem := (ls_mem s)\<lparr>env := (env (ls_mem s))\<lparr>ie_mem := (ie_mem (env (ls_mem s)))(a := itm),
        ie_memPool := remove1 (calcIndex (if l > itemMemMaxSize then itemMemMaxSize else l), a)
          (ie_memPool (env (ls_mem s)))\<rparr>\<rparr>\<rparr>"
    using assms(1) unfolding lsm_NewItem_def Let_def lsm_item_def [symmetric]
    by (cases "getItemLen ?got l") (simp_all add: lsm_item_def)
  have "im_clean itm"
    using itm assms(2) im_clean_new
    by (auto simp: getItemLen_def Let_def pool_clean_def split: option.splits if_splits)
  then show "im_clean (lsm_item a s1)" by (simp add: s1 lsm_item_def)
  show "lsm_lookup t k s1 = lsm_lookup t k s" by (simp add: s1 lsm_lookup_def kv_Get_env)
  show "ls_MinLSMTTL s1 = ls_MinLSMTTL s" "ls_ttlCh s1 = ls_ttlCh s" "ls_files s1 = ls_files s"
    by (simp_all add: s1)
qed

lemma lsm_put_item [simp]:
  "lsm_item a (lsm_put_item a itm s) = itm" "lsm_lookup t k (lsm_put_item a itm s) = lsm_lookup t k s"
  "ls_MinLSMTTL (lsm_put_item a itm s) = ls_MinLSMTTL s" "ls_ttlCh (lsm_put_item a itm s) = ls_ttlCh s"
  "ls_files (lsm_put_item a itm s) = ls_files s"
  by (simp_all add: lsm_put_item_def lsm_item_def lsm_lookup_def kv_Get_env)

lemma lsm_Set_lookup:
  assumes "lsm_Set now cell key a ttl s = Some s'"
  shows "lsm_lookup t (im_Key (lsm_item a s)) s' = Some (Some (VMem a, now + ttl < t))"
    "env (ls_mem s') = env (ls_mem s)" "ls_files s' = ls_files s"
proof -
  have m: "ls_mem s' = kv_Set now cell (im_Key (lsm_item a s)) (Some (VMem a)) ttl (ls_mem s)" "ls_files s' = ls_files s"
    using assms by (auto simp: lsm_Set_def lsm_mem_Set_def vlog_Set_def lsm_item_def Let_def split: if_splits option.splits)
  show "lsm_lookup t (im_Key (lsm_item a s)) s' = Some (Some (VMem a, now + ttl < t))"
    by (simp add: lsm_lookup_kv m(1) kv_Get_Set)
  show "env (ls_mem s') = env (ls_mem s)" by (simp add: m(1) kv_Set_def Let_def)
  show "ls_files s' = ls_files s" by (rule m)
qed

lemma modifyResponse_stored:
  assumes "modifyResponse ev cfg key proto resp ttl s = (Returns None, resp', s')" "pool_clean s"
  shows "lsm_lookup t key s' = Some (Some (VMem (se_item ev), se_now ev + ttl < t))"
    and "im_ok (lsm_item (se_item ev) s')"
    and "im_content (lsm_item (se_item ev) s') = (case hp_Body resp of None \<Rightarrow> [] | Some b \<Rightarrow> b)"
    and "im_StatusCode (lsm_item (se_item ev) s') = rs_StatusCode resp"
    and "im_Header (lsm_item (se_item ev) s') = append_headers (rs_Header (resp_headers cfg (se_date ev) proto resp)) []"
    and "rs_StatusCode resp' = rs_StatusCode resp" "hp_Body resp' = hp_Body resp"
      "rs_Header resp' = rs_Header (resp_headers cfg (se_date ev) proto resp)"
    and "hp_Body resp \<noteq> None \<longrightarrow> \<not> hp_ReadErr resp" "ls_files s' = ls_files s"
proof -
  let ?a = "se_item ev" and ?resp1 = "resp_headers cfg (se_date ev) proto resp"
  have r1: "rs_StatusCode ?resp1 = rs_StatusCode resp" "hp_Body ?resp1 = hp_Body resp"
    "hp_ReadErr ?resp1 = hp_ReadErr resp" by (simp_all add: resp_headers_def Let_def)
  define len where "len = (if header_Get (rs_Header ?resp1) ''Content-Length'' \<noteq> []
    then Atoi_value (header_Get (rs_Header ?resp1) ''Content-Length'') else 0)"
  obtain s1 where s1: "lsm_NewItem ?a len s = Some s1"
    using assms(1) by (auto simp: modifyResponse_def len_def Let_def split: option.splits)
  define itm where "itm = (lsm_item ?a s1)\<lparr>im_Key := key, im_StatusCode := rs_StatusCode ?resp1,
      im_Header := append_headers (rs_Header ?resp1) (im_Header (lsm_item ?a s1))\<rparr>"
  obtain err resp2 os' itm' where d: "DumpResponse (se_grow ev) ?resp1 True (se_writes ev, itm) = (err, resp2, (os', itm'))"
    by (metis surj_pair)
  have err: "err = None" "resp' = resp2"
    and set: "lsm_Set (se_now ev) (se_cell ev) key ?a ttl (lsm_put_item ?a itm' s1) = Some s'"
    using assms(1) s1 d unfolding modifyResponse_def Let_def len_def [symmetric]
    by (auto simp: itm_def split: option.splits)
  note clean = lsm_NewItem_clean [OF s1 assms(2)]
  have itm: "im_ok itm" "im_content itm = []" "im_frame itm = (key, rs_StatusCode resp,
      append_headers (rs_Header ?resp1) [], im_HIT (lsm_item ?a s1), im_inUse (lsm_item ?a s1))"
    using clean(1) r1 by (simp_all add: im_clean_def itm_def im_ok_def im_content_def im_frame_def cong: option.case_cong)
  note D = DumpResponse_honest [OF itm(1) d] 
  have itm': "im_Key itm' = key" "im_StatusCode itm' = rs_StatusCode resp"
    "im_Header itm' = append_headers (rs_Header ?resp1) []"
    using D(1) itm(3) by (auto simp: im_frame_def)
  note S = lsm_Set_lookup [OF set]
  have item: "lsm_item ?a s' = itm'"
    using S(2) by (simp add: lsm_item_def lsm_put_item_def)
  show "lsm_lookup t key s' = Some (Some (VMem ?a, se_now ev + ttl < t))" using S(1) [of t] itm'(1) by simp
  show "im_ok (lsm_item ?a s')" "im_content (lsm_item ?a s') = (case hp_Body resp of None \<Rightarrow> [] | Some b \<Rightarrow> b)"
    "im_StatusCode (lsm_item ?a s') = rs_StatusCode resp"
    "im_Header (lsm_item ?a s') = append_headers (rs_Header ?resp1) []"
    "rs_StatusCode resp' = rs_StatusCode resp" "hp_Body resp' = hp_Body resp"
    "rs_Header resp' = rs_Header ?resp1" "hp_Body resp \<noteq> None \<longrightarrow> \<not> hp_ReadErr resp"
    using D(1) D(2) [OF err(1)] itm itm' r1 unfolding item err(2) by simp_all
  show "ls_files s' = ls_files s" using S(3) clean(5) by simp
qed


text \<open>
  C3. A response of the backend is stored whole or not at all: when the proxy goes on without an
  error, a lookup of its key finds an item with the response's status and all of its body, and
  the client is sent the same body; when reading the body, or writing it into the item, fails
  at any point, the cache finds what it found before.
\<close>

theorem stored_whole_or_not:
  assumes "modifyResponse ev cfg key proto resp ttl s = (res, resp', s')" "pool_clean s"
    and "hp_Body resp = Some body" "length body < 2 ^ 63"
  shows "(res = Returns None \<longrightarrow> (let fs = fl_fs (ls_files s'); e = env (ls_mem s'); it = VMem (se_item ev) in
      lsm_lookup t key s' = Some (Some (it, se_now ev + ttl < t)) \<and>
      item_ready fs e it \<and> item_body fs e it = body \<and> item_GetStatusCode e it = rs_StatusCode resp \<and>
      hp_Body resp' = Some body \<and> \<not> hp_ReadErr resp)) \<and>
    (\<forall>err. res = Returns (Some err) \<longrightarrow> lsm_lookup t k s' = lsm_lookup t k s)"
proof (intro conjI impI allI)
  assume r: "res = Returns None"
  note m = modifyResponse_stored [OF assms(1) [unfolded r] assms(2)]
  show "let fs = fl_fs (ls_files s'); e = env (ls_mem s'); it = VMem (se_item ev) in
      lsm_lookup t key s' = Some (Some (it, se_now ev + ttl < t)) \<and>
      item_ready fs e it \<and> item_body fs e it = body \<and> item_GetStatusCode e it = rs_StatusCode resp \<and>
      hp_Body resp' = Some body \<and> \<not> hp_ReadErr resp"
    using m assms(3,4)
    by (simp add: Let_def item_ready_def im_ready_def item_body_def item_GetStatusCode_def
        itemMem_GetStatusCode_def lsm_item_def)
next
  fix err assume "res = Returns (Some err)"
  then show "lsm_lookup t k s' = lsm_lookup t k s"
    using assms(1) lsm_NewItem_clean(2) [OF _ assms(2)]
    by (auto simp: modifyResponse_def Let_def split: option.splits prod.splits)
qed

definition demo_env1 :: serve_env where
  "demo_env1 = \<lparr>se_ua = (\<lambda>_. 1), se_hash = (\<lambda>k. of_nat (length k)), se_limiter = (\<lambda>r h. (None, h)),
     se_backend = (\<lambda>uri r. Some \<lparr>rs_StatusCode = 200, rs_Header = [(''Content-Type'', [''text/plain''])],
       hp_Body = Some [4, 5], hp_ReadErr = False, hp_ContentLength = 2, hp_Close = False\<rparr>),
     se_now = 0, se_date = ''now'', se_cell = 1, se_item = 9, se_grow = (\<lambda>_ n. 2 * n), se_writes = [],
     se_open_ok = True\<rparr>"

definition demo_response :: http_response where
  "demo_response = \<lparr>rs_StatusCode = 200, rs_Header = [(''Content-Type'', [''text/plain''])],
     hp_Body = Some [4, 5], hp_ReadErr = False, hp_ContentLength = 2, hp_Close = False\<rparr>"

definition demo_handler :: handler where
  "demo_handler = \<lparr>hd_rules = CacheRules demo_config, hd_cfg = demo_config,
     hd_cache = demo_lsm\<lparr>ls_MinLSMTTL := 2 * Hour\<rparr>, hd_log = ([], [])\<rparr>"

lemma demo_pool: "pool_clean (demo_lsm\<lparr>ls_MinLSMTTL := m\<rparr>)"
  by (simp add: pool_clean_def demo_lsm_def demo_mem(2) demo_env_def)


text \<open>When the system does not fail, and the response does not go to disk, it is stored.\<close>

lemma itemMem_Write_succeeds: "\<exists>n itm'. itemMem_Write grow True W_ok W_ok b itm = (n, None, itm')"
  by (simp add: itemMem_Write_def file_Write_def Let_def split: option.split)

interpretation iw: sink "iw_Write grow" "\<lambda>s. im_content (snd s)" "\<lambda>s. fst s = [] \<and> im_ok (snd s)" for grow
proof (unfold_locales, goal_cases)
  case (1 w b)
  obtain n itm' where "itemMem_Write grow True W_ok W_ok b (snd w) = (n, None, itm')"
    using itemMem_Write_succeeds by blast
  with itemMem_Write_ok [OF _ this] 1 show ?case by (cases w) (simp add: iw_Write_def)
qed

lemma DumpResponse_succeeds:
  assumes "im_ok itm" "hp_Body resp = Some body" "\<not> hp_ReadErr resp"
  shows "\<exists>resp' os' itm'. DumpResponse grow resp True ([], itm) = (None, resp', (os', itm'))"
proof -
  from assms(1) have "fst ([], itm) = [] \<and> im_ok (snd ([], itm))" by simp
  from iw.io_Copy_all [OF this, of grow body 0]
  obtain w' where "io_Copy (iw_Write grow) body 0 ([], itm) = (int (length body), None, w')" by auto
  then show ?thesis using assms(2,3) by (cases w') (simp add: DumpResponse_def drainBody_def Let_def)
qed

lemma modifyResponse_succeeds:
  assumes "pool_clean s" "se_writes ev = []" "hp_Body resp = Some body" "\<not> hp_ReadErr resp"
    and "ttl \<le> ls_MinLSMTTL s"
    and "header_Get (rs_Header (resp_headers cfg (se_date ev) proto resp)) ''Content-Length'' = []"
  shows "\<exists>resp' s'. modifyResponse ev cfg key proto resp ttl s = (Returns None, resp', s')"
proof -
  let ?a = "se_item ev" and ?resp1 = "resp_headers cfg (se_date ev) proto resp"
  have "lsm_NewItem ?a 0 s \<noteq> None"
    by (simp add: lsm_NewItem_def getItemLen_def calcIndex_nonneg itemMemMaxSize_def Let_def)
  then obtain s1 where s1: "lsm_NewItem ?a 0 s = Some s1" by blast
  note clean = lsm_NewItem_clean [OF s1 assms(1)]
  let ?itm = "(lsm_item ?a s1)\<lparr>im_Key := key, im_StatusCode := rs_StatusCode ?resp1,
      im_Header := append_headers (rs_Header ?resp1) (im_Header (lsm_item ?a s1))\<rparr>"
  have "im_ok ?itm" using clean(1) by (simp add: im_clean_def im_ok_def)
  moreover have "hp_Body ?resp1 = Some body" "\<not> hp_ReadErr ?resp1"
    using assms(3,4) by (simp_all add: resp_headers_def Let_def)
  ultimately obtain resp' os' itm' where
    d: "DumpResponse (se_grow ev) ?resp1 True (se_writes ev, ?itm) = (None, resp', (os', itm'))"
    using DumpResponse_succeeds unfolding assms(2) by blast
  have "\<exists>s'. lsm_Set (se_now ev) (se_cell ev) key ?a ttl (lsm_put_item ?a itm' s1) = Some s'"
    using assms(5) clean(3) by (simp add: lsm_Set_def)
  then show ?thesis using s1 d assms(6) by (auto simp: modifyResponse_def Let_def)
qed

lemma demo_stored:
  "\<exists>resp' s'. modifyResponse demo_env1 demo_config key 1 demo_response Hour (demo_lsm\<lparr>ls_MinLSMTTL := 2 * Hour\<rparr>)
     = (Returns None, resp', s')"
proof (rule modifyResponse_succeeds)
  show "header_Get (rs_Header (resp_headers demo_config (se_date demo_env1) 1 demo_response)) ''Content-Length'' = []"
    by code_simp
qed (simp_all add: demo_pool demo_env1_def demo_response_def Hour_def Minute_def Second_def)

theorem stored_whole_or_not_witness:
  "\<exists>resp' s'. modifyResponse demo_env1 demo_config 5 1 demo_response Hour (demo_lsm\<lparr>ls_MinLSMTTL := 2 * Hour\<rparr>)
     = (Returns None, resp', s') \<and>
   item_body (fl_fs (ls_files s')) (env (ls_mem s')) (VMem 9) = [4, 5]"
proof -
  obtain resp' s' where m: "modifyResponse demo_env1 demo_config 5 1 demo_response Hour
      (demo_lsm\<lparr>ls_MinLSMTTL := 2 * Hour\<rparr>) = (Returns None, resp', s')" using demo_stored by blast
  have "hp_Body demo_response = Some [4, 5]" "se_item demo_env1 = 9"
    by (simp_all add: demo_response_def demo_env1_def)
  with stored_whole_or_not [OF m demo_pool, of "[4, 5]" 0 0] m show ?thesis by (simp add: Let_def)
qed


section \<open>From the backend into the cache and back\<close>

lemma hl_fresh [simp]:
  "fresh_log (hl_set_header h w) = fresh_log w" "hl_Header (hl_set_header h w) = h"
  "fresh_log (httplog_New ua r orgW) = (rw_Sent orgW = None \<and> rw_Body orgW = [])"
  "hl_Header (httplog_New ua r orgW) = rw_Header orgW"
  by (simp_all add: fresh_log_def hl_set_header_def hl_Header_def httplog_New_def Let_def)

lemma answer_flags [simp]:
  "answer (w\<lparr>hl_HIT := b\<rparr>) = answer w" "answer (w\<lparr>hl_RateLimit := b\<rparr>) = answer w"
  by (simp_all add: answer_def hl_body_def)

lemma rp_copy_answer:
  assumes "fresh_log w"
  shows "\<exists>H. answer (rp_copy cfg resp w)
    = (Some (rs_StatusCode resp, H), case hp_Body resp of None \<Rightarrow> [] | Some b \<Rightarrow> b)"
proof -
  let ?w = "hl_set_header (fold (\<lambda>(k, vs) h. fold (header_Add k) vs h) (rs_Header resp) (hl_Header w)) w"
  have "fresh_log ?w" using assms by simp
  note s = WriteHeader_sending [OF this, where code = "rs_StatusCode resp" and cfg = cfg]
  from hlog.io_Copy_all [OF s(1), of "case hp_Body resp of None \<Rightarrow> [] | Some b \<Rightarrow> b" 0]
  show ?thesis using s(2) hl_sending_answer by (fastforce simp: rp_copy_def Let_def)
qed

lemma respondFromCache_miss:
  "lsm_lookup now key s = Some None \<Longrightarrow> respondFromCache cfg open_ok now key r w s = (Returns False, w, s)"
  by (simp add: respondFromCache_def lsm_Get_def)

text \<open>The first request: nothing is in the cache, the backend's response is stored and sent.\<close>

lemma ServeHTTP_stores:
  assumes "request_rules (hd_rules h) r = (True, refresh)"
    and "key = se_hash ev (GetKeyStr (httplog_New (se_ua ev) r orgW))"
    and "lsm_lookup (se_now ev) key (hd_cache h) = Some None"
    and "\<not> BackendOnce (hd_cfg h) \<or> fl = First"
    and "se_limiter ev r (rw_Header orgW) = (None, hdr)"
    and "rp_Director (hd_cfg h) True r = (uri, req)" "se_backend ev uri req = Some resp"
    and "Cache (hd_cfg h) \<noteq> None"
    and "IsRespCachable (internalRules.truncate (hd_rules h)) (response.truncate resp) = (ttl, True)"
    and "modifyResponse ev (hd_cfg h) key (hr_ProtoMajor r) resp ttl (hd_cache h) = (Returns None, resp', s')"
    and "rw_Sent orgW = None" "rw_Body orgW = []"
  shows "\<exists>h1. ServeHTTP ev fl r orgW h = (Returns (),
      rp_copy (hd_cfg h) (resp'\<lparr>hp_ReadErr := False\<rparr>) (hl_set_header hdr (httplog_New (se_ua ev) r orgW)), h1) \<and>
    hd_rules h1 = hd_rules h \<and> hd_cfg h1 = hd_cfg h \<and> hd_cache h1 = s'"
proof -
  let ?hl = "httplog_New (se_ua ev) r orgW"
  let ?w = "rp_copy (hd_cfg h) (resp'\<lparr>hp_ReadErr := False\<rparr>) (hl_set_header hdr ?hl)"
  have h: "h\<lparr>hd_cache := hd_cache h\<rparr> = h" by simp
  obtain m where "Cache (hd_cfg h) = Some m" using assms(8) by blast
  then have rp: "reverseProxy ev True key r ?hl h = (Returns True, ?w, h\<lparr>hd_cache := s'\<rparr>)"
    using assms(5-7,9,10) by (simp add: reverseProxy_def Let_def)
  have "cached_or ev key r ?hl h next = next ?hl h" for "next"
    using respondFromCache_miss [OF assms(3)] by (simp add: cached_or_def)
  then have "ServeHTTP ev fl r orgW h = logged (Returns (), ?w, h\<lparr>hd_cache := s'\<rparr>)"
    using assms(1,4) rp unfolding ServeHTTP_def Let_def assms(2) [symmetric]
    by (auto simp: proxied_def)
  then show ?thesis by (simp add: logged_def)
qed

text \<open>A later request that finds an item without asking the backend.\<close>

lemma ServeHTTP_hits:
  assumes "request_rules (hd_rules h) r = (True, refresh)"
    and "key = se_hash ev (GetKeyStr (httplog_New (se_ua ev) r orgW))"
    and "lsm_lookup (se_now ev) key (hd_cache h) = Some (Some (it, x))"
    and "item_ready (fl_fs (ls_files (hd_cache h))) (env (ls_mem (hd_cache h))) it"
    and "item_GetHeader (fl_fs (ls_files (hd_cache h))) (env (ls_mem (hd_cache h))) it = Header_is hs"
    and "header_Get (rq_Header r) ''Range'' = []" "se_open_ok ev"
    and "rw_Sent orgW = None" "rw_Body orgW = []"
  shows "\<exists>w' h' H. ServeHTTP ev fl r orgW h = (Returns (), w', h') \<and> hl_HIT w' \<and>
    answer w' = (Some (item_GetStatusCode (env (ls_mem (hd_cache h))) it, H),
      item_body (fl_fs (ls_files (hd_cache h))) (env (ls_mem (hd_cache h))) it) \<and>
    (\<not> removed (hd_cfg h) ''Content-Length'' \<longrightarrow> header_Get H ''Content-Length'' = Itoa (int (length
      (item_body (fl_fs (ls_files (hd_cache h))) (env (ls_mem (hd_cache h))) it))))"
proof -
  let ?hl = "httplog_New (se_ua ev) r orgW" and ?s = "hd_cache h"
  have "fresh_log ?hl" using assms(8,9) by simp
  from served_full [OF assms(3-6) this, of "hd_cfg h"] obtain w1 w0 where
    r: "respondFromCache (hd_cfg h) True (se_now ev) key r ?hl ?s = (Returns True, w1, lsm_Done it (lsm_pin it ?s))"
    and a: "answer w1 = (Some (item_GetStatusCode (env (ls_mem ?s)) it, sent_header (hd_cfg h) w0),
        item_body (fl_fs (ls_files ?s)) (env (ls_mem ?s)) it)"
    and w0: "w0 = hl_set ''Content-Length'' (Itoa (int (length (item_body (fl_fs (ls_files ?s)) (env (ls_mem ?s)) it))))
       (cache_headers (env_pin it (env (ls_mem ?s))) it x hs ?hl)" by blast
  have "ServeHTTP ev fl r orgW h
      = logged (Returns (), w1\<lparr>hl_HIT := True\<rparr>, h\<lparr>hd_cache := lsm_Done it (lsm_pin it ?s)\<rparr>)"
    using r assms(1,7) unfolding ServeHTTP_def Let_def assms(2) [symmetric] by (simp add: cached_or_def)
  moreover have "header_Get (sent_header (hd_cfg h) w0) ''Content-Length''
      = Itoa (int (length (item_body (fl_fs (ls_files ?s)) (env (ls_mem ?s)) it)))"
    if "\<not> removed (hd_cfg h) ''Content-Length''" unfolding w0 by (rule sent_Content_Length [OF that])
  ultimately show ?thesis using a by (simp add: logged_def)
qed



lemma demo_request_rules: "request_rules (hd_rules demo_handler) (demo_http_request ''/a'' []) = (True, False)"
  unfolding demo_handler_def handler.select_convs by code_simp

lemma demo_key: "se_hash demo_env1 (GetKeyStr (httplog_New (se_ua demo_env1) (demo_http_request ''/a'' []) w)) = 24"
proof -
  have "GetKeyStr (httplog_New (\<lambda>_. 1) (demo_http_request ''/a'' []) w) = ''1GEThttp://example.com/a''"
    by (simp add: GetKeyStr_eq request_url_def demo_http_request_def schemaHTTP_def) code_simp
  then show ?thesis by (simp add: demo_env1_def)
qed

lemma demo_miss: "lsm_lookup now 24 (demo_lsm\<lparr>ls_MinLSMTTL := m\<rparr>) = Some None"
  by (simp add: lsm_lookup_def demo_lsm_def demo_mem_def kv_Get_def kv_Set_def kv_SetOnEvicted_def kv_New_def Let_def)

lemma demo_cachable: "IsRespCachable (internalRules.truncate (hd_rules demo_handler)) (response.truncate demo_response)
    = (Hour, True)"
  unfolding demo_handler_def handler.select_convs by code_simp



section \<open>The header that is stored\<close>

lemma map_of_append_headers:
  "distinct (map fst h) \<Longrightarrow> map_of (append_headers h m) k =
     (case map_of h k of None \<Rightarrow> map_of m k
      | Some v \<Rightarrow> Some ((case map_of m k of None \<Rightarrow> [] | Some vs \<Rightarrow> vs) @ v))"
proof (induction h arbitrary: m)
  case Nil
  then show ?case by (simp add: append_headers_def)
next
  case (Cons kv h)
  obtain k0 v0 where kv: "kv = (k0, v0)" by (cases kv)
  define m1 where "m1 = AList.update k0 ((case map_of m k0 of None \<Rightarrow> [] | Some vs \<Rightarrow> vs) @ v0) m"
  have "append_headers (kv # h) m = append_headers h m1" by (simp add: append_headers_def m1_def kv)
  moreover have "map_of h k0 = None" using Cons.prems kv by (simp add: map_of_eq_None_iff)
  ultimately show ?case
    using Cons.IH [of m1] Cons.prems kv by (auto simp: m1_def update_conv' split: option.split)
qed

lemma header_Get_append_headers: "distinct (map fst h) \<Longrightarrow> header_Get (append_headers h []) k = header_Get h k"
  by (simp add: header_Get_def map_of_append_headers split: option.split)

lemma distinct_fold_Del: "distinct (map fst h) \<Longrightarrow> distinct (map fst (fold header_Del ks h))"
  by (induction ks arbitrary: h) (simp_all add: header_Del_def distinct_delete)

lemma resp_headers_get:
  assumes "distinct (map fst (rs_Header resp))" "canonical_key k \<noteq> ''Connection''" "canonical_key k \<noteq> ''Last-Modified''"
  shows "header_Get (rs_Header (resp_headers cfg date proto resp)) k =
     (if canonical_key k \<in> canonical_key ` set privateHeaders \<or> removed cfg k then []
      else header_Get (rs_Header resp) k)"
    and "distinct (map fst (rs_Header (resp_headers cfg date proto resp)))"
proof -
  have c: "canonical_key ''Connection'' = ''Connection''" "canonical_key ''Last-Modified'' = ''Last-Modified''"
    by code_simp+
  show "header_Get (rs_Header (resp_headers cfg date proto resp)) k =
     (if canonical_key k \<in> canonical_key ` set privateHeaders \<or> removed cfg k then []
      else header_Get (rs_Header resp) k)"
    using assms(2,3) c by (auto simp: resp_headers_def Let_def removed_def header_Get_fold_Del)
  show "distinct (map fst (rs_Header (resp_headers cfg date proto resp)))"
    using assms(1) by (simp add: resp_headers_def Let_def header_Set_def distinct_update distinct_fold_Del)
qed

lemma header_names:
  "canonical_key ` set privateHeaders = {''Set-Cache'', ''Proxy-Authenticate'', ''Www-Authenticate''}"
  "canonical_key ''Set-Cookie'' = ''Set-Cookie''"
proof -
  have "canonical_key ''Set-Cache'' = ''Set-Cache''" "canonical_key ''Proxy-Authenticate'' = ''Proxy-Authenticate''"
    "canonical_key ''WWW-Authenticate'' = ''Www-Authenticate''" by code_simp+
  then show "canonical_key ` set privateHeaders = {''Set-Cache'', ''Proxy-Authenticate'', ''Www-Authenticate''}"
    by (simp add: privateHeaders_def)
  show "canonical_key ''Set-Cookie'' = ''Set-Cookie''" by code_simp
qed

text \<open>
  A stored response has lost the headers that are called private, and those the
  configuration removes; all others are stored as they came, but for Connection and
  Last-Modified. Set-Cookie is not among the private ones (Set-Cache is): unless the
  configuration removes it, the cookies given to one client are stored for all.
\<close>

theorem stored_header_fields:
  assumes "modifyResponse ev cfg key proto resp ttl s = (Returns None, resp', s')" "pool_clean s"
    and "distinct (map fst (rs_Header resp))"
  defines "h \<equiv> im_Header (lsm_item (se_item ev) s')"
  shows "(\<forall>k. canonical_key k \<notin> {''Connection'', ''Last-Modified''} \<longrightarrow> header_Get h k =
      (if canonical_key k \<in> {''Set-Cache'', ''Proxy-Authenticate'', ''Www-Authenticate''} \<or> removed cfg k
       then [] else header_Get (rs_Header resp) k)) \<and>
    (\<not> removed cfg ''Set-Cookie'' \<longrightarrow> header_Get h ''Set-Cookie'' = header_Get (rs_Header resp) ''Set-Cookie'')"
proof -
  have h: "h = append_headers (rs_Header (resp_headers cfg (se_date ev) proto resp)) []"
    unfolding h_def by (rule modifyResponse_stored(5) [OF assms(1,2)])
  have "header_Get h k = (if canonical_key k \<in> {''Set-Cache'', ''Proxy-Authenticate'', ''Www-Authenticate''} \<or> removed cfg k
      then [] else header_Get (rs_Header resp) k)"
    if "canonical_key k \<notin> {''Connection'', ''Last-Modified''}" for k
    unfolding h using resp_headers_get [OF assms(3), of k] that
    by (simp add: header_Get_append_headers header_names(1))
  then show ?thesis using header_names(2) by simp
qed

theorem stored_header_fields_witness:
  "\<exists>resp' s'. modifyResponse demo_env1 demo_config 5 1
      (demo_response\<lparr>rs_Header := [(''Set-Cookie'', [''id=1'']), (''X-Secret'', [''x''])]\<rparr>) Hour
      (demo_lsm\<lparr>ls_MinLSMTTL := 2 * Hour\<rparr>) = (Returns None, resp', s') \<and>
    header_Get (im_Header (lsm_item 9 s')) ''Set-Cookie'' = ''id=1'' \<and>
    header_Get (im_Header (lsm_item 9 s')) ''X-Secret'' = []"
proof -
  let ?resp = "demo_response\<lparr>rs_Header := [(''Set-Cookie'', [''id=1'']), (''X-Secret'', [''x''])]\<rparr>"
  have "\<exists>resp' s'. modifyResponse demo_env1 demo_config 5 1 ?resp Hour (demo_lsm\<lparr>ls_MinLSMTTL := 2 * Hour\<rparr>)
     = (Returns None, resp', s')"
  proof (rule modifyResponse_succeeds)
    show "header_Get (rs_Header (resp_headers demo_config (se_date demo_env1) 1 ?resp)) ''Content-Length'' = []"
      by code_simp
  qed (simp_all add: demo_pool demo_env1_def demo_response_def Hour_def Minute_def Second_def)
  then obtain resp' s' where m: "modifyResponse demo_env1 demo_config 5 1 ?resp Hour (demo_lsm\<lparr>ls_MinLSMTTL := 2 * Hour\<rparr>)
     = (Returns None, resp', s')" by blast
  have c: "canonical_key ''X-Secret'' = ''X-Secret''" "removed demo_config ''X-Secret''"
    "\<not> removed demo_config ''Set-Cookie''" "header_Get (rs_Header ?resp) ''Set-Cookie'' = ''id=1''"
    by code_simp+
  have "se_item demo_env1 = 9" by (simp add: demo_env1_def)
  with stored_header_fields [OF m demo_pool] m c show ?thesis by simp
qed


section \<open>Requests that must not touch the cache\<close>

lemma lsm_lookup_Delete:
  "lsm_lookup t k (lsm_Delete k s) = Some None"
  "kv_inv (ls_mem s) \<Longrightarrow> k' \<noteq> k \<Longrightarrow> lsm_lookup t k' (lsm_Delete k s) = lsm_lookup t k' s"
  "kv_inv (ls_mem s) \<Longrightarrow> kv_inv (ls_mem (lsm_Delete k s))"
  by (simp_all add: lsm_lookup_def lsm_Delete_def kv_Get_RemoveByKey kv_Get_RemoveByKey_other kv.ok_del)

lemma lsm_lookup_Deletes:
  assumes "kv_inv (ls_mem s)"
  shows "lsm_lookup t k (fold (\<lambda>i. lsm_Delete (f i)) is s) = (if k \<in> f ` set is then Some None else lsm_lookup t k s)"
  using assms
proof (induction "is" arbitrary: s rule: rev_induct)
  case Nil
  then show ?case by simp
next
  case (snoc i "is")
  have inv: "kv_inv (ls_mem (fold (\<lambda>i. lsm_Delete (f i)) xs s))" if "kv_inv (ls_mem s)" for xs s
    using that by (induction xs arbitrary: s) (simp_all add: lsm_lookup_Delete(3))
  show ?case
    using snoc lsm_lookup_Delete(2) [OF inv [OF snoc.prems, of "is"], of k "f i" t]
    by (cases "k = f i") (auto simp: lsm_lookup_Delete(1))
qed

lemma devices: "length uaDeviceCleaner = 5"
  by (simp add: uaDeviceCleaner_def)

lemma rp_copy_HIT: "hl_HIT (rp_copy cfg resp w) = hl_HIT w"
proof -
  let ?h = "fold (\<lambda>(k, vs) h. fold (header_Add k) vs h) (rs_Header resp) (hl_Header w)"
  let ?w = "hl_WriteHeader (handler_customTags cfg) (rs_StatusCode resp) (hl_set_header ?h w)"
  obtain n e w' where c: "io_Copy hl_Write (case hp_Body resp of None \<Rightarrow> [] | Some b \<Rightarrow> b) 0 ?w = (n, e, w')"
    by (rule prod_cases3)
  have "hl_HIT ?w = hl_HIT w" by (simp add: hl_WriteHeader_def hl_set_header_def handler_customTags_def)
  moreover have "hl_HIT w' = hl_HIT ?w \<and> (e = None \<longrightarrow> hl_body w' = hl_body ?w @ (case hp_Body resp of None \<Rightarrow> [] | Some b \<Rightarrow> b))"
    by (rule io_Copy_honest [of "\<lambda>v. hl_HIT v = hl_HIT ?w" _ hl_body, OF _ refl c])
      (auto simp: hl_Write_def rw_Write_def rw_WriteHeader_def hl_body_def Let_def split: option.splits)
  ultimately show ?thesis using c by (simp add: rp_copy_def Let_def)
qed

lemma sent_text_HIT:
  "hl_HIT (hl_print s w) = hl_HIT w" "hl_HIT (hl_WriteHeader f code w) = hl_HIT w" "hl_HIT (hl_set_header h w) = hl_HIT w"
  by (simp_all add: hl_print_def hl_Write_def hl_WriteHeader_def hl_set_header_def split: prod.split)

lemma reverseProxy_uncachable: "reverseProxy ev False key r w h = (out, w', h') \<Longrightarrow> h' = h \<and> hl_HIT w' = hl_HIT w"
  by (auto simp: reverseProxy_def badGateway_def rp_ErrorHandler_def sent_text_HIT rp_copy_HIT Let_def
      split: option.splits prod.splits)

lemma proxied_cache: "proxied (out, w, h) = (out', w', h') \<Longrightarrow> h' = h \<and> hl_HIT w' = hl_HIT w"
  by (auto simp: proxied_def split: outcome.splits bool.splits)

lemma logged_cache: "logged (out, w, h) = (out', w', h') \<Longrightarrow> hd_cache h' = hd_cache h \<and> w' = w"
  by (auto simp: logged_def split: if_splits)

text \<open>
  C10. A request that the rules do not allow to be cached is never answered from the cache and
  never stored: the cache finds afterwards what it found before, but for a request that is
  refused because of its cookies, which takes the keys of its URL for the devices 0 to 4 out.
  Keys of other classes of devices stay.
\<close>

theorem private_request_not_cached:
  assumes "request_rules (hd_rules h) r = (False, refresh)" "kv_inv (ls_mem (hd_cache h))"
    and "ServeHTTP ev fl r orgW h = (out, w, h')"
  shows "\<not> hl_HIT w \<and> lsm_lookup t k (hd_cache h') =
    (if refresh \<and> k \<in> (\<lambda>d. se_hash ev (GetKeyStrDevice (httplog_New (se_ua ev) r orgW) d)) ` {0, 1, 2, 3, 4}
     then Some None else lsm_lookup t k (hd_cache h))"
proof -
  let ?hl = "httplog_New (se_ua ev) r orgW"
  let ?h1 = "if refresh then h\<lparr>hd_cache := purge (se_hash ev) ?hl (hd_cache h)\<rparr> else h"
  obtain o1 w1 h1 where p: "reverseProxy ev False (se_hash ev (GetKeyStr ?hl)) r ?hl ?h1 = (o1, w1, h1)"
    by (rule prod_cases3)
  obtain o2 w2 h2 where q: "proxied (o1, w1, h1) = (o2, w2, h2)" by (rule prod_cases3)
  have "logged (o2, w2, h2) = (out, w, h')" using assms(1,3) p q by (simp add: ServeHTTP_def Let_def)
  then have h': "hd_cache h' = hd_cache ?h1" "hl_HIT w = hl_HIT ?hl"
    using logged_cache proxied_cache [OF q] reverseProxy_uncachable [OF p] by fastforce+
  have n: "set [0..<5] = {0, 1, 2, 3, 4 :: nat}" by auto
  have img: "(\<lambda>d. f (int d)) ` set [0..<5] = f ` {0, 1, 2, 3, 4}" for f :: "int \<Rightarrow> u64"
    unfolding n by simp
  have D: "lsm_lookup t k (purge (se_hash ev) ?hl (hd_cache h)) =
      (if k \<in> (\<lambda>d. se_hash ev (GetKeyStrDevice ?hl d)) ` {0, 1, 2, 3, 4} then Some None
       else lsm_lookup t k (hd_cache h))"
    unfolding purge_def devices lsm_lookup_Deletes [OF assms(2)]
      img [of "\<lambda>d. se_hash ev (GetKeyStrDevice ?hl d)"] by (rule refl)
  have "\<not> hl_HIT ?hl" by (simp add: httplog_New_def Let_def)
  moreover have "hd_cache (h\<lparr>hd_cache := s\<rparr>) = s" for s by simp
  ultimately show ?thesis using h' D by (cases refresh) (simp_all only: if_True if_False simp_thms)
qed


definition demo_private_request :: http_request where
  "demo_private_request = (demo_http_request ''/a'' [])\<lparr>rq_Header := [(''Cookie'', [''session=1''])]\<rparr>"

theorem private_request_not_cached_witness:
  "case ServeHTTP (demo_env1\<lparr>se_hash := (\<lambda>_. 7)\<rparr>) First demo_private_request demo_writer demo_handler of
     (out, w, h') \<Rightarrow> \<not> hl_HIT w \<and> lsm_lookup 1 7 (hd_cache h') = Some None"
proof -
  let ?ev = "demo_env1\<lparr>se_hash := (\<lambda>_. 7)\<rparr>"
  obtain out w h' where s: "ServeHTTP ?ev First demo_private_request demo_writer demo_handler = (out, w, h')"
    by (rule prod_cases3)
  have r: "request_rules (hd_rules demo_handler) demo_private_request = (False, True)"
    unfolding demo_handler_def handler.select_convs by code_simp
  have "kv_inv (ls_mem (hd_cache demo_handler))" using demo_mem(3) by (simp add: demo_handler_def demo_lsm_def)
  from private_request_not_cached [OF r this s, of 1 7] s show ?thesis by simp
qed

text \<open>
  When the limiter refuses a request that would have to go to the backend, the client gets
  the limiter's status and message, the log entry is marked, the cache is unchanged, and the
  backend is not asked: its answers make no difference.
\<close>

theorem over_limit_not_forwarded:
  assumes "request_rules (hd_rules h) r = (True, refresh)"
    and "lsm_lookup (se_now ev) (se_hash ev (GetKeyStr (httplog_New (se_ua ev) r orgW))) (hd_cache h) = Some None"
    and "\<not> BackendOnce (hd_cfg h) \<or> fl = First"
    and "se_limiter ev r (rw_Header orgW) = (Some (code, msg), hdr)" "rw_Sent orgW = None" "rw_Body orgW = []"
  shows "\<exists>w h' H. ServeHTTP (ev\<lparr>se_backend := backend\<rparr>) fl r orgW h = (Returns (), w, h') \<and>
    ServeHTTP ev fl r orgW h = (Returns (), w, h') \<and>
    answer w = (Some (code, H), bytes_of msg) \<and> hl_RateLimit w \<and> hd_cache h' = hd_cache h"
proof -
  let ?hl = "httplog_New (se_ua ev) r orgW"
  let ?w = "badGateway (hd_cfg h) code msg (hl_set_header hdr ?hl)"
  have run: "ServeHTTP ev' fl r orgW h = logged (Returns (), ?w\<lparr>hl_RateLimit := True\<rparr>, h)"
    if e: "se_ua ev' = se_ua ev" "se_hash ev' = se_hash ev" "se_limiter ev' = se_limiter ev" "se_now ev' = se_now ev"
    for ev'
  proof -
    let ?key = "se_hash ev (GetKeyStr ?hl)"
    have "reverseProxy ev' True ?key r ?hl h = (Returns False, ?w, h)"
      using assms(4) e(3) by (simp add: reverseProxy_def Let_def)
    moreover have "cached_or ev' ?key r ?hl h next = next ?hl h" for "next"
      using respondFromCache_miss [OF assms(2)] e(4) by (simp add: cached_or_def)
    ultimately show ?thesis using assms(1,3) unfolding ServeHTTP_def Let_def e(1,2) by (auto simp: proxied_def)
  qed
  have "fresh_log (hl_set_header hdr ?hl)" using assms(5,6) by simp
  note s = WriteHeader_sending [OF this, where code = code and cfg = "hd_cfg h"]
  note p = hl_print_sending [OF s(1), of msg]
  have "answer ?w = (Some (code, sent_header (hd_cfg h) (hl_set_header hdr ?hl)), bytes_of msg)"
    using hl_sending_answer [OF p [THEN conjunct1]] p s(2) by (simp add: badGateway_def)
  then show ?thesis
    using run [of ev] run [of "ev\<lparr>se_backend := backend\<rparr>"] by (simp add: logged_def)
qed

theorem over_limit_not_forwarded_witness:
  "\<exists>w h' H. ServeHTTP (demo_env1\<lparr>se_limiter := (\<lambda>_ h. (Some (429, ''wait''), h))\<rparr>) First
      (demo_http_request ''/a'' []) demo_writer demo_handler = (Returns (), w, h') \<and>
    answer w = (Some (429, H), bytes_of ''wait'') \<and> hl_RateLimit w"
proof -
  let ?ev = "demo_env1\<lparr>se_limiter := (\<lambda>_ h. (Some (429, ''wait''), h))\<rparr>"
  have "lsm_lookup (se_now ?ev) (se_hash ?ev (GetKeyStr (httplog_New (se_ua ?ev) (demo_http_request ''/a'' []) demo_writer)))
      (hd_cache demo_handler) = Some None"
    using demo_key [of demo_writer] demo_miss by (simp add: demo_handler_def)
  moreover have "\<not> BackendOnce (hd_cfg demo_handler) \<or> First = First" by simp
  moreover have "se_limiter ?ev (demo_http_request ''/a'' []) (rw_Header demo_writer)
      = (Some (429, ''wait''), rw_Header demo_writer)" "rw_Sent demo_writer = None" "rw_Body demo_writer = []"
    by (simp_all add: demo_writer_def)
  ultimately show ?thesis
    using over_limit_not_forwarded [OF demo_request_rules, of ?ev demo_writer First 429 "''wait''"
        "rw_Header demo_writer" "\<lambda>_ _. None"] by blast
qed

text \<open>
  With \<open>BackendOnce\<close>, a request that waited while another was at the backend is answered
  from what that one stored; when it stored nothing it goes to the backend itself; and when the
  time is up first it gets a 502, which is written past the log, and nothing is stored.
\<close>

theorem waiting_requests:
  assumes "request_rules (hd_rules h) r = (True, refresh)" "BackendOnce (hd_cfg h)"
    and "key = se_hash ev (GetKeyStr (httplog_New (se_ua ev) r orgW))"
    and "lsm_lookup (se_now ev) key (hd_cache h) = Some None"
    and "header_Get (rq_Header r) ''Range'' = []" "se_open_ok ev" "rw_Sent orgW = None" "rw_Body orgW = []"
    and "item_GetHeader (fl_fs (ls_files (hd_cache h2))) (env (ls_mem (hd_cache h2))) it = Header_is hs"
    and "item_ready (fl_fs (ls_files (hd_cache h2))) (env (ls_mem (hd_cache h2))) it"
  shows "(lsm_lookup (se_now ev) key (hd_cache h2) = Some (Some (it, x)) \<longrightarrow>
      (\<exists>w h' H. ServeHTTP ev (Waited h2) r orgW h = (Returns (), w, h') \<and> hl_HIT w \<and>
        answer w = (Some (item_GetStatusCode (env (ls_mem (hd_cache h2))) it, H),
          item_body (fl_fs (ls_files (hd_cache h2))) (env (ls_mem (hd_cache h2))) it))) \<and>
    (lsm_lookup (se_now ev) key (hd_cache h2) = Some None \<longrightarrow>
      ServeHTTP ev (Waited h2) r orgW h
        = logged (proxied (reverseProxy ev True key r (httplog_New (se_ua ev) r orgW) h2))) \<and>
    (\<exists>w h' H. ServeHTTP ev Timeout_waiting r orgW h = (Returns (), w, h') \<and>
      answer w = (Some (502, H), bytes_of ''RFC 7231, 6.6.3'') \<and> hl_StatusCode w = 0 \<and> hd_cache h' = hd_cache h)"
proof -
  let ?hl = "httplog_New (se_ua ev) r orgW"
  have first: "cached_or ev key r ?hl h next = next ?hl h" for "next"
    using respondFromCache_miss [OF assms(4)] by (simp add: cached_or_def)
  have waited: "ServeHTTP ev (Waited h2) r orgW h
      = logged (cached_or ev key r ?hl h2 (\<lambda>w h3. proxied (reverseProxy ev True key r w h3)))"
    using assms(1,2) first unfolding ServeHTTP_def Let_def assms(3) [symmetric] by simp
  have hit: "\<exists>w h' H. ServeHTTP ev (Waited h2) r orgW h = (Returns (), w, h') \<and> hl_HIT w \<and>
        answer w = (Some (item_GetStatusCode (env (ls_mem (hd_cache h2))) it, H),
          item_body (fl_fs (ls_files (hd_cache h2))) (env (ls_mem (hd_cache h2))) it)"
    if l: "lsm_lookup (se_now ev) key (hd_cache h2) = Some (Some (it, x))"
  proof -
    have "fresh_log ?hl" using assms(7,8) by simp
    from served_full [OF l assms(10,9,5) this, of "hd_cfg h2"] obtain w1 w0 where
      "respondFromCache (hd_cfg h2) True (se_now ev) key r ?hl (hd_cache h2)
        = (Returns True, w1, lsm_Done it (lsm_pin it (hd_cache h2)))"
      "answer w1 = (Some (item_GetStatusCode (env (ls_mem (hd_cache h2))) it, sent_header (hd_cfg h2) w0),
        item_body (fl_fs (ls_files (hd_cache h2))) (env (ls_mem (hd_cache h2))) it)" by blast
    then show ?thesis using waited assms(6) by (simp add: cached_or_def logged_def)
  qed
  have miss: "ServeHTTP ev (Waited h2) r orgW h = logged (proxied (reverseProxy ev True key r ?hl h2))"
    if "lsm_lookup (se_now ev) key (hd_cache h2) = Some None"
    using waited respondFromCache_miss [OF that] by (simp add: cached_or_def)
  have "ServeHTTP ev Timeout_waiting r orgW h = logged (Returns (),
      ?hl\<lparr>hl_w := snd (snd (rw_Write (bytes_of ''RFC 7231, 6.6.3'') (rw_WriteHeader 502 (hl_w ?hl))))\<rparr>, h)"
    using assms(1,2) first unfolding ServeHTTP_def Let_def assms(3) [symmetric] by simp
  then have "\<exists>w h' H. ServeHTTP ev Timeout_waiting r orgW h = (Returns (), w, h') \<and>
      answer w = (Some (502, H), bytes_of ''RFC 7231, 6.6.3'') \<and> hl_StatusCode w = 0 \<and> hd_cache h' = hd_cache h"
    using assms(7,8)
    by (simp add: logged_def answer_def hl_body_def rw_Write_def rw_WriteHeader_def httplog_New_def Let_def)
  with hit miss show ?thesis by blast
qed


theorem waiting_requests_witness:
  "let h = demo_handler\<lparr>hd_cfg := demo_config\<lparr>BackendOnce := True\<rparr>, hd_cache := lsm_New 0 (\<lambda>_. demo_itemMem) demo_store\<rparr> in
   (\<exists>w h' H. ServeHTTP (demo_env1\<lparr>se_hash := (\<lambda>_. 7)\<rparr>) (Waited demo_handler) (demo_http_request ''/a'' []) demo_writer h
      = (Returns (), w, h') \<and> hl_HIT w \<and> answer w = (Some (200, H), [1, 2, 3])) \<and>
   (\<exists>w h' H. ServeHTTP (demo_env1\<lparr>se_hash := (\<lambda>_. 7)\<rparr>) Timeout_waiting (demo_http_request ''/a'' []) demo_writer h
      = (Returns (), w, h') \<and> answer w = (Some (502, H), bytes_of ''RFC 7231, 6.6.3''))"
proof -
  let ?ev = "demo_env1\<lparr>se_hash := (\<lambda>_. 7)\<rparr>" and ?r = "demo_http_request ''/a'' []"
  let ?h = "demo_handler\<lparr>hd_cfg := demo_config\<lparr>BackendOnce := True\<rparr>, hd_cache := lsm_New 0 (\<lambda>_. demo_itemMem) demo_store\<rparr>"
  have h: "request_rules (hd_rules ?h) ?r = (True, False)" "BackendOnce (hd_cfg ?h)"
    "lsm_lookup (se_now ?ev) 7 (hd_cache ?h) = Some None" "7 = se_hash ?ev (GetKeyStr (httplog_New (se_ua ?ev) ?r demo_writer))"
    "se_open_ok ?ev" "rw_Sent demo_writer = None" "rw_Body demo_writer = []" "se_now ?ev = 0"
    using demo_request_rules by (simp_all add: demo_env1_def demo_writer_def lsm_lookup_def lsm_New_def kv_Get_def
        kv_SetOnEvicted_def kv_New_def)
  let ?s = "hd_cache demo_handler"
  have s: "env (ls_mem ?s) = env (ls_mem demo_lsm)" "ls_files ?s = ls_files demo_lsm"
    "lsm_lookup 0 7 ?s = Some (Some (VMem 5, False))"
    using demo_lsm_item(1) [of 0] by (simp_all add: demo_handler_def lsm_lookup_def Second_def)
  note i = demo_lsm_item(2-5) [folded s(1,2)]
  show ?thesis
    using waiting_requests [OF h(1,2,4,3) demo_log(2) h(5-7) i(2,1), of False] s(3) i(3,4)
    unfolding Let_def h(8) by auto
qed

end
