(* ===== verification/Certs.thy ===== *)
theory Certs
  imports Go_Strings Go_Time
begin

text \<open>
  \<open>certs/certs.go\<close> and \<open>certs/listcerts.go\<close>: the certificates for TLS, found by the name of the
  host, or by a wildcard; a certificate that is missing or expired is asked for from an ACME
  authority (\<open>acme\<close>, third-party). Parsing keys and certificates is an argument too.

  Certificates are compared by their address, so they live in a heap. A Go map is an
  association list in the order in which the next iteration will see it.
\<close>

record leaf =
  lf_DNSNames :: "string list"
  lf_NotAfter :: time

record certificate =
  ct_Certificate :: "byte list list"
  ct_Leaf :: "leaf option"

record pemCert =
  pem_Domains :: string
  pem_Key :: string
  pem_Cert :: string

datatype cert_error = ErrCertExpired | ErrCertNotFound | ErrAcme | ErrParse

definition whileCardPrefix :: string where "whileCardPrefix = ''*.''"

section \<open>Lists of certificates\<close>

type_synonym listCerts = "(string \<times> addr) list"

definition lc_Set :: "string \<Rightarrow> addr \<Rightarrow> listCerts \<Rightarrow> listCerts" where
  "lc_Set domain cert l = AList.update domain cert l"

definition lc_Get :: "string \<Rightarrow> listCerts \<Rightarrow> addr option \<times> bool" where
  "lc_Get domain l = (map_of l domain, map_of l domain \<noteq> None)"

text \<open>When nothing fits, the result still holds the last certificate that was looked at.\<close>

fun lc_GetWC_loop :: "string \<Rightarrow> listCerts \<Rightarrow> addr option \<Rightarrow> addr option \<times> bool" where
  "lc_GetWC_loop domain [] cert = (cert, False)"
| "lc_GetWC_loop domain ((candidate, c) # l) cert =
     (if HasSuffix domain candidate then (Some c, True) else lc_GetWC_loop domain l (Some c))"

definition lc_GetWC :: "string \<Rightarrow> listCerts \<Rightarrow> addr option \<times> bool" where
  "lc_GetWC domain l = lc_GetWC_loop domain l None"

section \<open>The store of certificates\<close>

text \<open>The settings of the ACME client are kept as they were set last.\<close>

record certs_config =
  cc_CA :: string
  cc_Email :: string
  cc_PEM :: "pemCert list"
  cc_EtcdEndpoints :: "string list"
  cc_AltHTTPPort :: int
  cc_AltTLSALPNPort :: int

record acme_settings =
  ac_Storage :: "string list"
  ac_CA :: string
  ac_Agreed :: bool
  ac_Email :: string
  ac_AltHTTPPort :: int
  ac_AltTLSALPNPort :: int
  ac_DisableTLSALPNChallenge :: bool

record certs =
  cs_heap :: "addr \<Rightarrow> certificate"
  cs_next :: addr
  cs_certs :: "listCerts option"
  cs_certsWC :: "listCerts option"
  cs_acme :: "acme_settings option"

definition no_certs :: "listCerts option \<Rightarrow> listCerts" where
  "no_certs l = (case l of None \<Rightarrow> [] | Some xs \<Rightarrow> xs)"

fun copySwap_loop :: "addr option \<Rightarrow> listCerts \<Rightarrow> listCerts \<Rightarrow> listCerts" where
  "copySwap_loop exclude [] new = new"
| "copySwap_loop exclude ((n, cert) # l) new =
     (if exclude \<noteq> None \<and> exclude = Some cert then copySwap_loop exclude l new
      else copySwap_loop exclude l (lc_Set n cert new))"

definition copySwap :: "addr option \<Rightarrow> certs \<Rightarrow> listCerts \<times> listCerts" where
  "copySwap exclude c =
     (copySwap_loop exclude (no_certs (cs_certs c)) [], copySwap_loop exclude (no_certs (cs_certsWC c)) [])"

fun certs_Store_loop :: "addr \<Rightarrow> string list \<Rightarrow> listCerts \<times> listCerts \<Rightarrow> listCerts \<times> listCerts" where
  "certs_Store_loop a [] ls = ls"
| "certs_Store_loop a (n # ns) (newList, newListWC) =
     (if n = [] then certs_Store_loop a ns (newList, newListWC)
      else if HasPrefix n whileCardPrefix
        then certs_Store_loop a ns (newList, lc_Set (tl n) a newListWC)
      else certs_Store_loop a ns (lc_Set n a newList, newListWC))"

text \<open>\<open>Store\<close> keeps a copy of its argument, at a new address; no leaf is a nil dereference.\<close>

definition certs_Store :: "certificate \<Rightarrow> certs \<Rightarrow> certs go" where
  "certs_Store cert c =
     (case ct_Leaf cert of
        None \<Rightarrow> None
      | Some lf \<Rightarrow>
          let a = cs_next c in
          case certs_Store_loop a (lf_DNSNames lf) (copySwap None c) of
            (newList, newListWC) \<Rightarrow>
              Some (c\<lparr>cs_heap := (cs_heap c)(a := cert), cs_next := a + 1,
                cs_certs := Some newList, cs_certsWC := Some newListWC\<rparr>))"

definition certs_Delete :: "addr \<Rightarrow> certs \<Rightarrow> certs" where
  "certs_Delete a c =
     (case copySwap (Some a) c of
        (newList, newListWC) \<Rightarrow> c\<lparr>cs_certs := Some newList, cs_certsWC := Some newListWC\<rparr>)"

definition expired_check :: "time \<Rightarrow> addr \<Rightarrow> certs \<Rightarrow> (addr option \<times> cert_error option) go" where
  "expired_check now a c =
     (case ct_Leaf (cs_heap c a) of
        None \<Rightarrow> None
      | Some lf \<Rightarrow> Some (Some a, if now > lf_NotAfter lf then Some ErrCertExpired else None))"

definition certs_Get :: "time \<Rightarrow> string \<Rightarrow> certs \<Rightarrow> (addr option \<times> cert_error option) go" where
  "certs_Get now domain c =
     (case lc_Get domain (no_certs (cs_certs c)) of
        (Some a, True) \<Rightarrow> expired_check now a c
      | _ \<Rightarrow>
          (case lc_GetWC domain (no_certs (cs_certsWC c)) of
             (Some a, True) \<Rightarrow> expired_check now a c
           | _ \<Rightarrow> Some (None, Some ErrCertNotFound)))"

text \<open>The certificate for a handshake; what ACME gives is stored for the next.\<close>

definition certs_GetCertificate ::
  "(string \<Rightarrow> certificate option) \<Rightarrow> (byte list \<Rightarrow> leaf option) \<Rightarrow> time \<Rightarrow> string \<Rightarrow> certs
     \<Rightarrow> ((cert_error + certificate) \<times> certs) go" where
  "certs_GetCertificate acme parse now serverName c =
     (if serverName = [] then Some (Inl ErrCertNotFound, c)
      else do {
        (cert, err) \<leftarrow> certs_Get now serverName c;
        (case (cert, err) of
           (Some a, None) \<Rightarrow> Some (Inr (cs_heap c a), c)
         | _ \<Rightarrow>
             let c1 = (case cert of None \<Rightarrow> c | Some a \<Rightarrow> certs_Delete a c) in
             case acme serverName of
               None \<Rightarrow> Some (Inl ErrAcme, c1)
             | Some crt \<Rightarrow>
                 (case ct_Leaf crt of
                    Some _ \<Rightarrow> do { c2 \<leftarrow> certs_Store crt c1; Some (Inr crt, c2) }
                  | None \<Rightarrow>
                      (case ct_Certificate crt of
                         [] \<Rightarrow> None
                       | der # _ \<Rightarrow>
                           (case parse der of
                              None \<Rightarrow> Some (Inl ErrParse, c1)
                            | Some lf \<Rightarrow> do {
                                c2 \<leftarrow> certs_Store (crt\<lparr>ct_Leaf := Some lf\<rparr>) c1;
                                Some (Inr (crt\<lparr>ct_Leaf := Some lf\<rparr>), c2) }))))
      })"

text \<open>The certificates of the configuration; those that cannot be read are skipped.\<close>

fun LoadCertsFromConfig ::
  "(pemCert \<Rightarrow> certificate option) \<Rightarrow> (byte list \<Rightarrow> leaf option) \<Rightarrow> pemCert list \<Rightarrow> certs \<Rightarrow> certs go" where
  "LoadCertsFromConfig keyPair parse [] c = Some c"
| "LoadCertsFromConfig keyPair parse (v # pems) c =
     (case keyPair v of
        None \<Rightarrow> LoadCertsFromConfig keyPair parse pems c
      | Some crt \<Rightarrow>
          (case ct_Certificate crt of
             [] \<Rightarrow> None
           | der # _ \<Rightarrow>
               (case parse der of
                  None \<Rightarrow> LoadCertsFromConfig keyPair parse pems c
                | Some lf \<Rightarrow> do {
                    c1 \<leftarrow> certs_Store (crt\<lparr>ct_Leaf := Some lf\<rparr>) c;
                    LoadCertsFromConfig keyPair parse pems c1 })))"

definition certs_Reload ::
  "(pemCert \<Rightarrow> certificate option) \<Rightarrow> (byte list \<Rightarrow> leaf option) \<Rightarrow> certs_config option \<Rightarrow> certs \<Rightarrow> certs go" where
  "certs_Reload keyPair parse cfg c = do {
     cfg1 \<leftarrow> cfg;
     c1 \<leftarrow> LoadCertsFromConfig keyPair parse (cc_PEM cfg1) c;
     Some (c1\<lparr>cs_acme := Some \<lparr>
       ac_Storage = (if cc_EtcdEndpoints cfg1 = [] then [''http://localhost:2379''] else cc_EtcdEndpoints cfg1),
       ac_CA = cc_CA cfg1, ac_Agreed = True, ac_Email = cc_Email cfg1, ac_AltHTTPPort = cc_AltHTTPPort cfg1,
       ac_AltTLSALPNPort = cc_AltTLSALPNPort cfg1, ac_DisableTLSALPNChallenge = True\<rparr>\<rparr>)
   }"

definition certs_New ::
  "(pemCert \<Rightarrow> certificate option) \<Rightarrow> (byte list \<Rightarrow> leaf option) \<Rightarrow> certs_config option \<Rightarrow> certs go" where
  "certs_New keyPair parse cfg =
     (case cfg of
        None \<Rightarrow> None
      | Some _ \<Rightarrow> certs_Reload keyPair parse cfg
          \<lparr>cs_heap = (\<lambda>_. \<lparr>ct_Certificate = [], ct_Leaf = None\<rparr>), cs_next = 0, cs_certs = None,
           cs_certsWC = None, cs_acme = None\<rparr>)"

end
