(* ===== verification/Certs_Props.thy ===== *)
theory Certs_Props
  imports Certs
begin

text \<open>
  Every entry of the lists leads to a certificate that carries the name, through all operations;
  so what a handshake is given is for the host that was asked for, and not expired.
\<close>

section \<open>Copying the lists\<close>

definition same_map :: "listCerts \<Rightarrow> listCerts \<Rightarrow> bool" where
  "same_map l l' \<longleftrightarrow> map_of l = map_of l'"

lemma copySwap_loop:
  "distinct (map fst l) \<Longrightarrow> map_of (copySwap_loop exclude l new) n =
     (case map_of l n of
        None \<Rightarrow> map_of new n
      | Some a \<Rightarrow> if exclude = Some a then map_of new n else Some a)"
proof (induction exclude l new rule: copySwap_loop.induct)
  case (1 exclude new)
  then show ?case by simp
next
  case (2 exclude n0 cert l new)
  then have "map_of l n0 = None" by (simp add: map_of_eq_None_iff)
  with 2 show ?case by (auto simp: lc_Set_def update_conv' split: option.splits)
qed

lemma copySwap_loop_distinct: "distinct (map fst new) \<Longrightarrow> distinct (map fst (copySwap_loop exclude l new))"
  by (induction exclude l new rule: copySwap_loop.induct) (auto simp: lc_Set_def distinct_update)

lemma copySwap_maps:
  assumes "distinct (map fst l)"
  shows "map_of (copySwap_loop None l []) = map_of l" "distinct (map fst (copySwap_loop e l []))"
    "map_of (copySwap_loop (Some a) l []) n = (if map_of l n = Some a then None else map_of l n)"
  using copySwap_loop [OF assms, of _ "[]"] copySwap_loop_distinct [of "[]" e l]
  by (auto split: option.splits)

text \<open>The names that \<open>Store\<close> enters, in the list of names and in the list of wildcards.\<close>

definition plain_name :: "string \<Rightarrow> bool" where
  "plain_name n \<longleftrightarrow> n \<noteq> [] \<and> \<not> HasPrefix n whileCardPrefix"

lemma certs_Store_loop:
  assumes "certs_Store_loop a ns (l, lw) = (l', lw')"
  shows "map_of l' n = (if n \<in> set ns \<and> plain_name n then Some a else map_of l n)"
    and "map_of lw' n = (if CHR ''*'' # n \<in> set ns \<and> HasPrefix n ''.'' then Some a else map_of lw n)"
    and "distinct (map fst l) \<Longrightarrow> distinct (map fst l')" "distinct (map fst lw) \<Longrightarrow> distinct (map fst lw')"
proof -
  have star: "HasPrefix m whileCardPrefix \<longleftrightarrow> (\<exists>k. m = CHR ''*'' # k \<and> HasPrefix k ''.'')" for m
    by (cases m) (auto simp: HasPrefix_def whileCardPrefix_def)
  have "map_of l' n = (if n \<in> set ns \<and> plain_name n then Some a else map_of l n) \<and>
    map_of lw' n = (if CHR ''*'' # n \<in> set ns \<and> HasPrefix n ''.'' then Some a else map_of lw n) \<and>
    (distinct (map fst l) \<longrightarrow> distinct (map fst l')) \<and> (distinct (map fst lw) \<longrightarrow> distinct (map fst lw'))"
    using assms
  proof (induction ns arbitrary: l lw)
    case Nil
    then show ?case by simp
  next
    case (Cons m ns)
    consider (empty) "m = []" | (wild) k where "m = CHR ''*'' # k" "HasPrefix k ''.''" | (plain) "plain_name m"
      using star by (auto simp: plain_name_def)
    then show ?case
    proof cases
      case empty
      then show ?thesis using Cons by (auto simp: plain_name_def)
    next
      case wild
      then have "certs_Store_loop a ns (l, lc_Set k a lw) = (l', lw')" "\<not> plain_name m"
        using Cons.prems star by (auto simp: plain_name_def)
      from Cons.IH [OF this(1)] this(2) wild show ?thesis
        by (auto simp: lc_Set_def update_conv' distinct_update)
    next
      case plain
      then have "certs_Store_loop a ns (lc_Set m a l, lw) = (l', lw')" using Cons.prems by (simp add: plain_name_def)
      from Cons.IH [OF this] plain star show ?thesis
        by (auto simp: lc_Set_def update_conv' distinct_update plain_name_def)
    qed
  qed
  then show "map_of l' n = (if n \<in> set ns \<and> plain_name n then Some a else map_of l n)"
    "map_of lw' n = (if CHR ''*'' # n \<in> set ns \<and> HasPrefix n ''.'' then Some a else map_of lw n)"
    "distinct (map fst l) \<Longrightarrow> distinct (map fst l')" "distinct (map fst lw) \<Longrightarrow> distinct (map fst lw')" by simp_all
qed

section \<open>The invariant\<close>

definition names_of :: "certs \<Rightarrow> addr \<Rightarrow> string set" where
  "names_of c a = (case ct_Leaf (cs_heap c a) of None \<Rightarrow> {} | Some lf \<Rightarrow> set (lf_DNSNames lf))"

abbreviation exact :: "certs \<Rightarrow> string \<Rightarrow> addr option" where
  "exact c \<equiv> map_of (no_certs (cs_certs c))"

abbreviation wildcard :: "certs \<Rightarrow> string \<Rightarrow> addr option" where
  "wildcard c \<equiv> map_of (no_certs (cs_certsWC c))"

definition certs_ok :: "certs \<Rightarrow> bool" where
  "certs_ok c \<longleftrightarrow>
     distinct (map fst (no_certs (cs_certs c))) \<and> distinct (map fst (no_certs (cs_certsWC c))) \<and>
     (\<forall>n a. exact c n = Some a \<longrightarrow> a < cs_next c \<and> n \<in> names_of c a) \<and>
     (\<forall>n a. wildcard c n = Some a \<longrightarrow> a < cs_next c \<and> CHR ''*'' # n \<in> names_of c a \<and> HasPrefix n ''.'')"

lemma certs_Store_parts:
  assumes "certs_Store cert c = Some c'" "certs_ok c"
  shows "\<exists>lf. ct_Leaf cert = Some lf \<and>
      (\<forall>n. exact c' n = (if n \<in> set (lf_DNSNames lf) \<and> plain_name n then Some (cs_next c) else exact c n)) \<and>
      (\<forall>n. wildcard c' n = (if CHR ''*'' # n \<in> set (lf_DNSNames lf) \<and> HasPrefix n ''.''
         then Some (cs_next c) else wildcard c n))"
    and "cs_heap c' = (cs_heap c)(cs_next c := cert)" "cs_next c' = cs_next c + 1"
    and "distinct (map fst (no_certs (cs_certs c')))" "distinct (map fst (no_certs (cs_certsWC c')))"
proof -
  obtain lf where lf: "ct_Leaf cert = Some lf" using assms(1) by (auto simp: certs_Store_def split: option.splits)
  obtain l lw where loop: "certs_Store_loop (cs_next c) (lf_DNSNames lf)
      (copySwap_loop None (no_certs (cs_certs c)) [], copySwap_loop None (no_certs (cs_certsWC c)) []) = (l, lw)"
    by (rule prod.exhaust)
  have c': "c' = c\<lparr>cs_heap := (cs_heap c)(cs_next c := cert), cs_next := cs_next c + 1,
      cs_certs := Some l, cs_certsWC := Some lw\<rparr>"
    using assms(1) lf loop by (simp add: certs_Store_def copySwap_def Let_def)
  have d: "distinct (map fst (no_certs (cs_certs c)))" "distinct (map fst (no_certs (cs_certsWC c)))"
    using assms(2) by (simp_all add: certs_ok_def)
  note loop' = certs_Store_loop [OF loop] and cp = copySwap_maps [OF d(1)] copySwap_maps [OF d(2)]
  show "\<exists>lf. ct_Leaf cert = Some lf \<and>
      (\<forall>n. exact c' n = (if n \<in> set (lf_DNSNames lf) \<and> plain_name n then Some (cs_next c) else exact c n)) \<and>
      (\<forall>n. wildcard c' n = (if CHR ''*'' # n \<in> set (lf_DNSNames lf) \<and> HasPrefix n ''.''
         then Some (cs_next c) else wildcard c n))"
    using lf loop' cp by (simp add: c' no_certs_def)
  show "cs_heap c' = (cs_heap c)(cs_next c := cert)" "cs_next c' = cs_next c + 1" by (simp_all add: c')
  show "distinct (map fst (no_certs (cs_certs c')))" "distinct (map fst (no_certs (cs_certsWC c')))"
    using loop'(3,4) cp by (simp_all add: c' no_certs_def)
qed

lemma certs_ok_Store:
  assumes "certs_Store cert c = Some c'" "certs_ok c"
  shows "certs_ok c'"
proof -
  note p = certs_Store_parts [OF assms]
  obtain lf where lf: "ct_Leaf cert = Some lf"
    "\<And>n. exact c' n = (if n \<in> set (lf_DNSNames lf) \<and> plain_name n then Some (cs_next c) else exact c n)"
    "\<And>n. wildcard c' n = (if CHR ''*'' # n \<in> set (lf_DNSNames lf) \<and> HasPrefix n ''.''
         then Some (cs_next c) else wildcard c n)" using p(1) by blast
  have old: "names_of c' a = names_of c a" if "a < cs_next c" for a
    using that p(2) by (simp add: names_of_def)
  have new: "names_of c' (cs_next c) = set (lf_DNSNames lf)" using p(2) lf(1) by (simp add: names_of_def)
  have "a < cs_next c' \<and> n \<in> names_of c' a" if "exact c' n = Some a" for n a
    using that assms(2) old new p(3) unfolding lf(2) certs_ok_def
    by (cases "n \<in> set (lf_DNSNames lf) \<and> plain_name n") (auto simp: less_Suc_eq)
  moreover have "a < cs_next c' \<and> CHR ''*'' # n \<in> names_of c' a \<and> HasPrefix n ''.''" if "wildcard c' n = Some a" for n a
    using that assms(2) old new p(3) unfolding lf(3) certs_ok_def
    by (cases "CHR ''*'' # n \<in> set (lf_DNSNames lf) \<and> HasPrefix n ''.''") (auto simp: less_Suc_eq)
  ultimately show ?thesis using p(4,5) by (simp add: certs_ok_def)
qed

lemma certs_Delete_maps:
  assumes "certs_ok c"
  shows "exact (certs_Delete a c) n = (if exact c n = Some a then None else exact c n)"
    "wildcard (certs_Delete a c) n = (if wildcard c n = Some a then None else wildcard c n)"
    "cs_heap (certs_Delete a c) = cs_heap c" "cs_next (certs_Delete a c) = cs_next c"
    "certs_ok (certs_Delete a c)"
proof -
  have d: "distinct (map fst (no_certs (cs_certs c)))" "distinct (map fst (no_certs (cs_certsWC c)))"
    using assms by (simp_all add: certs_ok_def)
  note cp = copySwap_maps(2,3) [OF d(1)] copySwap_maps(2,3) [OF d(2)]
  show e: "exact (certs_Delete a c) n = (if exact c n = Some a then None else exact c n)"
    "wildcard (certs_Delete a c) n = (if wildcard c n = Some a then None else wildcard c n)" for n
    using cp by (simp_all add: certs_Delete_def copySwap_def no_certs_def)
  show h: "cs_heap (certs_Delete a c) = cs_heap c" "cs_next (certs_Delete a c) = cs_next c"
    by (simp_all add: certs_Delete_def copySwap_def)
  have "distinct (map fst (no_certs (cs_certs (certs_Delete a c))))"
    "distinct (map fst (no_certs (cs_certsWC (certs_Delete a c))))"
    using cp by (simp_all add: certs_Delete_def copySwap_def no_certs_def)
  then show "certs_ok (certs_Delete a c)" using assms e h by (auto simp: certs_ok_def names_of_def)
qed


lemma certs_ok_Load: "LoadCertsFromConfig keyPair parse pems c = Some c' \<Longrightarrow> certs_ok c \<Longrightarrow> certs_ok c'"
proof (induction pems arbitrary: c)
  case Nil
  then show ?case by simp
next
  case (Cons v pems)
  then show ?case
    by (auto split: option.splits list.splits Option.bind_splits dest: certs_ok_Store)
qed

lemma certs_ok_acme [simp]: "certs_ok (c\<lparr>cs_acme := x\<rparr>) = certs_ok c"
  by (simp add: certs_ok_def names_of_def)

lemma certs_ok_Reload: "certs_Reload keyPair parse cfg c = Some c' \<Longrightarrow> certs_ok c \<Longrightarrow> certs_ok c'"
  by (auto simp: certs_Reload_def split: Option.bind_splits dest: certs_ok_Load)

text \<open>The cases of a handshake.\<close>

lemma GetCertificate_cases:
  assumes "certs_GetCertificate acme parse now name c = Some (res, c')"
  obtains (noname) "name = []" "res = Inl ErrCertNotFound" "c' = c"
  | (stored) a where "certs_Get now name c = Some (Some a, None)" "res = Inr (cs_heap c a)" "c' = c"
  | (failed) cert err c1 e where "certs_Get now name c = Some (cert, err)" "cert = None \<or> err \<noteq> None"
      "c1 = (case cert of None \<Rightarrow> c | Some a \<Rightarrow> certs_Delete a c)" "res = Inl e" "c' = c1"
  | (fetched) cert err c1 crt0 crt where "certs_Get now name c = Some (cert, err)" "cert = None \<or> err \<noteq> None"
      "c1 = (case cert of None \<Rightarrow> c | Some a \<Rightarrow> certs_Delete a c)" "acme name = Some crt0"
      "ct_Certificate crt = ct_Certificate crt0" "ct_Leaf crt0 \<noteq> None \<longrightarrow> crt = crt0"
      "certs_Store crt c1 = Some c'" "res = Inr crt"
proof (cases "name = []")
  case True
  then have "res = Inl ErrCertNotFound" "c' = c" using assms by (simp_all add: certs_GetCertificate_def)
  with True show ?thesis by (rule noname)
next
  case False
  then obtain cert err where g: "certs_Get now name c = Some (cert, err)"
    using assms by (auto simp: certs_GetCertificate_def split: Option.bind_splits)
  let ?c1 = "case cert of None \<Rightarrow> c | Some a \<Rightarrow> certs_Delete a c"
  show ?thesis
  proof (cases "\<exists>a. cert = Some a \<and> err = None")
    case True
    then obtain a where a: "cert = Some a" "err = None" by blast
    have "res = Inr (cs_heap c a)" "c' = c" using assms False g a by (auto simp: certs_GetCertificate_def)
    with g a show ?thesis by (intro stored) simp_all
  next
    case no: False
    then have ce: "cert = None \<or> err \<noteq> None" by (cases cert) auto
    define rest where "rest = (case acme name of
               None \<Rightarrow> Some (Inl ErrAcme, ?c1)
             | Some crt \<Rightarrow>
                 (case ct_Leaf crt of
                    Some _ \<Rightarrow> do { c2 \<leftarrow> certs_Store crt ?c1; Some (Inr crt, c2) }
                  | None \<Rightarrow>
                      (case ct_Certificate crt of
                         [] \<Rightarrow> None
                       | der # _ \<Rightarrow>
                           (case parse der of
                              None \<Rightarrow> Some (Inl ErrParse, ?c1)
                            | Some lf \<Rightarrow> do {
                                c2 \<leftarrow> certs_Store (crt\<lparr>ct_Leaf := Some lf\<rparr>) ?c1;
                                Some (Inr (crt\<lparr>ct_Leaf := Some lf\<rparr>), c2) }))))"
    have "rest = Some (res, c')"
      using assms False g no unfolding rest_def certs_GetCertificate_def Let_def
      by (cases cert; cases err) auto
    note rest = this [unfolded rest_def]
    show ?thesis
    proof (cases "acme name")
      case None
      then show ?thesis using rest by (intro failed [OF g ce refl, of ErrAcme]) auto
    next
      case (Some crt0)
      show ?thesis
      proof (cases "ct_Leaf crt0")
        case (Some lf)
        with \<open>acme name = Some crt0\<close> rest show ?thesis
          by (intro fetched [OF g ce refl, of crt0 crt0]) (auto split: Option.bind_splits)
      next
        case None
        note rest' = rest [unfolded \<open>acme name = Some crt0\<close> option.case None]
        obtain der ders where der: "ct_Certificate crt0 = der # ders"
          using rest' by (cases "ct_Certificate crt0") simp_all
        show ?thesis
        proof (cases "parse der")
          case None
          then show ?thesis using rest' der by (intro failed [OF g ce refl, of ErrParse]) auto
        next
          case (Some lf)
          then show ?thesis using rest' der \<open>acme name = Some crt0\<close> \<open>ct_Leaf crt0 = None\<close>
            by (intro fetched [OF g ce refl, of crt0 "crt0\<lparr>ct_Leaf := Some lf\<rparr>"]) (auto split: Option.bind_splits)
        qed
      qed
    qed
  qed
qed

lemma certs_ok_GetCertificate:
  assumes "certs_GetCertificate acme parse now name c = Some (res, c')" "certs_ok c"
  shows "certs_ok c'"
proof -
  have c1: "certs_ok (case cert of None \<Rightarrow> c | Some a \<Rightarrow> certs_Delete a c)" for cert
    using assms(2) certs_Delete_maps(5) by (simp split: option.split)
  from assms(1) show ?thesis
    by (cases rule: GetCertificate_cases) (use assms(2) c1 certs_ok_Store in auto)
qed

lemma certs_ok_New: "certs_New keyPair parse cfg = Some c \<Longrightarrow> certs_ok c"
proof -
  have "certs_ok \<lparr>cs_heap = h, cs_next = 0, cs_certs = None, cs_certsWC = None, cs_acme = None\<rparr>" for h
    by (simp add: certs_ok_def no_certs_def)
  then show "certs_New keyPair parse cfg = Some c \<Longrightarrow> certs_ok c"
    using certs_ok_Reload by (auto simp: certs_New_def split: option.splits)
qed

text \<open>
  C19. The lists of certificates stay sound from the start, through loading, storing, deleting
  and handshakes: no name is listed twice, and every entry leads to a certificate that was
  stored and that carries the name, or, in the list of wildcards, the wildcard.
\<close>

theorem certs_lists_sound:
  "(certs_New keyPair parse cfg = Some c \<longrightarrow> certs_ok c) \<and>
   (certs_ok c \<longrightarrow>
     (certs_Store cert c = Some c1 \<longrightarrow> certs_ok c1) \<and> certs_ok (certs_Delete a c) \<and>
     (certs_Reload keyPair parse cfg c = Some c2 \<longrightarrow> certs_ok c2) \<and>
     (certs_GetCertificate acme parse now name c = Some (res, c3) \<longrightarrow> certs_ok c3))"
  by (intro conjI impI) (erule certs_ok_New certs_Delete_maps(5) certs_ok_Store certs_ok_Reload
    certs_ok_GetCertificate, assumption?)+


definition demo_cert :: "string list \<Rightarrow> time \<Rightarrow> certificate" where
  "demo_cert names notAfter = \<lparr>ct_Certificate = [[1]], ct_Leaf = Some \<lparr>lf_DNSNames = names, lf_NotAfter = notAfter\<rparr>\<rparr>"

definition demo_certs :: "certs go" where
  "demo_certs = certs_New (\<lambda>_. Some (demo_cert [] 0)) (\<lambda>_. Some \<lparr>lf_DNSNames = [''example.com'', ''*.example.com''], lf_NotAfter = 50\<rparr>)
     (Some \<lparr>cc_CA = [], cc_Email = [], cc_PEM = [\<lparr>pem_Domains = [], pem_Key = [], pem_Cert = []\<rparr>],
        cc_EtcdEndpoints = [], cc_AltHTTPPort = 80, cc_AltTLSALPNPort = 443\<rparr>)"

theorem certs_lists_sound_witness:
  "\<exists>c c1. demo_certs = Some c \<and> exact c ''example.com'' = Some 0 \<and>
    certs_Store (demo_cert [''*.example.com''] 9) c = Some c1 \<and> certs_ok c \<and> certs_ok c1 \<and> certs_ok (certs_Delete 0 c1)"
proof -
  obtain c where c: "demo_certs = Some c" "exact c ''example.com'' = Some 0"
    by (simp add: demo_certs_def certs_New_def certs_Reload_def demo_cert_def certs_Store_def copySwap_def
        no_certs_def lc_Set_def HasPrefix_def whileCardPrefix_def Let_def)
  have "\<exists>c1. certs_Store (demo_cert [''*.example.com''] 9) c = Some c1"
    by (simp add: certs_Store_def demo_cert_def Let_def split: prod.split)
  then obtain c1 where c1: "certs_Store (demo_cert [''*.example.com''] 9) c = Some c1" by blast
  have ok: "certs_ok c" using certs_lists_sound c(1) unfolding demo_certs_def by blast
  then have ok1: "certs_ok c1" using certs_lists_sound c1 by blast
  then have "certs_ok (certs_Delete 0 c1)" using certs_lists_sound by blast
  with c c1 ok ok1 show ?thesis by blast
qed


section \<open>What a handshake is given\<close>

lemma lc_GetWC_loop_found:
  "lc_GetWC_loop domain l cert = (r, True) \<Longrightarrow> \<exists>d a. (d, a) \<in> set l \<and> HasSuffix domain d \<and> r = Some a"
proof (induction l arbitrary: cert)
  case Nil
  then show ?case by simp
next
  case (Cons x l)
  then show ?case by (cases x; cases "HasSuffix domain (fst x)") fastforce+
qed

lemma lc_GetWC_loop_finds:
  "(d, a) \<in> set l \<Longrightarrow> HasSuffix domain d \<Longrightarrow> \<exists>b. lc_GetWC_loop domain l cert = (Some b, True)"
  by (induction l arbitrary: cert) auto

lemma certs_Get_found:
  assumes "certs_Get now name c = Some (Some a, err)" "certs_ok c"
  shows "exact c name = Some a \<or> (\<exists>d. wildcard c d = Some a \<and> HasSuffix name d)"
    and "\<exists>lf. ct_Leaf (cs_heap c a) = Some lf \<and> err = (if now > lf_NotAfter lf then Some ErrCertExpired else None)"
proof -
  have e: "expired_check now b c = Some (Some a, err) \<Longrightarrow> b = a \<and>
      (\<exists>lf. ct_Leaf (cs_heap c a) = Some lf \<and> err = (if now > lf_NotAfter lf then Some ErrCertExpired else None))" for b
    by (auto simp: expired_check_def split: option.splits)
  have "(exact c name = Some a \<or> (\<exists>d. wildcard c d = Some a \<and> HasSuffix name d)) \<and>
      (\<exists>lf. ct_Leaf (cs_heap c a) = Some lf \<and> err = (if now > lf_NotAfter lf then Some ErrCertExpired else None))"
  proof (cases "exact c name")
    case (Some b)
    then have "expired_check now b c = Some (Some a, err)" using assms(1) by (simp add: certs_Get_def lc_Get_def)
    with e Some show ?thesis by blast
  next
    case None
    then obtain b where b: "lc_GetWC name (no_certs (cs_certsWC c)) = (Some b, True)"
      "expired_check now b c = Some (Some a, err)"
      using assms(1) by (auto simp: certs_Get_def lc_Get_def split: prod.splits option.splits bool.splits)
    obtain d where "(d, b) \<in> set (no_certs (cs_certsWC c))" "HasSuffix name d"
      using b(1) lc_GetWC_loop_found unfolding lc_GetWC_def by blast
    moreover have "distinct (map fst (no_certs (cs_certsWC c)))" using assms(2) by (simp add: certs_ok_def)
    ultimately show ?thesis using e [OF b(2)] map_of_is_SomeI by metis
  qed
  then show "exact c name = Some a \<or> (\<exists>d. wildcard c d = Some a \<and> HasSuffix name d)"
    "\<exists>lf. ct_Leaf (cs_heap c a) = Some lf \<and> err = (if now > lf_NotAfter lf then Some ErrCertExpired else None)"
    by simp_all
qed

text \<open>
  C14. A handshake never gets an expired certificate out of the store: what it gets was fetched
  just now for its name, or is a stored one that is still valid and carries the name, or a
  wildcard that the name ends with. (Any number of labels can stand before that end, although
  a wildcard is for one.)
\<close>

theorem handshake_certificate_valid:
  assumes "certs_ok c" "certs_GetCertificate acme parse now name c = Some (Inr crt, c')"
  shows "(\<exists>lf. ct_Leaf crt = Some lf \<and> now \<le> lf_NotAfter lf \<and> c' = c \<and>
      (name \<in> set (lf_DNSNames lf) \<or> (\<exists>d. ''*'' @ d \<in> set (lf_DNSNames lf) \<and> HasPrefix d ''.'' \<and> HasSuffix name d))) \<or>
    (\<exists>crt0. acme name = Some crt0 \<and> ct_Certificate crt = ct_Certificate crt0)"
  using assms(2)
proof (cases rule: GetCertificate_cases)
  case (stored a)
  note g = certs_Get_found [OF stored(1) assms(1)]
  then obtain lf where lf: "ct_Leaf (cs_heap c a) = Some lf" "now \<le> lf_NotAfter lf"
    by (auto split: if_splits)
  then have "names_of c a = set (lf_DNSNames lf)" by (simp add: names_of_def)
  with g(1) lf stored assms(1) show ?thesis unfolding certs_ok_def by fastforce
qed auto

theorem handshake_certificate_valid_witness:
  "\<exists>c crt. demo_certs = Some c \<and>
     certs_GetCertificate (\<lambda>_. None) (\<lambda>_. None) 10 ''a.b.example.com'' c = Some (Inr crt, c) \<and>
     (\<exists>lf. ct_Leaf crt = Some lf \<and> 10 \<le> lf_NotAfter lf \<and> ''*.example.com'' \<in> set (lf_DNSNames lf))"
proof -
  obtain c where c: "demo_certs = Some c" "exact c ''a.b.example.com'' = None"
    "no_certs (cs_certsWC c) = [(''.example.com'', 0)]"
    "ct_Leaf (cs_heap c 0) = Some \<lparr>lf_DNSNames = [''example.com'', ''*.example.com''], lf_NotAfter = 50\<rparr>"
    by (simp add: demo_certs_def certs_New_def certs_Reload_def demo_cert_def certs_Store_def copySwap_def
        no_certs_def lc_Set_def HasPrefix_def whileCardPrefix_def Let_def)
  have ok: "certs_ok c" using c(1) unfolding demo_certs_def by (rule certs_ok_New)
  have s: "HasSuffix ''a.b.example.com'' ''.example.com''" by code_simp
  have g: "certs_GetCertificate (\<lambda>_. None) (\<lambda>_. None) 10 ''a.b.example.com'' c = Some (Inr (cs_heap c 0), c)"
    using c(2-4) s by (simp add: certs_GetCertificate_def certs_Get_def lc_Get_def lc_GetWC_def expired_check_def)
  from handshake_certificate_valid [OF ok g] show ?thesis using c(1,4) g by auto
qed

text \<open>
  C20. A handshake that finds its certificate expired takes it out under all of its names, and
  no others; when ACME has none the handshake fails, and otherwise the new one is found under
  its names from then on.
\<close>

theorem expired_certificate_replaced:
  assumes "certs_ok c" "certs_Get now name c = Some (Some a, Some ErrCertExpired)" "name \<noteq> []"
    and "certs_GetCertificate acme parse now name c = Some (res, c')"
  shows "(acme name = None \<longrightarrow> res = Inl ErrAcme \<and> (\<forall>n.
      exact c' n = (if exact c n = Some a then None else exact c n) \<and>
      wildcard c' n = (if wildcard c n = Some a then None else wildcard c n))) \<and>
    (\<forall>crt lf n. res = Inr crt \<and> ct_Leaf crt = Some lf \<and> n \<in> set (lf_DNSNames lf) \<and> plain_name n \<and>
        later \<le> lf_NotAfter lf \<longrightarrow>
      (\<exists>b. certs_Get later n c' = Some (Some b, None) \<and> cs_heap c' b = crt)) \<and>
    (\<forall>n. exact c' n \<noteq> Some a \<and> wildcard c' n \<noteq> Some a)"
proof -
  note del = certs_Delete_maps [OF assms(1)]
  have "a < cs_next c" using certs_Get_found(1) [OF assms(2,1)] assms(1) unfolding certs_ok_def by blast
  from assms(4) show ?thesis
  proof (cases rule: GetCertificate_cases)
    case (failed cert err c1 e)
    have c': "c' = certs_Delete a c" using failed(1,3,5) assms(2) by auto
    have "acme name = None \<longrightarrow> res = Inl ErrAcme"
      using assms(2-4) by (auto simp: certs_GetCertificate_def Let_def)
    then show ?thesis unfolding c' using del(1,2) failed(4) by simp
  next
    case (fetched cert err c1 crt0 crt)
    have c1: "c1 = certs_Delete a c" using fetched(1,3) assms(2) by auto
    have ok1: "certs_ok c1" using del(5) c1 by simp
    note st = certs_Store_parts [OF fetched(7) ok1]
    obtain lf where lf: "ct_Leaf crt = Some lf"
      "\<And>n. exact c' n = (if n \<in> set (lf_DNSNames lf) \<and> plain_name n then Some (cs_next c1) else exact c1 n)"
      "\<And>n. wildcard c' n = (if CHR ''*'' # n \<in> set (lf_DNSNames lf) \<and> HasPrefix n ''.''
         then Some (cs_next c1) else wildcard c1 n)" using st(1) by blast
    have "certs_Get later n c' = Some (Some (cs_next c1), None)"
      if "n \<in> set (lf_DNSNames lf)" "plain_name n" "later \<le> lf_NotAfter lf" for n
      using that lf st(2) by (simp add: certs_Get_def lc_Get_def expired_check_def)
    moreover have "exact c' n \<noteq> Some a \<and> wildcard c' n \<noteq> Some a" for n
      using lf(2,3) del(1,2,4) \<open>a < cs_next c\<close> unfolding c1 by auto
    ultimately show ?thesis using fetched(4,8) lf(1) st(2) by auto
  qed (use assms(2,3) in auto)
qed

theorem expired_certificate_replaced_witness:
  "\<exists>c c'. demo_certs = Some c \<and>
     certs_GetCertificate (\<lambda>n. Some (demo_cert [n] 200)) (\<lambda>_. None) 100 ''example.com'' c
       = Some (Inr (demo_cert [''example.com''] 200), c') \<and>
     (\<exists>b. certs_Get 150 ''example.com'' c' = Some (Some b, None)) \<and> wildcard c' ''.example.com'' \<noteq> Some 0"
proof -
  obtain c where c: "demo_certs = Some c" "exact c ''example.com'' = Some 0"
    "ct_Leaf (cs_heap c 0) = Some \<lparr>lf_DNSNames = [''example.com'', ''*.example.com''], lf_NotAfter = 50\<rparr>"
    by (simp add: demo_certs_def certs_New_def certs_Reload_def demo_cert_def certs_Store_def copySwap_def
        no_certs_def lc_Set_def HasPrefix_def whileCardPrefix_def Let_def)
  have ok: "certs_ok c" using c(1) unfolding demo_certs_def by (rule certs_ok_New)
  have g: "certs_Get 100 ''example.com'' c = Some (Some 0, Some ErrCertExpired)"
    using c(2,3) by (simp add: certs_Get_def lc_Get_def expired_check_def)
  obtain c' where h: "certs_GetCertificate (\<lambda>n. Some (demo_cert [n] 200)) (\<lambda>_. None) 100 ''example.com'' c
      = Some (Inr (demo_cert [''example.com''] 200), c')"
    using g by (cases "copySwap None (certs_Delete 0 c)")
      (simp add: certs_GetCertificate_def demo_cert_def certs_Store_def whileCardPrefix_def HasPrefix_def Let_def)
  from expired_certificate_replaced [OF ok g _ h, of 150] show ?thesis
    using c(1) h by (auto simp: demo_cert_def plain_name_def HasPrefix_def whileCardPrefix_def)
qed

end
