(* ===== verification/Cert_Storage.thy ===== *)
theory Cert_Storage
  imports Go_Strings Go_Time
begin

text \<open>
  \<open>certs/cache.go\<close>: the storage of ACME's certificates in etcd. The etcd client is an argument:
  its calls change a state and may fail, and what is relied on is stated as \<open>etcd_laws\<close>: a call
  that succeeds has its effect, one that fails has it or not, and a read tells the truth or
  fails. The lock of a key is a mutex of etcd behind one mutex of the process.
\<close>

datatype etcd_error = EtcdErr

datatype storage_error = Etcd etcd_error | ErrCacheKeyNotFound | ErrModified

record 's etcd =
  et_Put :: "string \<Rightarrow> string \<Rightarrow> 's \<Rightarrow> etcd_error option \<times> 's"
  et_Get :: "string \<Rightarrow> 's \<Rightarrow> etcd_error + string list"
  et_GetPrefix :: "string \<Rightarrow> 's \<Rightarrow> etcd_error + string list"
  et_Delete :: "string \<Rightarrow> 's \<Rightarrow> etcd_error option \<times> 's"
  et_Size :: "string \<Rightarrow> string \<Rightarrow> int"

definition modified :: string where "modified = ''__Modified''"
definition lockPrefix :: string where "lockPrefix = ''/elinproxy/certs/mutex''"

definition storage_endpoints :: "string list \<Rightarrow> string list" where
  "storage_endpoints endpoints = (if length endpoints = 0 then endpoints @ [''http://localhost:2379''] else endpoints)"

text \<open>
  \<open>newStorage\<close> gives a pointer, \<open>nil\<close> when the client cannot be made. It is kept in a field whose
  type is an interface, where a pointer that is \<open>nil\<close> is not \<open>nil\<close>: a user that asks finds a storage,
  and every call on it panics.
\<close>

datatype 'c iface = Iface_nil | Iface_ptr "'c option"

definition newStorage :: "(string list \<Rightarrow> 'c option) \<Rightarrow> string list \<Rightarrow> 'c option" where
  "newStorage new_client endpoints = new_client (storage_endpoints endpoints)"

definition iface_call :: "('c \<Rightarrow> 'r) \<Rightarrow> 'c iface \<Rightarrow> 'r go" where
  "iface_call f i = (case i of Iface_ptr (Some c) \<Rightarrow> Some (f c) | _ \<Rightarrow> None)"

lemma failed_storage_not_nil:
  assumes "new_client (storage_endpoints endpoints) = None"
  shows "Iface_ptr (newStorage new_client endpoints) \<noteq> Iface_nil"
    "iface_call f (Iface_ptr (newStorage new_client endpoints)) = None"
  using assms by (simp_all add: newStorage_def iface_call_def)

section \<open>Values\<close>

definition storage_Store ::
  "'s etcd \<Rightarrow> int \<Rightarrow> string \<Rightarrow> string \<Rightarrow> 's \<Rightarrow> storage_error option \<times> 's" where
  "storage_Store et unix key val s =
     (case et_Put et key val s of
        (Some e, s1) \<Rightarrow> (Some (Etcd e), s1)
      | (None, s1) \<Rightarrow>
          (case et_Put et (key @ modified) (Itoa unix) s1 of
             (Some e, s2) \<Rightarrow> (Some (Etcd e), s2)
           | (None, s2) \<Rightarrow> (None, s2)))"

definition storage_Load :: "'s etcd \<Rightarrow> string \<Rightarrow> 's \<Rightarrow> storage_error + string" where
  "storage_Load et key s =
     (case et_Get et key s of
        Inl e \<Rightarrow> Inl (Etcd e)
      | Inr [] \<Rightarrow> Inl ErrCacheKeyNotFound
      | Inr (v # _) \<Rightarrow> Inr v)"

definition storage_Delete :: "'s etcd \<Rightarrow> string \<Rightarrow> 's \<Rightarrow> storage_error option \<times> 's" where
  "storage_Delete et key s =
     (case et_Delete et key s of
        (Some e, s1) \<Rightarrow> (Some (Etcd e), s1)
      | (None, s1) \<Rightarrow>
          (case et_Delete et (key @ modified) s1 of
             (Some e, s2) \<Rightarrow> (Some (Etcd e), s2)
           | (None, s2) \<Rightarrow> (None, s2)))"

definition storage_Exists :: "'s etcd \<Rightarrow> string \<Rightarrow> 's \<Rightarrow> bool" where
  "storage_Exists et key s = (case et_Get et key s of Inl _ \<Rightarrow> False | Inr vs \<Rightarrow> vs \<noteq> [])"

text \<open>The values are collected, and then not returned.\<close>

definition storage_List :: "'s etcd \<Rightarrow> string \<Rightarrow> bool \<Rightarrow> 's \<Rightarrow> storage_error option \<times> string list" where
  "storage_List et pre recursive s =
     (case et_GetPrefix et pre s of
        Inl e \<Rightarrow> (Some (Etcd e), [])
      | Inr kvs \<Rightarrow> if kvs = [] then (None, []) else let values = kvs in (None, []))"

record keyInfo =
  ki_Key :: string
  ki_Modified :: int
  ki_IsTerminal :: bool
  ki_Size :: int

definition storage_Stat :: "'s etcd \<Rightarrow> string \<Rightarrow> 's \<Rightarrow> storage_error + keyInfo" where
  "storage_Stat et key s =
     (case et_Get et key s of
        Inl e \<Rightarrow> Inl (Etcd e)
      | Inr [] \<Rightarrow> Inl ErrCacheKeyNotFound
      | Inr (v # _) \<Rightarrow>
          (case et_Get et (key @ modified) s of
             Inl e \<Rightarrow> Inl (Etcd e)
           | Inr [] \<Rightarrow> Inl ErrCacheKeyNotFound
           | Inr (m # _) \<Rightarrow>
               (case ParseInt m of
                  Inl _ \<Rightarrow> Inl ErrModified
                | Inr unix \<Rightarrow> Inr \<lparr>ki_Key = key, ki_Modified = unix, ki_IsTerminal = True,
                    ki_Size = et_Size et key v\<rparr>)))"

section \<open>Locks\<close>

text \<open>
  \<open>lk_mu\<close> is the mutex of the process, \<open>lk_mumap\<close> the mutex of each key, known by the session it
  was made with. A call ends the process, blocks, or returns.
\<close>

record locks =
  lk_mu :: bool
  lk_mumap :: "(string \<times> nat) list"
  lk_sessions :: nat

datatype lock_result = Blocks | Exits | Lock_returns "etcd_error option" locks

definition getLockerSession :: "bool \<Rightarrow> string \<Rightarrow> locks \<Rightarrow> (nat \<times> locks) option" where
  "getLockerSession session_ok key st =
     (if \<not> session_ok then None
      else
        let sess = lk_sessions st; st1 = st\<lparr>lk_sessions := sess + 1\<rparr> in
        case map_of (lk_mumap st) key of
          Some actual \<Rightarrow> Some (actual, st1)
        | None \<Rightarrow> Some (sess, st1\<lparr>lk_mumap := (key, sess) # lk_mumap st\<rparr>))"

definition storage_Lock :: "bool \<Rightarrow> etcd_error option \<Rightarrow> string \<Rightarrow> locks \<Rightarrow> lock_result" where
  "storage_Lock session_ok err key st =
     (if lk_mu st then Blocks
      else case getLockerSession session_ok key (st\<lparr>lk_mu := True\<rparr>) of
          None \<Rightarrow> Exits
        | Some (_, st1) \<Rightarrow> Lock_returns err (if err \<noteq> None then st1\<lparr>lk_mu := False\<rparr> else st1))"

definition storage_Unlock :: "bool \<Rightarrow> etcd_error option \<Rightarrow> string \<Rightarrow> locks \<Rightarrow> lock_result" where
  "storage_Unlock session_ok err key st =
     (case getLockerSession session_ok key st of
        None \<Rightarrow> Exits
      | Some (_, st1) \<Rightarrow> if \<not> lk_mu st1 then Exits else Lock_returns err (st1\<lparr>lk_mu := False\<rparr>))"

text \<open>Clients that unlock what they have locked; the list has the keys that are held.\<close>

inductive lock_step :: "locks \<times> string list \<Rightarrow> locks \<times> string list \<Rightarrow> bool" where
  locked: "storage_Lock ok None key st = Lock_returns None st' \<Longrightarrow> lock_step (st, held) (st', key # held)"
| refused: "storage_Lock ok (Some e) key st = Lock_returns (Some e) st' \<Longrightarrow> lock_step (st, held) (st', held)"
| unlocked: "key \<in> set held \<Longrightarrow> storage_Unlock ok err key st = Lock_returns err st' \<Longrightarrow>
    lock_step (st, held) (st', remove1 key held)"

definition no_locks :: locks where
  "no_locks = \<lparr>lk_mu = False, lk_mumap = [], lk_sessions = 0\<rparr>"

inductive_cases lock_stepE: "lock_step s s'"

section \<open>What the storage promises\<close>

definition etcd_laws :: "'s etcd \<Rightarrow> ('s \<Rightarrow> string \<Rightarrow> string option) \<Rightarrow> bool" where
  "etcd_laws et data \<longleftrightarrow>
     (\<forall>k v s s'. et_Put et k v s = (None, s') \<longrightarrow> data s' = (data s)(k \<mapsto> v)) \<and>
     (\<forall>k v s e s'. et_Put et k v s = (Some e, s') \<longrightarrow> data s' = data s \<or> data s' = (data s)(k \<mapsto> v)) \<and>
     (\<forall>k s s'. et_Delete et k s = (None, s') \<longrightarrow> data s' = (data s)(k := None)) \<and>
     (\<forall>k s vs. et_Get et k s = Inr vs \<longrightarrow> vs = (case data s k of None \<Rightarrow> [] | Some v \<Rightarrow> [v]))"

lemma modified_differs: "modified \<noteq> []" "key @ modified \<noteq> key"
  by (simp_all add: modified_def)

lemma etcd_get:
  "etcd_laws et data \<Longrightarrow> et_Get et k s = Inr vs \<Longrightarrow> vs = (case data s k of None \<Rightarrow> [] | Some v \<Rightarrow> [v])"
  by (simp add: etcd_laws_def)

lemma storage_Load_data:
  assumes "etcd_laws et data" "storage_Load et key s = r"
  shows "(\<exists>e. r = Inl (Etcd e)) \<or> r = (case data s key of None \<Rightarrow> Inl ErrCacheKeyNotFound | Some v \<Rightarrow> Inr v)"
  using assms(2) etcd_get [OF assms(1), of key s]
  by (cases "et_Get et key s") (auto simp: storage_Load_def split: option.splits)

lemma storage_Store_data:
  assumes "etcd_laws et data" "storage_Store et unix key val s = (None, s')"
  shows "data s' = (data s)(key \<mapsto> val, key @ modified \<mapsto> Itoa unix)"
  using assms by (auto simp: storage_Store_def etcd_laws_def split: prod.splits option.splits)

text \<open>
  C21. What was stored is what is loaded: after a \<open>Store\<close> that succeeds, \<open>Load\<close> gives the value
  unless etcd fails, \<open>Stat\<close> the time of the store, and the keys other than this one and its
  companion are untouched; after a \<open>Delete\<close> that succeeds the key is not found.
\<close>

theorem storage_store_load:
  assumes "etcd_laws et data" "0 \<le> unix" "unix < 2 ^ 63"
    and "storage_Store et unix key val s = (None, s1)" "storage_Delete et key s1 = (None, s2)"
  shows "(storage_Load et key s1 = Inr val \<or> (\<exists>e. storage_Load et key s1 = Inl (Etcd e))) \<and>
    ((\<exists>i. storage_Stat et key s1 = Inr i \<and> ki_Modified i = unix) \<or> (\<exists>e. storage_Stat et key s1 = Inl (Etcd e))) \<and>
    (\<forall>k. k \<notin> {key, key @ modified} \<longrightarrow> data s1 k = data s k \<and> data s2 k = data s k) \<and>
    (storage_Load et key s2 = Inl ErrCacheKeyNotFound \<or> (\<exists>e. storage_Load et key s2 = Inl (Etcd e))) \<and>
    \<not> storage_Exists et key s2"
proof -
  note d1 = storage_Store_data [OF assms(1,4)]
  have d2: "data s2 = (data s1)(key := None, key @ modified := None)"
    using assms(1,5) by (auto simp: storage_Delete_def etcd_laws_def split: prod.splits option.splits)
  note get = etcd_get [OF assms(1)]
  have u: "Itoa unix = Utoa (nat unix)" using assms(2) by (simp add: Itoa_def)
  have p: "ParseInt (Itoa unix) = Inr unix" unfolding u using ParseInt_Utoa [of "nat unix"] assms(2,3) by simp
  have load1: "storage_Load et key s1 = Inr val \<or> (\<exists>e. storage_Load et key s1 = Inl (Etcd e))"
    using storage_Load_data [OF assms(1) refl, of key s1] d1 modified_differs(1) by auto
  have load2: "storage_Load et key s2 = Inl ErrCacheKeyNotFound \<or> (\<exists>e. storage_Load et key s2 = Inl (Etcd e))"
    using storage_Load_data [OF assms(1) refl, of key s2] d2 by auto
  have stat: "(\<exists>i. storage_Stat et key s1 = Inr i \<and> ki_Modified i = unix) \<or> (\<exists>e. storage_Stat et key s1 = Inl (Etcd e))"
  proof (cases "et_Get et key s1")
    case (Inl e)
    then show ?thesis by (simp add: storage_Stat_def)
  next
    case v: (Inr vs)
    then have vs: "vs = [val]" using get [OF v] d1 modified_differs(1) by simp
    show ?thesis
    proof (cases "et_Get et (key @ modified) s1")
      case (Inl e)
      then show ?thesis using v vs by (simp add: storage_Stat_def)
    next
      case m: (Inr ms)
      then have "ms = [Itoa unix]" using get [OF m] d1 by simp
      then show ?thesis using v vs m p by (simp add: storage_Stat_def)
    qed
  qed
  have "\<not> storage_Exists et key s2"
    using get [of key s2] d2 by (auto simp: storage_Exists_def split: sum.splits)
  with load1 load2 stat d1 d2 show ?thesis by simp
qed

text \<open>An etcd that never fails.\<close>

definition demo_etcd :: "(string \<Rightarrow> string option) etcd" where
  "demo_etcd = \<lparr>et_Put = (\<lambda>k v s. (None, s(k \<mapsto> v))),
     et_Get = (\<lambda>k s. Inr (case s k of None \<Rightarrow> [] | Some v \<Rightarrow> [v])),
     et_GetPrefix = (\<lambda>p s. Inr (case s p of None \<Rightarrow> [] | Some v \<Rightarrow> [v])),
     et_Delete = (\<lambda>k s. (None, s(k := None))), et_Size = (\<lambda>k v. int (length k + length v))\<rparr>"

lemma demo_etcd: "etcd_laws demo_etcd (\<lambda>s. s)"
  by (simp add: etcd_laws_def demo_etcd_def)

theorem storage_store_load_witness:
  "\<exists>s1 i. storage_Store demo_etcd 9 ''k'' ''v'' Map.empty = (None, s1) \<and>
     storage_Load demo_etcd ''k'' s1 = Inr ''v'' \<and> storage_Stat demo_etcd ''k'' s1 = Inr i \<and> ki_Modified i = 9"
proof -
  obtain s1 where s1: "storage_Store demo_etcd 9 ''k'' ''v'' Map.empty = (None, s1)"
    by (simp add: storage_Store_def demo_etcd_def)
  obtain s2 where s2: "storage_Delete demo_etcd ''k'' s1 = (None, s2)"
    by (simp add: storage_Delete_def demo_etcd_def)
  have "storage_Load demo_etcd ''k'' s1 \<noteq> Inl (Etcd e)" "storage_Stat demo_etcd ''k'' s1 \<noteq> Inl (Etcd e)" for e
    by (auto simp: storage_Load_def storage_Stat_def demo_etcd_def split: list.splits sum.splits)
  with storage_store_load [OF demo_etcd _ _ s1 s2] s1 show ?thesis by auto
qed

text \<open>
  A \<open>Store\<close> that reports an error may have taken effect: when its second write fails, the
  value is there to be loaded, while \<open>Stat\<close> does not find a key that is new; and \<open>List\<close> never
  lists anything, whatever is stored.
\<close>

theorem storage_half_stored:
  assumes "etcd_laws et data" "data s (key @ modified) = None" "data s1 (key @ modified) = None"
    and "et_Put et key val s = (None, s0)" "et_Put et (key @ modified) (Itoa unix) s0 = (Some e, s1)"
  shows "storage_Store et unix key val s = (Some (Etcd e), s1) \<and>
    (storage_Load et key s1 = Inr val \<or> (\<exists>e. storage_Load et key s1 = Inl (Etcd e))) \<and>
    (storage_Stat et key s1 = Inl ErrCacheKeyNotFound \<or> (\<exists>e. storage_Stat et key s1 = Inl (Etcd e))) \<and>
    snd (storage_List et pre recursive s1) = []"
proof -
  have "data s0 = (data s)(key \<mapsto> val)" using assms(1,4) by (simp add: etcd_laws_def)
  moreover have "data s1 = data s0 \<or> data s1 = (data s0)(key @ modified \<mapsto> Itoa unix)"
    using assms(1,5) by (simp add: etcd_laws_def)
  ultimately have d1: "data s1 key = Some val" using modified_differs by auto
  note get = etcd_get [OF assms(1)]
  have "storage_Stat et key s1 = Inl ErrCacheKeyNotFound \<or> (\<exists>e. storage_Stat et key s1 = Inl (Etcd e))"
  proof (cases "et_Get et (key @ modified) s1")
    case (Inl e)
    then show ?thesis using get [of key s1] d1 by (cases "et_Get et key s1") (simp_all add: storage_Stat_def)
  next
    case (Inr ms)
    then show ?thesis using get [OF Inr] get [of key s1] d1 assms(3)
      by (cases "et_Get et key s1") (simp_all add: storage_Stat_def)
  qed
  moreover have "storage_Load et key s1 = Inr val \<or> (\<exists>e. storage_Load et key s1 = Inl (Etcd e))"
    using storage_Load_data [OF assms(1) refl, of key s1] d1 by auto
  ultimately show ?thesis
    using assms(4,5) by (simp add: storage_Store_def storage_List_def split: sum.split)
qed

theorem storage_half_stored_witness:
  "storage_Load demo_etcd ''k'' (Map.empty(''k'' \<mapsto> ''v'')) = Inr ''v'' \<and>
   storage_Stat (demo_etcd\<lparr>et_Put := (\<lambda>k v s. if k = ''k'' then (None, s(k \<mapsto> v)) else (Some EtcdErr, s))\<rparr>) ''k''
     (Map.empty(''k'' \<mapsto> ''v'')) = Inl ErrCacheKeyNotFound"
proof -
  let ?et = "demo_etcd\<lparr>et_Put := (\<lambda>k v s. if k = ''k'' then (None, s(k \<mapsto> v)) else (Some EtcdErr, s))\<rparr>"
  have l: "etcd_laws ?et (\<lambda>s. s)" by (simp add: etcd_laws_def demo_etcd_def)
  have "storage_Stat ?et ''k'' s \<noteq> Inl (Etcd e)" for e s
    by (auto simp: storage_Stat_def demo_etcd_def split: list.splits sum.splits)
  then show ?thesis
    using storage_half_stored [OF l, of Map.empty "''k''" "Map.empty(''k'' \<mapsto> ''v'')" "''v''"
        "Map.empty(''k'' \<mapsto> ''v'')" 9 EtcdErr]
    by (simp add: modified_def storage_Load_def demo_etcd_def)
qed



end
