(* ===== verification/KVSM_Cells.thy ===== *)
theory KVSM_Cells
  imports KVSM_Store KVSM_Spec
begin

text \<open>
  The values in the cells of the store, as a multiset, and how every operation moves them: a
  value enters with \<open>Set\<close> or \<open>Swap\<close> and leaves exactly once, to the callback of eviction or, when
  its key is deleted, to nobody.
\<close>

definition cell_val :: "'v entry \<Rightarrow> 'v multiset" where
  "cell_val e = (case e_p e of Some (Some v) \<Rightarrow> {#v#} | _ \<Rightarrow> {#})"

definition opt_mset :: "'v option \<Rightarrow> 'v multiset" where
  "opt_mset v = (case v of None \<Rightarrow> {#} | Some x \<Rightarrow> {#x#})"

definition kv_vals :: "('v, 'x) kvsm \<Rightarrow> 'v multiset" where
  "kv_vals s = (\<Sum>a\<in>#mset (kv_live s). cell_val (heap s a))"

lemma opt_mset_simps [simp]: "opt_mset None = {#}" "opt_mset (Some v) = {#v#}"
  by (simp_all add: opt_mset_def)

lemma cell_val_p: "e_p e = Some v \<Longrightarrow> cell_val e = opt_mset v"
  by (cases v) (simp_all add: cell_val_def)

lemma cell_val_data: "cell_data e' = cell_data e \<Longrightarrow> cell_val e' = cell_val e"
  by (simp add: cell_val_def cell_data_def)

lemma kv_vals_in: "v \<in># kv_vals s \<longleftrightarrow> (\<exists>a\<in>set (kv_live s). e_p (heap s a) = Some (Some v))"
proof -
  have "v \<in># cell_val e \<longleftrightarrow> e_p e = Some (Some v)" for e
    by (auto simp: cell_val_def split: option.splits)
  then show ?thesis by (simp add: kv_vals_def)
qed

text \<open>A live cell with key \<open>k\<close> holds \<open>v\<close>.\<close>

definition kv_has :: "('v, 'x) kvsm \<Rightarrow> u64 \<Rightarrow> 'v \<Rightarrow> bool" where
  "kv_has s k v \<longleftrightarrow> (\<exists>a\<in>set (kv_live s). e_key (heap s a) = Some k \<and> e_p (heap s a) = Some (Some v))"

lemma kv_has_vals: "kv_has s k v \<Longrightarrow> v \<in># kv_vals s"
  by (auto simp: kv_has_def kv_vals_in)

lemma kv_Get_has: "kv_inv s \<Longrightarrow> kv_Get t k s = Some (Some v, x, True) \<Longrightarrow> kv_has s k v"
  by (fastforce simp: kv_Get_def kv_has_def kv_inv_def kv_items_ok_def entry_GetValue_def split: option.splits)

text \<open>Writing one live cell exchanges its value.\<close>

lemma kv_vals_write:
  assumes "kv_inv s" "a \<in> set (kv_live s)" "kv_live s' = kv_live s" "heap s' = (heap s)(a := e)"
  shows "kv_vals s' + cell_val (heap s a) = kv_vals s + cell_val e"
proof -
  have d: "distinct (kv_live s)" using assms(1) by (simp add: kv_inv_def)
  obtain xs ys where x: "kv_live s = xs @ a # ys" "a \<notin> set xs" "a \<notin> set ys"
    using d assms(2) by (metis distinct.simps(2) distinct_append not_distinct_conv_prefix split_list
        disjoint_insert(1) list.set(2))
  have "image_mset (\<lambda>b. cell_val (if b = a then e else heap s b)) (mset zs)
      = image_mset (\<lambda>b. cell_val (heap s b)) (mset zs)" if "a \<notin> set zs" for zs
    using that by (intro image_mset_cong) auto
  then show ?thesis using x(2,3) unfolding kv_vals_def assms(3,4) x(1) by (simp add: ac_simps)
qed

section \<open>The operations of the clients\<close>

lemma kv_live_Set:
  assumes "kv_inv s" "entryPool_Get (entryPool s) (fresh s) a"
  shows "mset (kv_live (kv_Set now a k v ttl s)) = add_mset a (mset (kv_live s))"
    and "b \<in> set (kv_live s) \<Longrightarrow> heap (kv_Set now a k v ttl s) b = heap s b"
    and "heap (kv_Set now a k v ttl s) a = (heap s a)\<lparr>e_key := Some k, e_expireAt := now + ttl, e_p := Some v\<rparr>"
proof -
  have a: "a \<notin> set (kv_live s)" using assms by (rule entryPool_Get_fresh)
  let ?s = "kv_Set now a k v ttl s"
  show h: "heap ?s b = heap s b" if "b \<in> set (kv_live s)" for b
    using that a by (auto simp: kv_Set_def Let_def)
  show "heap ?s a = (heap s a)\<lparr>e_key := Some k, e_expireAt := now + ttl, e_p := Some v\<rparr>"
    by (simp add: kv_Set_def Let_def entry_Value_def)
  have "lists_of (heap ?s) (listTTL s) = lists_of (heap s) (listTTL s)"
    using lists_frame [of "heap s" "listTTL s" "heap ?s"] assms(1) h by (auto simp: kv_inv_def kv_live_def)
  then show "mset (kv_live ?s) = add_mset a (mset (kv_live s))"
    by (simp add: kv_live_def kv_Set_def Let_def)
qed

lemma kv_vals_Set:
  assumes "kv_inv s" "entryPool_Get (entryPool s) (fresh s) a"
  shows "kv_vals (kv_Set now a k v ttl s) = kv_vals s + opt_mset v"
    and "kv_has (kv_Set now a k v ttl s) k' w \<Longrightarrow> kv_has s k' w \<or> (k' = k \<and> v = Some w)"
proof -
  note l = kv_live_Set [OF assms, where now = now and k = k and v = v and ttl = ttl]
  have "image_mset (\<lambda>b. cell_val (heap (kv_Set now a k v ttl s) b)) (mset (kv_live s))
      = image_mset (\<lambda>b. cell_val (heap s b)) (mset (kv_live s))"
    by (intro image_mset_cong) (simp add: l(2))
  then show "kv_vals (kv_Set now a k v ttl s) = kv_vals s + opt_mset v"
    by (simp add: kv_vals_def l(1,3) cell_val_p)
  have "set (kv_live (kv_Set now a k v ttl s)) = insert a (set (kv_live s))"
    using l(1) by (metis set_mset_add_mset_insert set_mset_mset)
  then show "kv_has (kv_Set now a k v ttl s) k' w \<Longrightarrow> kv_has s k' w \<or> (k' = k \<and> v = Some w)"
    using l(2,3) by (auto simp: kv_has_def)
qed

lemma kv_live_write:
  assumes "kv_inv s" "e_next e = e_next (heap s a)" "e_prev e = e_prev (heap s a)"
  shows "kv_live (s\<lparr>heap := (heap s)(a := e)\<rparr>) = kv_live s"
  using lists_frame [of "heap s" "listTTL s" "(heap s)(a := e)"] assms
  by (auto simp: kv_inv_def kv_live_def)

lemma kv_vals_Swap:
  assumes "kv_inv s" "items s k = Some b" "kv_Swap now a k v ttl s = Some (ok, s')"
  obtains old where "kv_vals s' + opt_mset old = kv_vals s + opt_mset v"
    "env s' = (case onEvicted s of None \<Rightarrow> env s | Some f \<Rightarrow> f old (env s))" "onEvicted s' = onEvicted s"
    "\<And>k' w. kv_has s' k' w \<Longrightarrow> kv_has s k' w \<or> (k' = k \<and> v = Some w)"
proof -
  have b: "b \<in> set (kv_live s)" "e_key (heap s b) = Some k"
    using assms(1,2) by (auto simp: kv_inv_def kv_items_ok_def)
  obtain old where old: "e_p (heap s b) = Some old" using assms(1,2) kv_items_ptr by blast
  let ?e = "(heap s b)\<lparr>e_p := Some v\<rparr>" and ?s = "s\<lparr>heap := (heap s)(b := (heap s b)\<lparr>e_p := Some v\<rparr>)\<rparr>"
  have s': "s' = kv_callback old ?s"
    using assms(2,3) old by (simp add: kv_Swap_def entry_SwapValue_def)
  have live: "kv_live s' = kv_live s" and heap: "heap s' = (heap s)(b := ?e)"
    using kv_live_write [OF assms(1), of ?e b]
    by (simp_all add: s' kv_callback_def kv_live_def split: option.split)
  have "kv_vals s' + opt_mset old = kv_vals s + opt_mset v"
    using kv_vals_write [OF assms(1) b(1) live heap] by (simp add: cell_val_p old)
  moreover have "kv_has s k' w \<or> (k' = k \<and> v = Some w)" if "kv_has s' k' w" for k' w
    using that b by (auto simp: kv_has_def live heap split: if_splits)
  ultimately show thesis
    by (intro that [of old]) (simp_all add: s' kv_callback_def split: option.split)
qed

lemma kv_vals_RemoveByKey:
  assumes "kv_inv s"
  shows "kv_vals (kv_RemoveByKey k s) \<subseteq># kv_vals s"
    and "kv_has (kv_RemoveByKey k s) k' w \<Longrightarrow> kv_has s k' w"
    and "env (kv_RemoveByKey k s) = env s" "onEvicted (kv_RemoveByKey k s) = onEvicted s"
proof -
  let ?s = "kv_RemoveByKey k s"
  show "env ?s = env s" "onEvicted ?s = onEvicted s"
    by (simp_all add: kv_RemoveByKey_def split: option.split)
  have "kv_vals ?s \<subseteq># kv_vals s \<and> (kv_has ?s k' w \<longrightarrow> kv_has s k' w)"
  proof (cases "items s k")
    case None
    then show ?thesis by (simp add: kv_RemoveByKey_def)
  next
    case (Some a)
    let ?e = "(entry_ValueReset (heap s a))\<lparr>e_expireAt := 0\<rparr>"
    have a: "a \<in> set (kv_live s)" using assms Some by (rule kv_items_live)
    have live: "kv_live ?s = kv_live s" and heap: "heap ?s = (heap s)(a := ?e)"
      using kv_live_write [OF assms, of ?e a] Some
      by (simp_all add: kv_RemoveByKey_def entry_ValueReset_def kv_live_def)
    have "cell_val ?e = {#}" by (simp add: cell_val_def entry_ValueReset_def)
    then have "kv_vals ?s + cell_val (heap s a) = kv_vals s"
      using kv_vals_write [OF assms a live heap] by simp
    then have "kv_vals ?s \<subseteq># kv_vals s" by (metis mset_subset_eq_add_left)
    then show ?thesis by (auto simp: kv_has_def live heap entry_ValueReset_def split: if_splits)
  qed
  then show "kv_vals ?s \<subseteq># kv_vals s" "kv_has ?s k' w \<Longrightarrow> kv_has s k' w" by blast+
qed

section \<open>The operations of the worker\<close>

lemma kv_live_iff:
  assumes "kv_inv s"
  shows "b \<in> set (kv_live s) \<longleftrightarrow> b \<in> m_entry ` set (addLLCh s) \<or> (\<exists>d. b \<in> set (kv_list s d))"
proof -
  have "b \<in> set (lists_of (heap s) (listTTL s)) \<longleftrightarrow> (\<exists>d. b \<in> set (kv_list s d))"
  proof
    assume "b \<in> set (lists_of (heap s) (listTTL s))"
    then obtain d el where "(d, el) \<in> set (listTTL s)" "b \<in> set (ll_elems (heap s) el)"
      by (auto simp: lists_of_def)
    moreover from this have "map_of (listTTL s) d = Some el" using assms by (simp add: kv_inv_def)
    ultimately show "\<exists>d. b \<in> set (kv_list s d)" by (auto simp: kv_list_def list_map_def intro: exI [of _ d])
  next
    assume "\<exists>d. b \<in> set (kv_list s d)"
    then obtain d where d: "b \<in> set (kv_list s d)" by blast
    then obtain el where "map_of (listTTL s) d = Some el" "b \<in> set (ll_elems (heap s) el)"
      by (cases "map_of (listTTL s) d") (simp_all add: kv_list_def list_map_def)
    then show "b \<in> set (lists_of (heap s) (listTTL s))"
      using map_of_SomeD elems_in_lists by metis
  qed
  then show ?thesis by (simp add: kv_live_def)
qed

text \<open>The cells are distinct, so the set of the live ones determines the multiset.\<close>

lemma mset_kv_live: "kv_inv s \<Longrightarrow> mset (kv_live s) = mset_set (set (kv_live s))"
  by (simp add: kv_inv_def mset_set_set)

lemma kv_vals_recv:
  assumes "kv_inv s" "kv_recv s = Some s'"
  shows "kv_vals s' = kv_vals s \<and> (\<forall>k w. kv_has s' k w \<longleftrightarrow> kv_has s k w) \<and>
    env s' = env s \<and> onEvicted s' = onEvicted s \<and> items s' = items s"
proof (cases "addLLCh s")
  case Nil
  then show ?thesis using assms(2) by (simp add: kv_recv_def)
next
  case (Cons m ms)
  have r: "kv_inv s'" "kv_list s' = (kv_list s)(recv_ttl m := kv_list s (recv_ttl m) @ [m_entry m])"
    "addLLCh s' = ms" "items s' = items s" "onEvicted s' = onEvicted s" "env s' = env s"
    "\<And>b. cell_data (heap s' b) = cell_data (heap s b)"
    using kv_recv_ok [OF assms(1) Cons] assms(2) by auto
  have "(\<exists>d. b \<in> set (kv_list s' d)) \<longleftrightarrow> b = m_entry m \<or> (\<exists>d. b \<in> set (kv_list s d))" for b
    by (simp add: r(2)) (metis UnI1 UnI2 Un_iff empty_iff insert_iff)
  then have "set (kv_live s') = set (kv_live s)"
    unfolding set_eq_iff kv_live_iff [OF assms(1)] kv_live_iff [OF r(1)] by (auto simp: r(3) Cons)
  then have "mset (kv_live s') = mset (kv_live s)" "set (kv_live s') = set (kv_live s)"
    using mset_kv_live r(1) assms(1) by metis+
  then show ?thesis using r(4-7) cell_val_data [OF r(7)]
    by (simp add: kv_vals_def kv_has_def cell_data_def)
qed

lemma kv_vals_drops:
  assumes "kv_inv s" "kv_inv s'" "kv_drops d a s s'"
  obtains old where "kv_vals s' + opt_mset old = kv_vals s" "onEvicted s' = onEvicted s"
    "env s' = (case (onEvicted s, old) of (Some f, Some v) \<Rightarrow> f (Some v) (env s) | _ \<Rightarrow> env s)"
    "\<And>k w. kv_has s' k w \<Longrightarrow> kv_has s k w"
proof -
  obtain xs where xs: "kv_list s d = a # xs" "kv_list s' = (kv_list s)(d := xs)"
    using assms(3) by (auto simp: kv_drops_def)
  have d: "a \<in> set (entryPool s')" "addLLCh s' = addLLCh s" "onEvicted s' = onEvicted s"
    "\<And>b. b \<noteq> a \<Longrightarrow> cell_data (heap s' b) = cell_data (heap s b)"
    "env s' = (case (onEvicted s, e_p (heap s a)) of (Some f, Some (Some v)) \<Rightarrow> f (Some v) (env s) | _ \<Rightarrow> env s)"
    using assms(3) by (simp_all add: kv_drops_def)
  have "a \<notin> set (kv_live s')" using d(1) assms(2) by (auto simp: kv_inv_def)
  moreover have live: "a \<in> set (kv_live s)" using xs(1) by (intro kv_list_live [where d = d]) simp
  moreover have "b \<in> set (kv_live s') \<longleftrightarrow> b \<in> set (kv_live s)" if "b \<noteq> a" for b
    using that xs unfolding kv_live_iff [OF assms(1)] kv_live_iff [OF assms(2)] d(2)
    by (metis fun_upd_apply set_ConsD list.set_intros(2))
  ultimately have "set (kv_live s) = insert a (set (kv_live s')) \<and> a \<notin> set (kv_live s')"
    unfolding set_eq_iff by (metis insert_iff)
  then have set: "set (kv_live s) = insert a (set (kv_live s'))" "a \<notin> set (kv_live s')" by blast+
  then have "mset (kv_live s) = add_mset a (mset (kv_live s'))"
    by (simp add: mset_kv_live [OF assms(1)] mset_kv_live [OF assms(2)])
  moreover have "image_mset (\<lambda>b. cell_val (heap s' b)) (mset (kv_live s'))
      = image_mset (\<lambda>b. cell_val (heap s b)) (mset (kv_live s'))"
    using set(2) by (intro image_mset_cong cell_val_data d(4)) auto
  moreover obtain old where old: "e_p (heap s a) = Some old" using live assms(1) kv_live_ptr by blast
  ultimately have "kv_vals s' + opt_mset old = kv_vals s"
    by (simp add: kv_vals_def cell_val_p [OF old])
  moreover have "kv_has s k w" if has: "kv_has s' k w" for k w
  proof -
    obtain b where b: "b \<in> set (kv_live s')" "e_key (heap s' b) = Some k" "e_p (heap s' b) = Some (Some w)"
      using has by (auto simp: kv_has_def)
    then have "cell_data (heap s' b) = cell_data (heap s b)" using set(2) d(4) by metis
    then show ?thesis using b set(1) by (auto simp: kv_has_def cell_data_def)
  qed
  ultimately show thesis
    using d(3,5) old by (intro that [of old]) (auto split: option.splits)
qed

text \<open>What every removal of a dead cell keeps, a tick keeps.\<close>

lemma kv_scan_induct:
  assumes "\<And>s s1 d a. kv_inv s \<Longrightarrow> kv_inv s1 \<Longrightarrow> P s \<Longrightarrow> kv_drops d a s s1 \<Longrightarrow> P s1"
  shows "kv_inv s \<Longrightarrow> P s \<Longrightarrow> kv_scan clk ks s = Some s' \<Longrightarrow> P s'"
proof (induction ks arbitrary: s)
  case Nil
  then show ?case by simp
next
  case (Cons k ks)
  show ?case
  proof (cases "kv_list s (tick_ttl k)")
    case Nil
    have "kv_scan clk (k # ks) s = kv_scan clk ks s"
      using Nil kv_list_Len [OF Cons.prems(1), of "tick_ttl k"]
      by (auto simp: Let_def tick_ttl_def [symmetric] split: option.split)
    then show ?thesis using Cons by simp
  next
    case list: (Cons a xs)
    then obtain el where el: "map_of (listTTL s) (tick_ttl k) = Some el"
      by (auto simp: kv_list_def list_map_def split: option.splits)
    have scan: "kv_scan clk (k # ks) s = (case kv_sweep (clk (length ks)) (tick_ttl k) s None of
        None \<Rightarrow> None | Some s' \<Rightarrow> kv_scan clk ks s')"
      using el list kv_list_Len [OF Cons.prems(1) el] by (simp add: Let_def tick_ttl_def [symmetric])
    show ?thesis
    proof (cases "kv_dead (clk (length ks)) (heap s a)")
      case False
      then have "kv_sweep (clk (length ks)) (tick_ttl k) s None = Some s"
        using kv_sweep_live Cons.prems(1) el list by blast
      then show ?thesis using Cons scan by simp
    next
      case True
      obtain s1 where s1: "kv_sweep (clk (length ks)) (tick_ttl k) s None = Some s1" "kv_inv s1"
        "kv_drops (tick_ttl k) a s s1"
        using kv_sweep_dead [OF Cons.prems(1) el list True] by blast
      have "P s1" by (rule assms [OF Cons.prems(1) s1(2) Cons.prems(2) s1(3)])
      then show ?thesis using Cons.IH [OF s1(2)] Cons.prems(3) scan s1(1) by simp
    qed
  qed
qed

lemma kv_tick_induct:
  assumes "kv_inv s" "kv_tick clk s = Some s'" "P s"
    and "\<And>s s1 d a. kv_inv s \<Longrightarrow> kv_inv s1 \<Longrightarrow> P s \<Longrightarrow> kv_drops d a s s1 \<Longrightarrow> P s1"
  shows "P s'"
  using kv_scan_induct [of P s clk] assms unfolding kv_tick_def by blast

end
