(* ===== verification/VLog_Frame.thy ===== *)
theory VLog_Frame
  imports VLog_Reader
begin

text \<open>
  What a turn of a reader leaves alone, whatever the system does: it writes to its own file
  only, goes on with it or with a new one, and puts up for closing only files that it turned
  away from.
\<close>

definition fl_frame :: "addr \<Rightarrow> addr \<Rightarrow> files \<Rightarrow> files \<Rightarrow> bool" where
  "fl_frame w w' st st' \<longleftrightarrow> fl_next st \<le> fl_next st' \<and> w' < fl_next st' \<and>
     (\<forall>a<fl_next st. a \<noteq> w \<longrightarrow> fl_fs st' a = fl_fs st a) \<and> (w' = w \<or> fl_next st \<le> w') \<and>
     (\<forall>c\<in>fst ` set (fl_closing st'). c \<in> fst ` set (fl_closing st) \<or>
        (c \<noteq> w' \<and> (c = w \<or> fl_next st \<le> c) \<and> c < fl_next st'))"

lemma fl_frame_refl: "w < fl_next st \<Longrightarrow> fl_frame w w st st"
  by (simp add: fl_frame_def)

lemma fl_frame_trans:
  assumes "w < fl_next st" "fl_frame w w1 st st1" "fl_frame w1 w2 st1 st2"
  shows "fl_frame w w2 st st2"
proof -
  note d1 = assms(2) [unfolded fl_frame_def] and d2 = assms(3) [unfolded fl_frame_def]
  have "c \<in> fst ` set (fl_closing st) \<or> (c \<noteq> w2 \<and> (c = w \<or> fl_next st \<le> c) \<and> c < fl_next st2)"
    if "c \<in> fst ` set (fl_closing st2)" for c
  proof (cases "c \<in> fst ` set (fl_closing st1)")
    case True
    then have "c \<in> fst ` set (fl_closing st) \<or> (c \<noteq> w1 \<and> (c = w \<or> fl_next st \<le> c) \<and> c < fl_next st1)"
      using d1 by blast
    then show ?thesis using d2 by auto
  next
    case False
    then have "c \<noteq> w2 \<and> (c = w1 \<or> fl_next st1 \<le> c) \<and> c < fl_next st2" using d2 that by blast
    then show ?thesis using d1 by auto
  qed
  moreover have "fl_fs st2 a = fl_fs st a" if "a < fl_next st" "a \<noteq> w" for a
  proof -
    have "a \<noteq> w1" "a < fl_next st1" using d1 that by auto
    then show ?thesis using d1 d2 that by metis
  qed
  moreover have "w2 = w \<or> fl_next st \<le> w2" using d1 d2 by auto
  ultimately show ?thesis using d1 d2 unfolding fl_frame_def by (meson order_trans)
qed

lemma fl_frame_write: "w < fl_next st \<Longrightarrow> fl_frame w w st (st\<lparr>fl_fs := (fl_fs st)(w := vf)\<rparr>)"
  by (simp add: fl_frame_def)

lemma fl_frame_rotate:
  assumes "w < fl_next st" "vl_rotate e now ttl w st = Some (w', st')"
  shows "fl_frame w w' st st'"
  using assms by (auto simp: vl_rotate_def fl_new_def fl_AutoExpire_def fl_frame_def
      split: option.splits prod.splits)

lemma fl_frame_tries:
  assumes "w < fl_next st" "vl_tries es now ttl itm w st = Some (r, w', st')"
  shows "fl_frame w w' st st'"
  using assms
proof (induction es arbitrary: w st)
  case Nil
  then show ?case by (simp add: fl_frame_refl)
next
  case (Cons e es)
  obtain rr s vf where t: "vl_transform now (te_open e) (te_got e) w itm (te_writes e, fl_fs st w) = (rr, (s, vf))"
    by (metis prod.exhaust)
  let ?st = "st\<lparr>fl_fs := (fl_fs st)(w := vf)\<rparr>"
  have f1: "fl_frame w w st ?st" using Cons.prems(1) by (rule fl_frame_write)
  show ?case
  proof (cases rr)
    case (Inr itd)
    then show ?thesis using Cons.prems(2) t f1 by (auto simp: Let_def)
  next
    case (Inl err)
    then obtain w1 st1 where s1: "vl_rotate (te_file e) now ttl w ?st = Some (w1, st1)"
      "vl_tries es now ttl itm w1 st1 = Some (r, w', st')"
      using Cons.prems(2) t by (auto simp: Let_def split: option.splits)
    have f2: "fl_frame w w1 ?st st1" using fl_frame_rotate [OF _ s1(1)] Cons.prems(1) by simp
    then have "w1 < fl_next st1" by (simp add: fl_frame_def)
    from Cons.IH [OF this s1(2)] have "fl_frame w1 w' st1 st'" .
    with f1 f2 show ?thesis using fl_frame_trans Cons.prems(1) by blast
  qed
qed

lemma fl_frame_turn:
  assumes "w < fl_next st" "vl_reader_turn es e0 e4 now ttl itm w st = Some (r, w', st')"
  shows "fl_frame w w' st st'"
proof -
  obtain w1 st1 where s1: "(if vf_Expired now (fl_fs st w) then vl_rotate e0 now ttl w st else Some (w, st))
      = Some (w1, st1)"
    using assms(2) by (auto simp: vl_reader_turn_def split: option.splits)
  have f1: "fl_frame w w1 st st1"
    using s1 fl_frame_rotate [OF assms(1)] fl_frame_refl [OF assms(1)] by (auto split: if_splits)
  then have w1: "w1 < fl_next st1" by (simp add: fl_frame_def)
  obtain r2 w2 st2 where s2: "vl_tries [fst es, fst (snd es), snd (snd es)] now ttl itm w1 st1 = Some (r2, w2, st2)"
    using assms(2) s1 by (auto simp: vl_reader_turn_def split: option.splits)
  have f2: "fl_frame w1 w2 st1 st2" by (rule fl_frame_tries [OF w1 s2])
  then have w2: "w2 < fl_next st2" by (simp add: fl_frame_def)
  have "fl_frame w2 w' st2 st'"
    using assms(2) fl_frame_rotate [OF w2] fl_frame_refl [OF w2]
    unfolding vl_reader_turn_def s1 s2 option.case prod.case by (auto split: if_splits option.splits)
  with f1 f2 show ?thesis using fl_frame_trans w1 assms(1) by blast
qed

section \<open>What a turn hands over\<close>

lemma vl_transform_item:
  assumes "vl_transform now ok g a itm s = (Inr itd, s')"
  shows "id_VFile itd = Some a \<and> id_inUse itd = id_inUse (getItemDisk g)"
  using assms by (auto simp: vl_transform_def Let_def split: prod.splits option.splits)

lemma vl_tries_item:
  assumes "vl_tries es now ttl itm w st = Some (Some itd, w', st')"
  shows "id_VFile itd = Some w' \<and> (\<exists>e\<in>set es. id_inUse itd = id_inUse (getItemDisk (te_got e)))"
  using assms
proof (induction es arbitrary: w st)
  case Nil
  then show ?case by simp
next
  case (Cons e es)
  obtain rr s vf where t: "vl_transform now (te_open e) (te_got e) w itm (te_writes e, fl_fs st w) = (rr, (s, vf))"
    by (metis prod.exhaust)
  show ?case
  proof (cases rr)
    case (Inr i)
    then have "i = itd" "w = w'" using Cons.prems t by (simp_all add: Let_def)
    then show ?thesis using vl_transform_item t Inr by fastforce
  next
    case (Inl err)
    then obtain w1 st1 where "vl_tries es now ttl itm w1 st1 = Some (Some itd, w', st')"
      using Cons.prems t by (auto simp: Let_def split: option.splits)
    from Cons.IH [OF this] show ?thesis by auto
  qed
qed

lemma vl_turn_item:
  assumes "w < fl_next st" "vl_reader_turn es e0 e4 now ttl itm w st = Some (Some itd, w', st')"
  shows "(\<exists>a. id_VFile itd = Some a \<and> a < fl_next st') \<and>
    (\<exists>e\<in>{fst es, fst (snd es), snd (snd es)}. id_inUse itd = id_inUse (getItemDisk (te_got e)))"
proof -
  obtain w1 st1 where s1: "(if vf_Expired now (fl_fs st w) then vl_rotate e0 now ttl w st else Some (w, st))
      = Some (w1, st1)"
    using assms(2) by (auto simp: vl_reader_turn_def split: option.splits)
  have "fl_frame w w1 st st1"
    using s1 fl_frame_rotate [OF assms(1)] fl_frame_refl [OF assms(1)] by (auto split: if_splits)
  then have w1: "w1 < fl_next st1" by (simp add: fl_frame_def)
  obtain r2 w2 st2 where s2: "vl_tries [fst es, fst (snd es), snd (snd es)] now ttl itm w1 st1 = Some (r2, w2, st2)"
    using assms(2) s1 by (auto simp: vl_reader_turn_def split: option.splits)
  have w2: "w2 < fl_next st2" using fl_frame_tries [OF w1 s2] by (simp add: fl_frame_def)
  have fin: "r2 = Some itd \<and> (st' = st2 \<or> vl_rotate e4 now ttl w2 st2 = Some (w', st'))"
    using assms(2) unfolding vl_reader_turn_def s1 s2 option.case prod.case
    by (auto split: if_splits option.splits)
  have "fl_next st2 \<le> fl_next st3" if "vl_rotate e4 now ttl w2 st2 = Some (w3, st3)" for w3 st3
    using fl_frame_rotate [OF w2 that] by (simp add: fl_frame_def)
  with fin have "fl_next st2 \<le> fl_next st'" by blast
  then show ?thesis using vl_tries_item [of "[fst es, fst (snd es), snd (snd es)]"] s2 fin w2 by fastforce
qed

text \<open>
  The outcomes of a turn in which every failure is noticed: one of the three tries succeeds, or
  none does.
\<close>

definition turn_noticed :: "try_env \<times> try_env \<times> try_env \<Rightarrow> itemMem \<Rightarrow> bool" where
  "turn_noticed es itm \<longleftrightarrow>
     (\<exists>fails rest. [fst es, fst (snd es), snd (snd es)] = fails @ rest \<and> (\<forall>f\<in>set fails. try_fails f) \<and>
        (fails \<noteq> [] \<longrightarrow> header_pieces (im_Header itm) \<noteq> []) \<and> (rest = [] \<or> try_good (hd rest)))"

lemma vl_turn_outcome:
  assumes "fl_ok w st" "im_ok itm" "length (im_content itm) < 2 ^ 63" "turn_noticed es itm"
    and turn: "vl_reader_turn es (True, True) (True, True) now ttl itm w st = Some (r, w', st')"
  shows "fl_ok w' st' \<and>
    (\<forall>itd. r = Some itd \<longrightarrow> id_ready (fl_fs st') itd \<and> id_body (fl_fs st') itd = im_content itm \<and>
       id_Key itd = im_Key itm \<and> id_StatusCode itd = im_StatusCode itm) \<and>
    (\<forall>old a. id_ready (fl_fs st) old \<and> id_VFile old = Some a \<and> a < fl_next st \<longrightarrow>
       id_ready (fl_fs st') old \<and> id_body (fl_fs st') old = id_body (fl_fs st) old)"
proof -
  obtain e1 e2 e3 where es: "es = (e1, e2, e3)" by (cases es)
  obtain fails rest where f: "[e1, e2, e3] = fails @ rest" "\<forall>f\<in>set fails. try_fails f"
    "fails \<noteq> [] \<longrightarrow> header_pieces (im_Header itm) \<noteq> []" "rest = [] \<or> try_good (hd rest)"
    using assms(4) by (auto simp: turn_noticed_def es)
  show ?thesis
  proof (cases rest)
    case Nil
    then have "fails = [e1, e2, e3]" using f(1) by simp
    then show ?thesis
      using vl_reader_gives_up [OF assms(1), of itm e1 e2 e3 now ttl] f(2,3) turn es by auto
  next
    case (Cons e more)
    have g: "fails \<noteq> [] \<Longrightarrow> header_pieces (im_Header itm) \<noteq> []" "try_good e" "[e1, e2, e3] = fails @ e # more"
      using f Cons by simp_all
    from vl_reader_turn_good [OF assms(1-3) g(1,3) f(2) g(2), of now ttl]
    show ?thesis using turn es by auto
  qed
qed

end
