(* ===== verification/LSM_Run.thy ===== *)
theory LSM_Run
  imports LSM_Props Item_Ref KVSM_Cells VLog_Frame
begin

text \<open>
  The cache with all that goes on around it: clients that look items up and release them, fill
  new items and store them; the worker of the store, the retries of evictions, the readers that
  move items to disk, and the closing of old files, in any order. One step is one call.

  Beside the cache, a run keeps what no part of the program knows: which responses were stored
  (key, status, body), the addresses that the allocator has given out, which items a client
  is filling, and which items the clients hold. The invariant of the runs says that every
  item has one owner, and that what a key leads to is a response stored under this key.
\<close>

type_synonym stored = "(u64 \<times> int \<times> byte list) set"

record run =
  rn_cache :: lsm
  rn_stored :: stored
  rn_mems :: "addr set"
  rn_disks :: "addr set"
  rn_filling :: "addr set"
  rn_held :: "item_ref multiset"

definition run_start :: "duration \<Rightarrow> (addr \<Rightarrow> itemMem) \<Rightarrow> vfiles \<Rightarrow> run" where
  "run_start minTTL mems fs = \<lparr>rn_cache = lsm_New minTTL mems fs, rn_stored = {}, rn_mems = {},
     rn_disks = {}, rn_filling = {}, rn_held = {#}\<rparr>"

text \<open>The items that wait in some channel to be moved to disk.\<close>

definition queued :: "lsm \<Rightarrow> addr set" where
  "queued s = {a. \<exists>ti ch. map_of (ls_ttlCh s) ti = Some ch \<and> a \<in> set ch}"

text \<open>The pool that \<open>NewItem\<close> asks.\<close>

definition pool_of :: "int \<Rightarrow> int" where
  "pool_of l = calcIndex (if l > itemMemMaxSize then itemMemMaxSize else l)"

section \<open>Steps\<close>

text \<open>
  The items that the pool of items on disk gives to a reader are items that were put there.
  For the writes, \<open>turn_noticed\<close> says that those which fail are the first of their try, so that the
  reader notices (an end mark that is written halfway is not: \<open>vl_torn_mark_shifts_next\<close>).
\<close>

definition got_from_pool :: "try_env \<times> try_env \<times> try_env \<Rightarrow> items_env \<Rightarrow> bool" where
  "got_from_pool es e \<longleftrightarrow>
     (\<forall>t\<in>{fst es, fst (snd es), snd (snd es)}. te_got t = None \<or>
        (\<exists>d\<in>set (ie_diskPool e). te_got t = Some (ie_disk e d)))"

inductive cache_step :: "run \<Rightarrow> run \<Rightarrow> bool" where
  step_get: "lsm_Get now k (rn_cache r) = Some (Inr (it, x), s) \<Longrightarrow>
    cache_step r (r\<lparr>rn_cache := s, rn_held := add_mset it (rn_held r)\<rparr>)"
| step_done: "it \<in># rn_held r \<Longrightarrow>
    cache_step r (r\<lparr>rn_cache := lsm_Done it (rn_cache r), rn_held := rn_held r - {#it#}\<rparr>)"
| step_delete: "cache_step r (r\<lparr>rn_cache := lsm_Delete k (rn_cache r)\<rparr>)"
| step_new: "lsm_NewItem a l (rn_cache r) = Some s \<Longrightarrow>
    a \<notin> rn_mems r \<or> (pool_of l, a) \<in> set (ie_memPool (env (ls_mem (rn_cache r)))) \<Longrightarrow>
    a \<notin> queued (rn_cache r) \<Longrightarrow>
    cache_step r (r\<lparr>rn_cache := s, rn_mems := insert a (rn_mems r), rn_filling := insert a (rn_filling r)\<rparr>)"
| step_fill: "a \<in> rn_filling r \<Longrightarrow> im_inUse itm = im_inUse (lsm_item a (rn_cache r)) \<Longrightarrow>
    cache_step r (r\<lparr>rn_cache := lsm_put_item a itm (rn_cache r)\<rparr>)"
| step_store: "a \<in> rn_filling r \<Longrightarrow> lsm_item a (rn_cache r) = itm \<Longrightarrow> im_ok itm \<Longrightarrow>
    length (im_content itm) < 2 ^ 63 \<Longrightarrow>
    entryPool_Get (entryPool (ls_mem (rn_cache r))) (fresh (ls_mem (rn_cache r))) cell \<Longrightarrow>
    length (addLLCh (ls_mem (rn_cache r))) < actionsBuffer \<Longrightarrow>
    lsm_Set now cell key a ttl (rn_cache r) = Some s \<Longrightarrow>
    cache_step r (r\<lparr>rn_cache := s, rn_filling := rn_filling r - {a},
      rn_stored := insert (im_Key itm, im_StatusCode itm, im_content itm) (rn_stored r)\<rparr>)"
| step_abandon: "cache_step r (r\<lparr>rn_filling := rn_filling r - {a}\<rparr>)"
| step_recv: "kv_recv (ls_mem (rn_cache r)) = Some m \<Longrightarrow>
    cache_step r (r\<lparr>rn_cache := (rn_cache r)\<lparr>ls_mem := m\<rparr>\<rparr>)"
| step_tick: "kv_tick clk (ls_mem (rn_cache r)) = Some m \<Longrightarrow>
    cache_step r (r\<lparr>rn_cache := (rn_cache r)\<lparr>ls_mem := m\<rparr>\<rparr>)"
| step_retry: "cache_step r (r\<lparr>rn_cache := fst (lsm_retryEviction (rn_cache r))\<rparr>)"
| step_reader_start: "lsm_reader_start (True, True) now ti (rn_cache r) = Some s \<Longrightarrow>
    cache_step r (r\<lparr>rn_cache := s\<rparr>)"
| step_reader_turn: "map_of (ls_ttlCh (rn_cache r)) ti = Some (a # rest) \<Longrightarrow>
    turn_noticed es (lsm_item a (rn_cache r)) \<Longrightarrow> got_from_pool es (env (ls_mem (rn_cache r))) \<Longrightarrow>
    d \<notin> rn_disks r \<or> d \<in> set (ie_diskPool (env (ls_mem (rn_cache r)))) \<Longrightarrow>
    (items (ls_mem (rn_cache r)) (im_Key (lsm_item a (rn_cache r))) = None \<Longrightarrow>
      entryPool_Get (entryPool (ls_mem (rn_cache r))) (fresh (ls_mem (rn_cache r))) cell \<and>
      length (addLLCh (ls_mem (rn_cache r))) < actionsBuffer) \<Longrightarrow>
    lsm_reader_turn es (True, True) (True, True) now cell d ti (rn_cache r) = Some s \<Longrightarrow>
    cache_step r (r\<lparr>rn_cache := s, rn_disks := insert d (rn_disks r)\<rparr>)"
| step_wake: "cache_step r (r\<lparr>rn_cache := (rn_cache r)\<lparr>ls_files := fl_wake now (ls_files (rn_cache r))\<rparr>\<rparr>)"
| step_reload: "cache_step r (r\<lparr>rn_cache := lsm_Reload minTTL (rn_cache r)\<rparr>)"

inductive_cases cache_stepE: "cache_step r r'"

section \<open>The items\<close>

text \<open>
  A response that is known: one that was stored, or the empty one that stands in a recycled
  item, whose key is zero.
\<close>

definition known :: "stored \<Rightarrow> u64 \<Rightarrow> int \<Rightarrow> byte list \<Rightarrow> bool" where
  "known S k st b \<longleftrightarrow> (k, st, b) \<in> S \<or> (k = 0 \<and> st = 0 \<and> b = [])"

definition good_mem :: "stored \<Rightarrow> u64 \<Rightarrow> itemMem \<Rightarrow> bool" where
  "good_mem S k itm \<longleftrightarrow> im_ok itm \<and> length (im_content itm) < 2 ^ 63 \<and> im_Key itm = k \<and>
     known S k (im_StatusCode itm) (im_content itm)"

definition good_disk :: "stored \<Rightarrow> files \<Rightarrow> u64 \<Rightarrow> itemDisk \<Rightarrow> bool" where
  "good_disk S st k itd \<longleftrightarrow> id_Key itd = k \<and>
     (\<exists>w. id_VFile itd = Some w \<and> w < fl_next st \<and>
        (vf_r (fl_fs st w) \<longrightarrow> id_ready (fl_fs st) itd \<and> known S k (id_StatusCode itd) (id_body (fl_fs st) itd)))"

definition blank :: "itemMem \<Rightarrow> bool" where
  "blank itm \<longleftrightarrow> im_ok itm \<and> im_content itm = [] \<and> im_Header itm = [] \<and> im_Key itm = 0 \<and>
     im_StatusCode itm = 0 \<and> im_inUse itm = 0"

lemma blank_put: "blank (fst (putItemMem itm))"
  using putItemMem_parts [of itm] by (metis blank_def prod.collapse)

lemma blank_good: "blank itm \<Longrightarrow> good_mem S (im_Key itm) itm"
  by (simp add: blank_def good_mem_def known_def)

lemma known_mono: "known S k st b \<Longrightarrow> S \<subseteq> S' \<Longrightarrow> known S' k st b"
  by (auto simp: known_def)

lemma good_mem_mono: "good_mem S k itm \<Longrightarrow> S \<subseteq> S' \<Longrightarrow> good_mem S' k itm"
  by (auto simp: good_mem_def intro: known_mono)

lemma good_diskE:
  assumes "good_disk S st k itd"
  obtains w where "id_VFile itd = Some w" "w < fl_next st"
  using assms unfolding good_disk_def by blast

lemma good_disk_mono: "good_disk S st k itd \<Longrightarrow> S \<subseteq> S' \<Longrightarrow> good_disk S' st k itd"
  by (auto simp: good_disk_def intro: known_mono)

lemma good_mem_use [simp]:
  "good_mem S k (itm\<lparr>im_inUse := n, im_HIT := h\<rparr>) = good_mem S k itm"
  "good_mem S k (itemMem_Done itm) = good_mem S k itm"
  by (simp_all add: good_mem_def im_ok_def im_content_def itemMem_Done_def cong: option.case_cong)

lemma good_disk_use [simp]:
  "good_disk S st k (itd\<lparr>id_inUse := n, id_HIT := h\<rparr>) = good_disk S st k itd"
  "good_disk S st k (itemDisk_Done itd) = good_disk S st k itd"
  by (simp_all add: good_disk_def id_ready_def id_body_def itemDisk_Done_def cong: option.case_cong)

section \<open>The invariant of the items\<close>

definition env_refs :: "items_env \<Rightarrow> item_ref multiset" where
  "env_refs e = mset (ie_retryCh e) + image_mset (\<lambda>(i, a). VMem a) (mset (ie_memPool e)) +
     image_mset VDisk (mset (ie_diskPool e))"

text \<open>
  The count of users is the number of clients that hold the item; what is in a pool is empty
  and not in use; what waits in a channel can be moved to disk.
\<close>

definition env_inv :: "addr set \<Rightarrow> addr set \<Rightarrow> item_ref multiset \<Rightarrow> addr set \<Rightarrow> stored \<Rightarrow> items_env \<Rightarrow> bool" where
  "env_inv M D H Q S e \<longleftrightarrow>
     (\<forall>a\<in>M. im_inUse (ie_mem e a) = int (count H (VMem a))) \<and>
     (\<forall>d. id_inUse (ie_disk e d) = int (count H (VDisk d))) \<and>
     (\<forall>(i, a)\<in>set (ie_memPool e). blank (ie_mem e a)) \<and>
     (\<forall>d\<in>set (ie_diskPool e). id_inUse (ie_disk e d) = 0) \<and>
     (\<forall>a\<in>Q. good_mem S (im_Key (ie_mem e a)) (ie_mem e a))"

text \<open>An eviction passes the item on to the pool or to the channel, or drops it.\<close>

lemma evict_refs: "env_refs (lsm_onEvict v e) \<subseteq># env_refs e + opt_mset v"
proof (cases v)
  case None
  then show ?thesis by (simp add: lsm_onEvict_def onEvictInternal_def)
next
  case (Some r)
  then show ?thesis
    by (cases r) (auto simp: lsm_onEvict_def onEvictInternal_def lsm_retry_later_def env_refs_def Let_def
      ac_simps split: prod.split option.split)
qed

lemma evict_items:
  "v \<noteq> Some (VMem a) \<Longrightarrow> ie_mem (lsm_onEvict v e) a = ie_mem e a"
  "v \<noteq> Some (VDisk d) \<Longrightarrow> ie_disk (lsm_onEvict v e) d = ie_disk e d"
  "ie_mem (lsm_onEvict v e) a = ie_mem e a \<or> (im_inUse (ie_mem e a) = 0 \<and> blank (ie_mem (lsm_onEvict v e) a))"
  "ie_disk (lsm_onEvict v e) d = ie_disk e d \<or>
     (id_inUse (ie_disk e d) = 0 \<and> id_inUse (ie_disk (lsm_onEvict v e) d) = 0)"
  using blank_put [of "ie_mem e a"]
  by (auto simp: lsm_onEvict_def onEvictInternal_def lsm_retry_later_def Let_def putItemDisk_def
    split: option.splits item_ref.splits prod.splits)

lemma evict_pools:
  "(i, a) \<in> set (ie_memPool (lsm_onEvict v e)) \<Longrightarrow>
     (i, a) \<in> set (ie_memPool e) \<or> blank (ie_mem (lsm_onEvict v e) a)"
  "d \<in> set (ie_diskPool (lsm_onEvict v e)) \<Longrightarrow>
     d \<in> set (ie_diskPool e) \<or> id_inUse (ie_disk (lsm_onEvict v e) d) = 0"
  using blank_put [of "ie_mem e a"]
  by (auto simp: lsm_onEvict_def onEvictInternal_def lsm_retry_later_def Let_def putItemDisk_def
    split: option.splits item_ref.splits prod.splits if_splits)

lemma env_inv_evict:
  assumes "env_inv M D H Q S e" shows "env_inv M D H Q S (lsm_onEvict v e)"
proof -
  let ?e = "lsm_onEvict v e"
  have "im_inUse (ie_mem ?e a) = im_inUse (ie_mem e a)" "id_inUse (ie_disk ?e d) = id_inUse (ie_disk e d)" for a d
    using evict_items(3) [of v e a] evict_items(4) [of v e d] by (auto simp: blank_def)
  moreover have "blank (ie_mem ?e a)" if "(i, a) \<in> set (ie_memPool ?e)" for i a
    using evict_pools(1) [OF that] evict_items(3) [of v e a] assms by (auto simp: env_inv_def)
  moreover have "id_inUse (ie_disk ?e d) = 0" if "d \<in> set (ie_diskPool ?e)" for d
    using evict_pools(2) [OF that] evict_items(4) [of v e d] assms by (auto simp: env_inv_def)
  moreover have "good_mem S (im_Key (ie_mem ?e a)) (ie_mem ?e a)" if "a \<in> Q" for a
    using evict_items(3) [of v e a] blank_good assms that by (auto simp: env_inv_def)
  ultimately show ?thesis using assms by (auto simp: env_inv_def)
qed

section \<open>The invariant of the store\<close>

definition good_item :: "stored \<Rightarrow> files \<Rightarrow> items_env \<Rightarrow> u64 \<Rightarrow> item_ref \<Rightarrow> bool" where
  "good_item S st e k x =
     (case x of VMem a \<Rightarrow> good_mem S k (ie_mem e a) | VDisk d \<Rightarrow> good_disk S st k (ie_disk e d))"

text \<open>Everyone who owns an item: the cells, the channel of retries, the pools, and clients that fill it.\<close>

definition mem_refs :: "(item_ref, items_env) kvsm \<Rightarrow> addr set \<Rightarrow> item_ref multiset" where
  "mem_refs m F = kv_vals m + env_refs (env m) + image_mset VMem (mset_set F)"

definition mem_inv ::
  "addr set \<Rightarrow> addr set \<Rightarrow> item_ref multiset \<Rightarrow> addr set \<Rightarrow> stored \<Rightarrow> files \<Rightarrow> addr set
     \<Rightarrow> (item_ref, items_env) kvsm \<Rightarrow> bool" where
  "mem_inv M D H Q S st F m \<longleftrightarrow> kv_inv m \<and> onEvicted m = Some lsm_onEvict \<and>
     (\<forall>x. count (mem_refs m F) x \<le> 1) \<and> set_mset (mem_refs m F) \<subseteq> VMem ` M \<union> VDisk ` D \<and>
     (\<forall>k x. kv_has m k x \<longrightarrow> good_item S st (env m) k x) \<and> env_inv M D H Q S (env m)"

lemma evict_none: "lsm_onEvict None e = e"
  by (simp add: lsm_onEvict_def onEvictInternal_def)

lemma good_item_evict:
  "v \<noteq> Some x \<Longrightarrow> good_item S st (lsm_onEvict v e) k x = good_item S st e k x"
  by (cases x) (simp_all add: good_item_def evict_items(1,2))

text \<open>
  The general step: values \<open>V\<close> are distributed over the cells and the eviction of at most one.
\<close>

lemma mem_inv_move:
  assumes "kv_inv m'" "onEvicted m' = Some lsm_onEvict"
    and V: "kv_vals m' + opt_mset old \<subseteq># V" and env: "env m' = lsm_onEvict old e"
    and own: "\<And>x. count (V + env_refs e + image_mset VMem (mset_set F)) x \<le> 1"
    and known: "set_mset (V + env_refs e + image_mset VMem (mset_set F)) \<subseteq> VMem ` M \<union> VDisk ` D"
    and has: "\<And>k x. kv_has m' k x \<Longrightarrow> good_item S st e k x" and e: "env_inv M D H Q S e"
  shows "mem_inv M D H Q S st F m'"
proof -
  let ?F = "image_mset VMem (mset_set F)"
  have "kv_vals m' + env_refs (env m') \<subseteq># kv_vals m' + (env_refs e + opt_mset old)"
    unfolding env by (intro subset_mset.add_mono evict_refs subset_mset.order_refl)
  also have "\<dots> = (kv_vals m' + opt_mset old) + env_refs e" by (simp add: ac_simps)
  also have "\<dots> \<subseteq># V + env_refs e" using V by (intro subset_mset.add_mono subset_mset.order_refl)
  finally have sub: "mem_refs m' F \<subseteq># V + env_refs e + ?F"
    unfolding mem_refs_def by (rule subset_mset.add_right_mono)
  have "count (mem_refs m' F) x \<le> 1" for x
    using mset_subset_eq_count [OF sub, of x] own [of x] by linarith
  moreover have "set_mset (mem_refs m' F) \<subseteq> VMem ` M \<union> VDisk ` D"
    using set_mset_mono [OF sub] known by blast
  moreover have "good_item S st (env m') k x" if x: "kv_has m' k x" for k x
  proof -
    have "old \<noteq> Some x"
    proof
      assume "old = Some x"
      then have "2 \<le> count (kv_vals m' + opt_mset old) x"
        using kv_has_vals [OF x] by (simp add: Suc_le_eq)
      then have "2 \<le> count (V + env_refs e + ?F) x" using mset_subset_eq_count [OF V, of x] by simp
      then show False using own [of x] by simp
    qed
    then show ?thesis using has [OF x] good_item_evict env by simp
  qed
  moreover have "env_inv M D H Q S (env m')" unfolding env by (rule env_inv_evict [OF e])
  ultimately show ?thesis using assms(1,2) by (simp add: mem_inv_def)
qed

lemma mem_invD:
  assumes "mem_inv M D H Q S st F m"
  shows "kv_inv m" "onEvicted m = Some lsm_onEvict" "count (mem_refs m F) x \<le> 1"
    "set_mset (mem_refs m F) \<subseteq> VMem ` M \<union> VDisk ` D" "kv_has m k x \<Longrightarrow> good_item S st (env m) k x"
    "env_inv M D H Q S (env m)"
  using assms by (simp_all add: mem_inv_def)

text \<open>A step of the store that brings no new value in.\<close>

lemma mem_inv_less:
  assumes "mem_inv M D H Q S st F m" "kv_inv m'" "onEvicted m' = onEvicted m"
    and "kv_vals m' + opt_mset old \<subseteq># kv_vals m" "env m' = lsm_onEvict old (env m)"
    and "\<And>k x. kv_has m' k x \<Longrightarrow> kv_has m k x"
  shows "mem_inv M D H Q S st F m'"
proof -
  note i = mem_invD [OF assms(1)]
  show ?thesis
    by (rule mem_inv_move [OF assms(2) _ assms(4,5) _ _ _ i(6)])
      (use i(2-5) assms(3,6) in \<open>auto simp: mem_refs_def\<close>)
qed

lemma mem_inv_recv:
  assumes "mem_inv M D H Q S st F m" "kv_recv m = Some m'"
  shows "mem_inv M D H Q S st F m'"
proof -
  note i = mem_invD(1) [OF assms(1)]
  show ?thesis
    by (rule mem_inv_less [OF assms(1) kv_inv_recv [OF i assms(2)], where old = None])
      (use kv_vals_recv [OF i assms(2)] in \<open>simp_all add: evict_none\<close>)
qed

lemma mem_inv_tick:
  assumes "mem_inv M D H Q S st F m" "kv_tick clk m = Some m'"
  shows "mem_inv M D H Q S st F m'"
  using mem_invD(1) [OF assms(1)] assms(2,1)
proof (rule kv_tick_induct)
  fix s s1 d a
  assume s: "kv_inv s" "kv_inv s1" "mem_inv M D H Q S st F s" "kv_drops d a s s1"
  obtain old where old: "kv_vals s1 + opt_mset old = kv_vals s" "onEvicted s1 = onEvicted s"
    "env s1 = (case (onEvicted s, old) of (Some f, Some v) \<Rightarrow> f (Some v) (env s) | _ \<Rightarrow> env s)"
    "\<And>k w. kv_has s1 k w \<Longrightarrow> kv_has s k w" using kv_vals_drops [OF s(1,2,4)] by blast
  show "mem_inv M D H Q S st F s1"
    by (rule mem_inv_less [OF s(3,2) old(2), where old = old])
      (use old(1,3,4) mem_invD(2) [OF s(3)] in \<open>simp_all add: evict_none split: option.splits\<close>)
qed

lemma mem_inv_RemoveByKey:
  assumes "mem_inv M D H Q S st F m"
  shows "mem_inv M D H Q S st F (kv_RemoveByKey k m)"
proof -
  note i = mem_invD(1) [OF assms]
  show ?thesis
    by (rule mem_inv_less [OF assms kv_inv_RemoveByKey [OF i], where old = None])
      (use kv_vals_RemoveByKey [OF i, of k] in \<open>simp_all add: evict_none\<close>)
qed

text \<open>A step that only concerns the items.\<close>

lemma kv_env_frame_simps [simp]:
  "kv_inv (m\<lparr>env := e\<rparr>) = kv_inv m" "kv_vals (m\<lparr>env := e\<rparr>) = kv_vals m" "kv_has (m\<lparr>env := e\<rparr>) = kv_has m"
  by (simp_all add: kv_inv_env kv_vals_def kv_has_def [abs_def] kv_live_def)

lemma mem_inv_env:
  assumes "mem_inv M D H Q S st F m"
    and "\<And>x. count (kv_vals m + env_refs e + image_mset VMem (mset_set F')) x \<le> 1"
    and "set_mset (kv_vals m + env_refs e + image_mset VMem (mset_set F')) \<subseteq> VMem ` M' \<union> VDisk ` D'"
    and "\<And>k x. kv_has m k x \<Longrightarrow> good_item S st (env m) k x \<Longrightarrow> good_item S' st' e k x"
    and "env_inv M' D' H' Q' S' e"
  shows "mem_inv M' D' H' Q' S' st' F' (m\<lparr>env := e\<rparr>)"
  unfolding mem_inv_def mem_refs_def
  using mem_invD(1,2,5) [OF assms(1)] assms(2-5) by (simp del: One_nat_def count_union set_mset_union)

text \<open>Whoever owns an item, nobody else does.\<close>

lemma owner_unique:
  assumes "mem_inv M D H Q S st F m" "finite F"
  shows "x \<in># kv_vals m \<Longrightarrow> x \<notin># env_refs (env m)"
    and "VMem a \<in># kv_vals m \<Longrightarrow> a \<notin> F" "VMem a \<in># env_refs (env m) \<Longrightarrow> a \<notin> F"
proof -
  have le: "count (kv_vals m) x + count (env_refs (env m)) x + count (image_mset VMem (mset_set F)) x \<le> 1" for x
    using mem_invD(3) [OF assms(1), of x] by (simp add: mem_refs_def)
  have pos: "1 \<le> count N x" if "x \<in># N" for x and N :: "item_ref multiset"
    using that by (simp add: Suc_le_eq)
  have F: "VMem a \<in># image_mset VMem (mset_set F)" if "a \<in> F" for a using that assms(2) by simp
  show "x \<notin># env_refs (env m)" if "x \<in># kv_vals m"
    using le [of x] pos [OF that] pos [of x "env_refs (env m)"] by linarith
  show "a \<notin> F" if "VMem a \<in># kv_vals m"
    using le [of "VMem a"] pos [OF that] pos [OF F, of a] by linarith
  show "a \<notin> F" if "VMem a \<in># env_refs (env m)"
    using le [of "VMem a"] pos [OF that] pos [OF F, of a] by linarith
qed

lemma pooled:
  "(i, a) \<in> set (ie_memPool e) \<Longrightarrow> VMem a \<in># env_refs e"
  "d \<in> set (ie_diskPool e) \<Longrightarrow> VDisk d \<in># env_refs e"
  "x \<in> set (ie_retryCh e) \<Longrightarrow> x \<in># env_refs e"
  by (force simp: env_refs_def)+

section \<open>The invariant of a run\<close>

definition closing :: "files \<Rightarrow> addr set" where
  "closing st = fst ` set (fl_closing st)"

definition reader_file :: "lsm \<Rightarrow> int \<Rightarrow> addr \<Rightarrow> bool" where
  "reader_file s ti w \<longleftrightarrow> (\<exists>t. map_of (ls_reader s) ti = Some (t, Some w))"

text \<open>The current files of the readers are open, not due to be closed, and not shared.\<close>

definition files_inv :: "lsm \<Rightarrow> bool" where
  "files_inv s \<longleftrightarrow> (\<forall>c\<in>closing (ls_files s). c < fl_next (ls_files s)) \<and>
     (\<forall>ti w. reader_file s ti w \<longrightarrow> fl_ok w (ls_files s) \<and> w \<notin> closing (ls_files s)) \<and>
     (\<forall>ti ti' w. reader_file s ti w \<longrightarrow> reader_file s ti' w \<longrightarrow> ti' = ti)"

lemma files_invD:
  assumes "files_inv s"
  shows "c \<in> closing (ls_files s) \<Longrightarrow> c < fl_next (ls_files s)"
    and "reader_file s ti w \<Longrightarrow> fl_ok w (ls_files s)" "reader_file s ti w \<Longrightarrow> w \<notin> closing (ls_files s)"
      "reader_file s ti w \<Longrightarrow> w < fl_next (ls_files s)"
    and "reader_file s ti w \<Longrightarrow> reader_file s ti' w \<Longrightarrow> ti' = ti"
  using assms unfolding files_inv_def fl_ok_def by blast+

lemma files_invI:
  assumes "\<And>c. c \<in> closing (ls_files s) \<Longrightarrow> c < fl_next (ls_files s)"
    and "\<And>ti w. reader_file s ti w \<Longrightarrow> fl_ok w (ls_files s) \<and> w \<notin> closing (ls_files s)"
    and "\<And>ti w ti'. reader_file s ti w \<Longrightarrow> reader_file s ti' w \<Longrightarrow> ti' = ti"
  shows "files_inv s"
  unfolding files_inv_def using assms by blast

lemma files_inv_readers:
  assumes "files_inv s" "ls_files s' = ls_files s" "\<And>ti w. reader_file s' ti w \<Longrightarrow> reader_file s ti w"
  shows "files_inv s'"
  using files_invD [OF assms(1)] assms(3) by (intro files_invI) (unfold assms(2), blast+)

text \<open>One reader goes on with the file \<open>w'\<close>, its old one or a new one.\<close>

lemma files_inv_reader:
  assumes inv: "files_inv s"
    and reader: "\<And>tj w. reader_file s' tj w \<longleftrightarrow> (if tj = ti then w = w' else reader_file s tj w)"
    and ok: "fl_ok w' (ls_files s')" and nx: "fl_next (ls_files s) \<le> fl_next (ls_files s')"
    and old: "reader_file s ti w' \<or> fl_next (ls_files s) \<le> w'"
    and same: "\<And>a. a < fl_next (ls_files s) \<Longrightarrow> \<not> reader_file s ti a \<Longrightarrow> fl_fs (ls_files s') a = fl_fs (ls_files s) a"
    and cl: "\<And>c. c \<in> closing (ls_files s') \<Longrightarrow> c \<in> closing (ls_files s) \<or>
      (c \<noteq> w' \<and> (reader_file s ti c \<or> fl_next (ls_files s) \<le> c) \<and> c < fl_next (ls_files s'))"
  shows "files_inv s'"
proof -
  note D = files_invD [OF inv]
  have w': "w' \<notin> closing (ls_files s)" using old D(1) [of w'] D(3) [of ti w'] by auto
  have other: "w < fl_next (ls_files s)" "\<not> reader_file s ti w" "w \<noteq> w'" "w \<notin> closing (ls_files s)"
    "fl_ok w (ls_files s)" if "tj \<noteq> ti" "reader_file s tj w" for tj w
  proof -
    show "w < fl_next (ls_files s)" "w \<notin> closing (ls_files s)" "fl_ok w (ls_files s)"
      using D(2-4) [OF that(2)] by blast+
    show "\<not> reader_file s ti w" using D(5) [OF that(2)] that(1) by blast
    then show "w \<noteq> w'" using old D(4) [OF that(2)] by auto
  qed
  show ?thesis
  proof (rule files_invI)
    show "c < fl_next (ls_files s')" if "c \<in> closing (ls_files s')" for c
      using cl [OF that] D(1) [of c] nx by linarith
    show "fl_ok w (ls_files s') \<and> w \<notin> closing (ls_files s')" if r: "reader_file s' tj w" for tj w
    proof (cases "tj = ti")
      case True
      then have "w = w'" using r reader by simp
      then show ?thesis using ok cl [of w'] w' by blast
    next
      case False
      then have r': "reader_file s tj w" using r reader by simp
      note o = other [OF False r']
      have "fl_fs (ls_files s') w = fl_fs (ls_files s) w" by (rule same [OF o(1,2)])
      then have "fl_ok w (ls_files s')" using o(5) nx by (simp add: fl_ok_def)
      moreover have "w \<notin> closing (ls_files s')" using cl [of w] o(1,2,4) by linarith
      ultimately show ?thesis by blast
    qed
    show "tk = tj" if "reader_file s' tj w" "reader_file s' tk w" for tj w tk
      using that reader other(3) [of tj w] other(3) [of tk w] D(5) [of tj w tk] by (auto split: if_splits)
  qed
qed

definition run_inv :: "run \<Rightarrow> bool" where
  "run_inv r \<longleftrightarrow>
     mem_inv (rn_mems r) (rn_disks r) (rn_held r) (queued (rn_cache r)) (rn_stored r)
       (ls_files (rn_cache r)) (rn_filling r) (ls_mem (rn_cache r)) \<and>
     files_inv (rn_cache r) \<and> finite (rn_filling r) \<and>
     set_mset (rn_held r) \<subseteq> VMem ` rn_mems r \<union> VDisk ` rn_disks r \<and>
     queued (rn_cache r) \<inter> rn_filling r = {} \<and> queued (rn_cache r) \<subseteq> rn_mems r"

lemma run_invD:
  assumes "run_inv r"
  shows "mem_inv (rn_mems r) (rn_disks r) (rn_held r) (queued (rn_cache r)) (rn_stored r)
       (ls_files (rn_cache r)) (rn_filling r) (ls_mem (rn_cache r))"
    "files_inv (rn_cache r)" "finite (rn_filling r)"
    "set_mset (rn_held r) \<subseteq> VMem ` rn_mems r \<union> VDisk ` rn_disks r"
    "queued (rn_cache r) \<inter> rn_filling r = {}" "queued (rn_cache r) \<subseteq> rn_mems r"
  using assms by (simp_all add: run_inv_def)

lemma run_frame_simps [simp]:
  "queued (s\<lparr>ls_mem := m\<rparr>) = queued s" "queued (s\<lparr>ls_files := st\<rparr>) = queued s"
  "queued (s\<lparr>ls_MinLSMTTL := t\<rparr>) = queued s" "queued (s\<lparr>ls_reader := rd\<rparr>) = queued s"
  "reader_file (s\<lparr>ls_mem := m\<rparr>) = reader_file s" "reader_file (s\<lparr>ls_files := st\<rparr>) = reader_file s"
  "reader_file (s\<lparr>ls_ttlCh := q\<rparr>) = reader_file s"
  "files_inv (s\<lparr>ls_mem := m\<rparr>) = files_inv s" "files_inv (s\<lparr>ls_MinLSMTTL := t\<rparr>) = files_inv s"
  by (simp_all add: queued_def files_inv_def reader_file_def fun_eq_iff)

lemma run_inv_start: "run_inv (run_start minTTL mems fs)"
proof -
  let ?s = "lsm_New minTTL mems fs"
  have "kv_inv (ls_mem ?s)" by (simp add: lsm_New_def kv_inv_SetOnEvicted kv_inv_New)
  moreover have "kv_live (ls_mem ?s) = []" "onEvicted (ls_mem ?s) = Some lsm_onEvict"
    by (simp_all add: lsm_New_def kv_New_def kv_SetOnEvicted_def kv_live_def)
  moreover have "env_refs (env (ls_mem ?s)) = {#}" "ie_memPool (env (ls_mem ?s)) = []"
    "ie_diskPool (env (ls_mem ?s)) = []" "ie_disk (env (ls_mem ?s)) = (\<lambda>_. zero_itemDisk)"
    by (simp_all add: lsm_New_def kv_New_def kv_SetOnEvicted_def env_refs_def)
  ultimately have "mem_inv {} {} {#} {} {} st {} (ls_mem ?s)" for st
    by (simp add: mem_inv_def mem_refs_def kv_vals_def kv_has_def env_inv_def zero_itemDisk_def)
  moreover have "queued ?s = {}" "files_inv ?s"
    by (simp_all add: queued_def files_inv_def closing_def reader_file_def lsm_New_def)
  ultimately show ?thesis by (simp add: run_inv_def run_start_def)
qed

text \<open>Steps of the store alone.\<close>

lemma run_inv_mem:
  assumes "run_inv r"
    and "\<And>M D H Q S st F. mem_inv M D H Q S st F (ls_mem (rn_cache r)) \<Longrightarrow> mem_inv M D H Q S st F m"
  shows "run_inv (r\<lparr>rn_cache := (rn_cache r)\<lparr>ls_mem := m\<rparr>\<rparr>)"
  using run_invD [OF assms(1)] assms(2) by (simp add: run_inv_def)

lemma lsm_found:
  assumes "mem_inv M D H Q S st F (ls_mem s)" "lsm_lookup t k s = Some (Some (it, x))"
  shows "kv_has (ls_mem s) k it" "it \<in># kv_vals (ls_mem s)" "good_item S st (env (ls_mem s)) k it"
proof -
  show h: "kv_has (ls_mem s) k it"
    using assms kv_Get_has mem_invD(1) [OF assms(1)] by (simp add: lsm_lookup_kv)
  show "it \<in># kv_vals (ls_mem s)" using h by (rule kv_has_vals)
  show "good_item S st (env (ls_mem s)) k it" using mem_invD(5) [OF assms(1) h] .
qed

section \<open>The clients keep the invariant\<close>

lemma pin_refs [simp]: "env_refs (env_pin it e) = env_refs e" "env_refs (env_Done it e) = env_refs e"
  by (cases it; simp add: env_pin_def env_Done_def env_refs_def)+

lemma good_item_pin [simp]:
  "good_item S st (env_pin it e) k x = good_item S st e k x"
  "good_item S st (env_Done it e) k x = good_item S st e k x"
  by (cases it; cases x; simp add: env_pin_def env_Done_def good_item_def)+

text \<open>Writing one item that is in no pool, with the count of its users.\<close>

lemma env_inv_mem:
  assumes "env_inv M D H Q S e" "a \<notin> snd ` set (ie_memPool e)"
    and "im_inUse itm = int (count H' (VMem a))" "\<And>x. x \<noteq> VMem a \<Longrightarrow> count H' x = count H x"
    and "a \<in> Q \<Longrightarrow> good_mem S (im_Key itm) itm"
  shows "env_inv (insert a M) D H' Q S (e\<lparr>ie_mem := (ie_mem e)(a := itm)\<rparr>)"
proof -
  have "b \<noteq> a" if "(i, b) \<in> set (ie_memPool e)" for i b using that assms(2) by force
  then show ?thesis using assms(1,3,5) assms(4) unfolding env_inv_def by (auto split: prod.splits)
qed

lemma env_inv_disk:
  assumes "env_inv M D H Q S e" "d \<notin> set (ie_diskPool e)"
    and "id_inUse itd = int (count H' (VDisk d))" "\<And>x. x \<noteq> VDisk d \<Longrightarrow> count H' x = count H x"
  shows "env_inv M (insert d D) H' Q S (e\<lparr>ie_disk := (ie_disk e)(d := itd)\<rparr>)"
  using assms unfolding env_inv_def by auto

lemma not_pooled:
  "VMem a \<notin># env_refs e \<Longrightarrow> a \<notin> snd ` set (ie_memPool e)" "VDisk d \<notin># env_refs e \<Longrightarrow> d \<notin> set (ie_diskPool e)"
  using pooled(1) pooled(2) by fastforce+

lemma env_inv_pin:
  assumes "env_inv M D H Q S e" "it \<notin># env_refs e" "it \<in> VMem ` M \<union> VDisk ` D"
  shows "env_inv M D (add_mset it H) Q S (env_pin it e)"
proof (cases it)
  case (VMem a)
  have a: "a \<in> M" "a \<notin> snd ` set (ie_memPool e)" using assms(2,3) VMem not_pooled(1) by auto
  have "env_inv (insert a M) D (add_mset it H) Q S (env_pin it e)"
    unfolding VMem env_pin_def item_ref.case
    by (rule env_inv_mem [OF assms(1) a(2)]) (use assms(1) a VMem in \<open>simp_all add: env_inv_def\<close>)
  then show ?thesis using a by (simp add: insert_absorb)
next
  case (VDisk d)
  have d: "d \<in> D" "d \<notin> set (ie_diskPool e)" using assms(2,3) VDisk not_pooled(2) by auto
  have "env_inv M (insert d D) (add_mset it H) Q S (env_pin it e)"
    unfolding VDisk env_pin_def item_ref.case
    by (rule env_inv_disk [OF assms(1) d(2)]) (use assms(1) d VDisk in \<open>simp_all add: env_inv_def\<close>)
  then show ?thesis using d by (simp add: insert_absorb)
qed

lemma env_inv_Done:
  assumes "env_inv M D H Q S e" "it \<in># H" "it \<in> VMem ` M \<union> VDisk ` D"
  shows "env_inv M D (H - {#it#}) Q S (env_Done it e)"
proof -
  have n: "int (count (H - {#it#}) it) = int (count H it) - 1" "0 < count H it"
    using assms(2) by (simp_all add: of_nat_diff Suc_le_eq)
  show ?thesis
  proof (cases it)
    case (VMem a)
    have a: "a \<in> M" using assms(3) VMem by auto
    then have u: "im_inUse (ie_mem e a) = int (count H it)" using assms(1) VMem by (simp add: env_inv_def)
    then have "\<not> blank (ie_mem e a)" using n(2) by (simp add: blank_def)
    then have "a \<notin> snd ` set (ie_memPool e)" using assms(1) by (auto simp: env_inv_def)
    then have "env_inv (insert a M) D (H - {#it#}) Q S (env_Done it e)"
      unfolding VMem env_Done_def item_ref.case
      by (rule env_inv_mem [OF assms(1)])
        (use assms(1) n u VMem in \<open>simp_all add: env_inv_def, simp_all add: itemMem_Done_def\<close>)
    then show ?thesis using a by (simp add: insert_absorb)
  next
    case (VDisk d)
    have d: "d \<in> D" using assms(3) VDisk by auto
    then have u: "id_inUse (ie_disk e d) = int (count H it)" using assms(1) VDisk by (simp add: env_inv_def)
    then have "d \<notin> set (ie_diskPool e)" using assms(1,2) by (auto simp: env_inv_def count_eq_zero_iff)
    then have "env_inv M (insert d D) (H - {#it#}) Q S (env_Done it e)"
      unfolding VDisk env_Done_def item_ref.case
      by (rule env_inv_disk [OF assms(1)]) (use n u VDisk in \<open>simp_all add: itemDisk_Done_def\<close>)
    then show ?thesis using d by (simp add: insert_absorb)
  qed
qed

lemma run_inv_get:
  assumes "run_inv r" "lsm_Get now k (rn_cache r) = Some (Inr (it, x), s)"
  shows "run_inv (r\<lparr>rn_cache := s, rn_held := add_mset it (rn_held r)\<rparr>)"
proof -
  note i = run_invD [OF assms(1)]
  let ?m = "ls_mem (rn_cache r)"
  have look: "lsm_lookup now k (rn_cache r) = Some (Some (it, x))" and s: "s = lsm_pin it (rn_cache r)"
    using assms(2) by (auto simp: lsm_Get_def split: option.splits prod.splits)
  have v: "it \<in># kv_vals ?m" using lsm_found [OF i(1) look] by simp
  have known: "it \<in> VMem ` rn_mems r \<union> VDisk ` rn_disks r"
    using v mem_invD(4) [OF i(1)] by (auto simp: mem_refs_def)
  have "mem_inv (rn_mems r) (rn_disks r) (add_mset it (rn_held r)) (queued (rn_cache r)) (rn_stored r)
      (ls_files (rn_cache r)) (rn_filling r) (?m\<lparr>env := env_pin it (env ?m)\<rparr>)"
    by (rule mem_inv_env [OF i(1)])
      (use mem_invD(3,4) [OF i(1)] owner_unique(1) [OF i(1,3) v] known
        env_inv_pin [OF mem_invD(6) [OF i(1)]] in \<open>simp_all add: mem_refs_def del: One_nat_def count_union\<close>)
  then show ?thesis using i known
    by (simp add: run_inv_def s lsm_pin_def)
qed

lemma run_inv_done:
  assumes "run_inv r" "it \<in># rn_held r"
  shows "run_inv (r\<lparr>rn_cache := lsm_Done it (rn_cache r), rn_held := rn_held r - {#it#}\<rparr>)"
proof -
  note i = run_invD [OF assms(1)]
  let ?m = "ls_mem (rn_cache r)"
  have known: "it \<in> VMem ` rn_mems r \<union> VDisk ` rn_disks r" using i(4) assms(2) by blast
  have "mem_inv (rn_mems r) (rn_disks r) (rn_held r - {#it#}) (queued (rn_cache r)) (rn_stored r)
      (ls_files (rn_cache r)) (rn_filling r) (?m\<lparr>env := env_Done it (env ?m)\<rparr>)"
    by (rule mem_inv_env [OF i(1)])
      (use mem_invD(3,4) [OF i(1)] env_inv_Done [OF mem_invD(6) [OF i(1)] assms(2) known]
        in \<open>simp_all add: mem_refs_def del: One_nat_def count_union\<close>)
  moreover have "set_mset (rn_held r - {#it#}) \<subseteq> VMem ` rn_mems r \<union> VDisk ` rn_disks r"
    using i(4) by (meson in_diffD subset_iff)
  ultimately show ?thesis using i
    by (simp add: run_inv_def lsm_Done_def)
qed

lemma run_inv_delete: "run_inv r \<Longrightarrow> run_inv (r\<lparr>rn_cache := lsm_Delete k (rn_cache r)\<rparr>)"
  unfolding lsm_Delete_def by (rule run_inv_mem) (simp_all add: mem_inv_RemoveByKey)

text \<open>A new item comes from a pool, or from nowhere.\<close>

lemma lsm_NewItem_cases:
  assumes "lsm_NewItem a l s = Some s1"
  obtains itm where "s1 = s\<lparr>ls_mem := (ls_mem s)\<lparr>env := (env (ls_mem s))\<lparr>
      ie_mem := (ie_mem (env (ls_mem s)))(a := itm),
      ie_memPool := remove1 (pool_of l, a) (ie_memPool (env (ls_mem s)))\<rparr>\<rparr>\<rparr>"
    "if (pool_of l, a) \<in> set (ie_memPool (env (ls_mem s))) then itm = ie_mem (env (ls_mem s)) a
     else blank itm"
proof -
  have "blank (new_itemMem n)" for n
    unfolding blank_def by (simp only: im_ok_new) (simp add: new_itemMem_def im_content_def gmake_def)
  then show thesis using assms that
    by (auto simp: lsm_NewItem_def getItemLen_def pool_of_def [symmetric] Let_def split: option.splits if_splits)
qed

lemma refs_remove1_pool:
  assumes "(i, a) \<in> set (ie_memPool e)"
  shows "env_refs e = add_mset (VMem a) (env_refs (e\<lparr>ie_mem := mm, ie_memPool := remove1 (i, a) (ie_memPool e)\<rparr>))"
proof -
  have "image_mset (\<lambda>(i, a). VMem a) (mset (ie_memPool e))
      = image_mset (\<lambda>(i, a). VMem a) (add_mset (i, a) (mset (remove1 (i, a) (ie_memPool e))))"
    using assms by simp
  also have "\<dots> = add_mset (VMem a) (image_mset (\<lambda>(i, a). VMem a) (mset (remove1 (i, a) (ie_memPool e))))"
    by (simp only: image_mset_add_mset prod.case)
  finally show ?thesis unfolding env_refs_def by simp
qed

lemma run_inv_new:
  assumes "run_inv r" "lsm_NewItem a l (rn_cache r) = Some s"
    and src: "a \<notin> rn_mems r \<or> (pool_of l, a) \<in> set (ie_memPool (env (ls_mem (rn_cache r))))"
    and q: "a \<notin> queued (rn_cache r)"
  shows "run_inv (r\<lparr>rn_cache := s, rn_mems := insert a (rn_mems r), rn_filling := insert a (rn_filling r)\<rparr>)"
proof -
  note i = run_invD [OF assms(1)]
  let ?m = "ls_mem (rn_cache r)" and ?F = "rn_filling r" and ?H = "rn_held r"
  let ?pool = "remove1 (pool_of l, a) (ie_memPool (env ?m))"
  obtain itm where s: "s = (rn_cache r)\<lparr>ls_mem := ?m\<lparr>env := (env ?m)\<lparr>
      ie_mem := (ie_mem (env ?m))(a := itm), ie_memPool := ?pool\<rparr>\<rparr>\<rparr>"
    and itm: "if (pool_of l, a) \<in> set (ie_memPool (env ?m)) then itm = ie_mem (env ?m) a else blank itm"
    using lsm_NewItem_cases [OF assms(2)] by blast
  define e where "e = (env ?m)\<lparr>ie_mem := (ie_mem (env ?m))(a := itm), ie_memPool := ?pool\<rparr>"
  note I = mem_invD [OF i(1)]
  have blank: "blank itm" using itm I(6) by (auto simp: env_inv_def split: if_splits)
  have T: "count (kv_vals ?m + env_refs e + image_mset VMem (mset_set (insert a ?F))) x \<le> 1 \<and>
      VMem a \<notin># kv_vals ?m + env_refs e \<and> a \<notin> ?F \<and> count ?H (VMem a) = 0" for x
  proof (cases "(pool_of l, a) \<in> set (ie_memPool (env ?m))")
    case True
    note R = refs_remove1_pool [OF True, of "(ie_mem (env ?m))(a := itm)", folded e_def]
    have "VMem a \<in># env_refs (env ?m)" using R by simp
    then have F: "a \<notin> ?F" and M: "a \<in> rn_mems r"
      using owner_unique(3) [OF i(1,3)] I(4) by (auto simp: mem_refs_def)
    have "itm = ie_mem (env ?m) a" using itm True by simp
    then have "count ?H (VMem a) = 0" using I(6) M blank by (simp add: env_inv_def blank_def)
    moreover have "kv_vals ?m + env_refs e + image_mset VMem (mset_set (insert a ?F)) = mem_refs ?m ?F"
      using F i(3) by (simp add: mem_refs_def R)
    moreover have "VMem a \<notin># kv_vals ?m + env_refs e"
      using I(3) [of "VMem a"] unfolding mem_refs_def R by (simp add: not_in_iff)
    ultimately show ?thesis using I(3) [of x] F by simp
  next
    case False
    then have M: "a \<notin> rn_mems r" using src by blast
    then have no: "VMem a \<notin># mem_refs ?m ?F" "count ?H (VMem a) = 0"
      using I(4) i(4) by (auto simp: count_eq_zero_iff)
    have R: "env_refs e = env_refs (env ?m)" using False by (simp add: e_def env_refs_def remove1_idem)
    have F: "a \<notin> ?F" using no(1) i(3) by (auto simp: mem_refs_def)
    have "count (mem_refs ?m ?F) (VMem a) = 0" using no(1) by (simp add: count_eq_zero_iff)
    then have "count (add_mset (VMem a) (mem_refs ?m ?F)) x \<le> 1" using I(3) [of x] by (cases "x = VMem a") simp_all
    then show ?thesis using no F i(3) by (simp add: mem_refs_def R)
  qed
  have sub: "set_mset (env_refs e) \<subseteq> set_mset (env_refs (env ?m))"
    using set_remove1_subset [of "(pool_of l, a)" "ie_memPool (env ?m)"] by (auto simp: env_refs_def e_def simp del: mset_remove1)
  have out: "a \<notin> snd ` set ?pool"
    using not_pooled(1) [of a e] T by (simp add: e_def)
  have "env_inv (rn_mems r) (rn_disks r) ?H (queued (rn_cache r)) (rn_stored r) ((env ?m)\<lparr>ie_memPool := ?pool\<rparr>)"
    using I(6) set_remove1_subset [of "(pool_of l, a)" "ie_memPool (env ?m)"] by (auto simp: env_inv_def)
  then have "env_inv (insert a (rn_mems r)) (rn_disks r) ?H (queued (rn_cache r)) (rn_stored r)
      ((env ?m)\<lparr>ie_memPool := ?pool, ie_mem := (ie_mem ((env ?m)\<lparr>ie_memPool := ?pool\<rparr>))(a := itm)\<rparr>)"
    by (rule env_inv_mem) (use out T blank q in \<open>simp_all add: blank_def\<close>)
  moreover have "e = (env ?m)\<lparr>ie_memPool := ?pool, ie_mem := (ie_mem ((env ?m)\<lparr>ie_memPool := ?pool\<rparr>))(a := itm)\<rparr>"
    by (cases "env ?m") (simp add: e_def)
  ultimately have E: "env_inv (insert a (rn_mems r)) (rn_disks r) ?H (queued (rn_cache r)) (rn_stored r) e"
    by simp
  have "mem_inv (insert a (rn_mems r)) (rn_disks r) ?H (queued (rn_cache r)) (rn_stored r)
      (ls_files (rn_cache r)) (insert a ?F) (?m\<lparr>env := e\<rparr>)"
  proof (rule mem_inv_env [OF i(1)])
    show "count (kv_vals ?m + env_refs e + image_mset VMem (mset_set (insert a ?F))) x \<le> 1" for x
      using T [of x] by blast
    show "set_mset (kv_vals ?m + env_refs e + image_mset VMem (mset_set (insert a ?F)))
        \<subseteq> VMem ` insert a (rn_mems r) \<union> VDisk ` rn_disks r"
      using I(4) sub i(3) by (auto simp: mem_refs_def)
    show "good_item (rn_stored r) (ls_files (rn_cache r)) e k x"
      if "kv_has ?m k x" "good_item (rn_stored r) (ls_files (rn_cache r)) (env ?m) k x" for k x
    proof -
      have "x \<noteq> VMem a" using kv_has_vals [OF that(1)] T by auto
      then show ?thesis using that(2) by (cases x) (auto simp: good_item_def e_def)
    qed
  qed (rule E)
  then show ?thesis using i q T by (auto simp: run_inv_def s e_def [symmetric])
qed

lemma run_inv_fill:
  assumes "run_inv r" "a \<in> rn_filling r" "im_inUse itm = im_inUse (lsm_item a (rn_cache r))"
  shows "run_inv (r\<lparr>rn_cache := lsm_put_item a itm (rn_cache r)\<rparr>)"
proof -
  note i = run_invD [OF assms(1)]
  note I = mem_invD [OF i(1)]
  let ?m = "ls_mem (rn_cache r)"
  let ?e = "(env ?m)\<lparr>ie_mem := (ie_mem (env ?m))(a := itm)\<rparr>"
  have "VMem a \<in># mem_refs ?m (rn_filling r)" using assms(2) i(3) by (simp add: mem_refs_def)
  then have a: "a \<in> rn_mems r" using I(4) by auto
  have out: "VMem a \<notin># env_refs (env ?m)" "VMem a \<notin># kv_vals ?m" "a \<notin> queued (rn_cache r)"
    using owner_unique(2,3) [OF i(1,3)] assms(2) i(5) by blast+
  have refs: "env_refs ?e = env_refs (env ?m)" by (simp add: env_refs_def)
  have "env_inv (insert a (rn_mems r)) (rn_disks r) (rn_held r) (queued (rn_cache r)) (rn_stored r) ?e"
    by (rule env_inv_mem [OF I(6) not_pooled(1) [OF out(1)]])
      (use assms(3) I(6) a out(3) in \<open>auto simp: env_inv_def lsm_item_def\<close>)
  then have E: "env_inv (rn_mems r) (rn_disks r) (rn_held r) (queued (rn_cache r)) (rn_stored r) ?e"
    using a by (simp add: insert_absorb)
  have G: "good_item (rn_stored r) (ls_files (rn_cache r)) ?e k x"
    if "kv_has ?m k x" "good_item (rn_stored r) (ls_files (rn_cache r)) (env ?m) k x" for k x
  proof -
    have "x \<noteq> VMem a" using kv_has_vals [OF that(1)] out(2) by auto
    then show ?thesis using that(2) by (cases x) (auto simp: good_item_def)
  qed
  have "mem_inv (rn_mems r) (rn_disks r) (rn_held r) (queued (rn_cache r)) (rn_stored r)
      (ls_files (rn_cache r)) (rn_filling r) (?m\<lparr>env := ?e\<rparr>)"
    by (rule mem_inv_env [OF i(1) _ _ G E])
      (use I(3,4) in \<open>simp_all add: mem_refs_def refs del: One_nat_def count_union set_mset_union\<close>)
  then show ?thesis using i by (simp add: run_inv_def lsm_put_item_def)
qed

lemma run_inv_abandon:
  assumes "run_inv r" shows "run_inv (r\<lparr>rn_filling := rn_filling r - {a}\<rparr>)"
proof -
  note i = run_invD [OF assms]
  note I = mem_invD [OF i(1)]
  let ?m = "ls_mem (rn_cache r)"
  have sub: "mem_refs ?m (rn_filling r - {a}) \<subseteq># mem_refs ?m (rn_filling r)"
    unfolding mem_refs_def
    by (intro subset_mset.add_mono subset_mset.order_refl image_mset_subseteq_mono) (simp add: i(3) subset_imp_msubset_mset_set)
  have "count (mem_refs ?m (rn_filling r - {a})) x \<le> 1" for x
    using mset_subset_eq_count [OF sub, of x] I(3) [of x] by linarith
  then show ?thesis using i I set_mset_mono [OF sub] by (auto simp: run_inv_def mem_inv_def)
qed

lemma queued_update: "queued (s\<lparr>ls_ttlCh := AList.update ti ch (ls_ttlCh s)\<rparr>) \<subseteq> set ch \<union> queued s"
  by (auto simp: queued_def update_conv' split: if_splits)

lemma queued_in: "map_of (ls_ttlCh s) ti = Some ch \<Longrightarrow> set ch \<subseteq> queued s"
  by (auto simp: queued_def)

lemma queued_vlog_Set:
  assumes "vlog_Set a ttl s = Some s'"
  shows "queued s' \<subseteq> insert a (queued s) \<and> ls_mem s' = ls_mem s \<and> ls_files s' = ls_files s \<and>
    (\<forall>ti w. reader_file s' ti w \<longrightarrow> reader_file s ti w)"
proof (cases "map_of (ls_ttlCh s) (f64_to_int (Seconds ttl))")
  case None
  then have s': "s' = s\<lparr>ls_ttlCh := AList.update (f64_to_int (Seconds ttl)) [a] (ls_ttlCh s)\<rparr>
      \<lparr>ls_reader := AList.update (f64_to_int (Seconds ttl)) (ttl, None) (ls_reader s)\<rparr>"
    using assms by (simp add: vlog_Set_def Let_def)
  show ?thesis using queued_update [of "f64_to_int (Seconds ttl)" "[a]" s]
    unfolding s' run_frame_simps by (auto simp: reader_file_def update_conv' split: if_splits)
next
  case (Some ch)
  then have s': "s' = s\<lparr>ls_ttlCh := AList.update (f64_to_int (Seconds ttl)) (ch @ [a]) (ls_ttlCh s)\<rparr>"
    using assms by (auto simp: vlog_Set_def Let_def split: if_splits)
  show ?thesis using queued_update [of "f64_to_int (Seconds ttl)" "ch @ [a]" s] queued_in [OF Some]
    unfolding s' by (auto simp: reader_file_def)
qed

lemma run_inv_store:
  assumes "run_inv r" "a \<in> rn_filling r" "lsm_item a (rn_cache r) = itm" "im_ok itm"
    and "length (im_content itm) < 2 ^ 63"
    and "entryPool_Get (entryPool (ls_mem (rn_cache r))) (fresh (ls_mem (rn_cache r))) cell"
    and "lsm_Set now cell key a ttl (rn_cache r) = Some s"
  shows "run_inv (r\<lparr>rn_cache := s, rn_filling := rn_filling r - {a},
    rn_stored := insert (im_Key itm, im_StatusCode itm, im_content itm) (rn_stored r)\<rparr>)"
proof -
  note i = run_invD [OF assms(1)]
  note I = mem_invD [OF i(1)]
  let ?m = "ls_mem (rn_cache r)" and ?e = "env (ls_mem (rn_cache r))" and ?F = "rn_filling r - {a}"
  let ?S = "insert (im_Key itm, im_StatusCode itm, im_content itm) (rn_stored r)"
  let ?m' = "kv_Set now cell (im_Key itm) (Some (VMem a)) ttl ?m"
  have itm: "ie_mem ?e a = itm" using assms(3) by (simp add: lsm_item_def)
  have s1: "lsm_mem_Set now cell a ttl (rn_cache r) = (rn_cache r)\<lparr>ls_mem := ?m'\<rparr>"
    by (simp add: lsm_mem_Set_def itm)
  have s: "ls_mem s = ?m' \<and> ls_files s = ls_files (rn_cache r) \<and> queued s \<subseteq> insert a (queued (rn_cache r)) \<and> files_inv s"
  proof (cases "ttl > ls_MinLSMTTL (rn_cache r)")
    case True
    then have v: "vlog_Set a ttl ((rn_cache r)\<lparr>ls_mem := ?m'\<rparr>) = Some s"
      using assms(7) by (simp add: lsm_Set_def s1)
    show ?thesis using queued_vlog_Set [OF v] files_inv_readers [OF i(2), of s] by simp
  next
    case False
    then have "s = (rn_cache r)\<lparr>ls_mem := ?m'\<rparr>" using assms(7) by (simp add: lsm_Set_def s1)
    then show ?thesis using i(2) by auto
  qed
  have am: "a \<in> rn_mems r" using I(4) assms(2) i(3) by (auto simp: mem_refs_def)
  have new: "good_mem ?S (im_Key itm) itm" using assms(4,5) by (simp add: good_mem_def known_def)
  have mono: "rn_stored r \<subseteq> ?S" by blast
  note set = kv_vals_Set [OF I(1) assms(6), where now = now and k = "im_Key itm" and v = "Some (VMem a)" and ttl = ttl]
  have F: "mset_set (rn_filling r) = add_mset a (mset_set ?F)"
    using assms(2) i(3) by (metis mset_set.remove)
  have refs: "kv_vals ?m + {#VMem a#} + env_refs ?e + image_mset VMem (mset_set ?F) = mem_refs ?m (rn_filling r)"
    by (simp add: mem_refs_def F ac_simps)
  have "env ?m' = lsm_onEvict None ?e" "onEvicted ?m' = Some lsm_onEvict"
    using I(2) by (simp_all add: evict_none kv_Set_def Let_def)
  moreover have E: "env_inv (rn_mems r) (rn_disks r) (rn_held r) (queued s) ?S ?e"
    unfolding env_inv_def
  proof (intro conjI)
    show "\<forall>b\<in>queued s. good_mem ?S (im_Key (ie_mem ?e b)) (ie_mem ?e b)"
    proof
      fix b
      assume "b \<in> queued s"
      then have "b = a \<or> b \<in> queued (rn_cache r)" using s by blast
      then show "good_mem ?S (im_Key (ie_mem ?e b)) (ie_mem ?e b)"
        using I(6) itm new good_mem_mono [OF _ mono] by (auto simp: env_inv_def)
    qed
  qed (use I(6) in \<open>auto simp: env_inv_def\<close>)
  moreover have "good_item ?S (ls_files s) ?e k x" if "kv_has ?m' k x" for k x
  proof -
    have "kv_has ?m k x \<or> (k = im_Key itm \<and> x = VMem a)" using set(2) [OF that] by auto
    then show ?thesis
    proof
      assume "kv_has ?m k x"
      from I(5) [OF this] show ?thesis
        using good_mem_mono [OF _ mono] good_disk_mono [OF _ mono] s by (cases x) (simp_all add: good_item_def)
    qed (use new itm in \<open>simp add: good_item_def\<close>)
  qed
  ultimately have "mem_inv (rn_mems r) (rn_disks r) (rn_held r) (queued s) ?S (ls_files s) ?F ?m'"
    by (intro mem_inv_move [OF kv_inv_Set [OF I(1) assms(6)], where V = "kv_vals ?m + {#VMem a#}" and old = None and e = ?e])
      (use I(3,4) set(1) in \<open>simp_all only: refs, simp_all\<close>)
  then show ?thesis using i s am by (auto simp: run_inv_def)
qed

section \<open>The background keeps the invariant\<close>

lemma run_inv_retry:
  assumes "run_inv r" shows "run_inv (r\<lparr>rn_cache := fst (lsm_retryEviction (rn_cache r))\<rparr>)"
proof (cases "ie_retryCh (env (ls_mem (rn_cache r)))")
  case Nil
  then show ?thesis using assms by (simp add: lsm_retryEviction_def)
next
  case (Cons x xs)
  note i = run_invD [OF assms]
  let ?m = "ls_mem (rn_cache r)"
  let ?e1 = "(env ?m)\<lparr>ie_retryCh := xs\<rparr>"
  let ?m' = "?m\<lparr>env := lsm_onEvict (Some x) ?e1\<rparr>"
  note I = mem_invD [OF i(1)]
  have s: "fst (lsm_retryEviction (rn_cache r)) = (rn_cache r)\<lparr>ls_mem := ?m'\<rparr>"
    by (simp add: lsm_retryEviction_def Cons lsm_onEvict_def split: prod.split)
  have refs: "add_mset x (env_refs ?e1) = env_refs (env ?m)" by (simp add: env_refs_def Cons)
  have E: "env_inv (rn_mems r) (rn_disks r) (rn_held r) (queued (rn_cache r)) (rn_stored r) ?e1"
    using I(6) by (auto simp: env_inv_def)
  have sub: "env_refs (env ?m') \<subseteq># env_refs (env ?m)" using evict_refs [of "Some x" ?e1] refs by simp
  have sub': "kv_vals ?m + env_refs (env ?m') + image_mset VMem (mset_set (rn_filling r))
      \<subseteq># mem_refs ?m (rn_filling r)"
    unfolding mem_refs_def by (intro subset_mset.add_mono subset_mset.order_refl sub)
  have G: "good_item (rn_stored r) (ls_files (rn_cache r)) (lsm_onEvict (Some x) ?e1) k y"
    if "kv_has ?m k y" "good_item (rn_stored r) (ls_files (rn_cache r)) (env ?m) k y" for k y
  proof -
    have "x \<in># env_refs (env ?m)" using refs by (metis union_single_eq_member)
    then have "y \<noteq> x" using owner_unique(1) [OF i(1,3) kv_has_vals [OF that(1)]] by blast
    then show ?thesis using that(2) good_item_evict [of "Some x" y] by (cases y) (simp_all add: good_item_def)
  qed
  have "count (kv_vals ?m + env_refs (lsm_onEvict (Some x) ?e1) + image_mset VMem (mset_set (rn_filling r))) y \<le> 1" for y
    using mset_subset_eq_count [OF sub', of y] I(3) [of y] by simp
  moreover have "set_mset (kv_vals ?m + env_refs (lsm_onEvict (Some x) ?e1) + image_mset VMem (mset_set (rn_filling r)))
      \<subseteq> VMem ` rn_mems r \<union> VDisk ` rn_disks r"
    using subset_trans [OF set_mset_mono [OF sub'] I(4)] by simp
  ultimately have "mem_inv (rn_mems r) (rn_disks r) (rn_held r) (queued (rn_cache r)) (rn_stored r)
      (ls_files (rn_cache r)) (rn_filling r) ?m'"
    by (rule mem_inv_env [OF i(1) _ _ G env_inv_evict [OF E]])
  then show ?thesis using i by (simp add: run_inv_def s)
qed

text \<open>Changes to the files, under which good items on disk stay good.\<close>

lemma mem_inv_files:
  assumes "mem_inv M D H Q S st F m"
    and "\<And>k itd. good_disk S st k itd \<Longrightarrow> good_disk S st' k itd"
  shows "mem_inv M D H Q S st' F m"
proof -
  have "good_item S st' e k x" if "good_item S st e k x" for e k x
    using that assms(2) by (cases x) (simp_all add: good_item_def)
  then show ?thesis using assms(1) unfolding mem_inv_def by blast
qed

lemma id_same_files:
  assumes "\<And>a. id_VFile itd = Some a \<Longrightarrow> fs' a = fs a"
  shows "id_ready fs' itd = id_ready fs itd" "id_body fs' itd = id_body fs itd"
  using assms by (auto simp: id_ready_def id_body_def split: option.splits)

lemma run_inv_wake:
  assumes "run_inv r"
  shows "run_inv (r\<lparr>rn_cache := (rn_cache r)\<lparr>ls_files := fl_wake now (ls_files (rn_cache r))\<rparr>\<rparr>)"
proof -
  note i = run_invD [OF assms]
  let ?st = "ls_files (rn_cache r)"
  define due where "due = fst ` set (filter (\<lambda>(a, t). t \<le> now) (fl_closing ?st))"
  have fs: "fl_fs (fl_wake now ?st) = (\<lambda>a. if a \<in> due then vf_Close (fl_fs ?st a) else fl_fs ?st a)"
    "fl_next (fl_wake now ?st) = fl_next ?st"
    "fl_closing (fl_wake now ?st) = filter (\<lambda>(a, t). \<not> t \<le> now) (fl_closing ?st)"
    by (simp_all add: fl_wake_def Let_def due_def)
  have cl: "\<not> vf_r (vf_Close vf)" for vf by (simp add: vf_Close_def vf_CloseReader_def Let_def)
  have "good_disk (rn_stored r) (fl_wake now ?st) k itd" if g: "good_disk (rn_stored r) ?st k itd" for k itd
  proof -
    obtain w where w: "id_VFile itd = Some w" "w < fl_next ?st" using g by (rule good_diskE)
    show ?thesis
    proof (cases "w \<in> due")
      case True
      then show ?thesis using that w by (simp add: good_disk_def fs cl)
    next
      case False
      then have "id_ready (fl_fs (fl_wake now ?st)) itd = id_ready (fl_fs ?st) itd"
        "id_body (fl_fs (fl_wake now ?st)) itd = id_body (fl_fs ?st) itd"
        using w(1) by (auto intro!: id_same_files simp: fs)
      then show ?thesis using that w False by (simp add: good_disk_def fs)
    qed
  qed
  then have "mem_inv (rn_mems r) (rn_disks r) (rn_held r) (queued (rn_cache r)) (rn_stored r)
      (fl_wake now ?st) (rn_filling r) (ls_mem (rn_cache r))"
    by (rule mem_inv_files [OF i(1)])
  moreover have "files_inv ((rn_cache r)\<lparr>ls_files := fl_wake now ?st\<rparr>)"
  proof -
    note D = files_invD [OF i(2)]
    have sub: "closing (fl_wake now ?st) \<subseteq> closing ?st" "due \<subseteq> closing ?st"
      by (auto simp: due_def fs(3) closing_def)
    have ok: "fl_ok w (fl_wake now ?st)" if "fl_ok w ?st" "w \<notin> closing ?st" for w
    proof -
      have "w \<notin> due" using that(2) sub(2) by blast
      then show ?thesis using that(1) by (simp add: fl_ok_def fs)
    qed
    have 1: "c < fl_next (fl_wake now ?st)" if "c \<in> closing (fl_wake now ?st)" for c
      using that sub(1) D(1) fs(2) by auto
    have 2: "fl_ok w (fl_wake now ?st) \<and> w \<notin> closing (fl_wake now ?st)"
      if "reader_file (rn_cache r) ti w" for ti w
      using ok [OF D(2,3) [OF that]] D(3) [OF that] sub(1) by blast
    show ?thesis by (rule files_invI) (use 1 2 D(5) in simp_all)
  qed
  ultimately show ?thesis using i by (simp add: run_inv_def)
qed

lemma run_inv_reload: "run_inv r \<Longrightarrow> run_inv (r\<lparr>rn_cache := lsm_Reload minTTL (rn_cache r)\<rparr>)"
  by (simp add: run_inv_def lsm_Reload_def)

lemma run_inv_reader_start:
  assumes "run_inv r" "lsm_reader_start (True, True) now ti (rn_cache r) = Some s"
  shows "run_inv (r\<lparr>rn_cache := s\<rparr>)"
proof (cases "\<exists>ttl. map_of (ls_reader (rn_cache r)) ti = Some (ttl, None)")
  case False
  then have "s = rn_cache r" using assms(2) by (auto simp: lsm_reader_start_def split: option.splits prod.splits)
  then show ?thesis using assms(1) by simp
next
  case True
  note i = run_invD [OF assms(1)]
  let ?st = "ls_files (rn_cache r)"
  obtain ttl where ttl: "map_of (ls_reader (rn_cache r)) ti = Some (ttl, None)" using True by blast
  obtain vf where vf: "VFileNew True True now ttl (fl_no ?st) = Some (vf, fl_no ?st + 1)"
    "vf_w vf" "vf_r vf" "vf_ok vf" "vf_autoExpire vf = 0"
    by (simp add: VFileNew_def vf_ok_def)
  define st' where "st' = ?st\<lparr>fl_fs := (fl_fs ?st)(fl_next ?st := vf), fl_next := fl_next ?st + 1, fl_no := fl_no ?st + 1\<rparr>"
  have s: "s = (rn_cache r)\<lparr>ls_files := st', ls_reader := AList.update ti (ttl, Some (fl_next ?st)) (ls_reader (rn_cache r))\<rparr>"
    using assms(2) ttl vf(1) by (simp add: lsm_reader_start_def fl_new_def st'_def)
  have "good_disk (rn_stored r) st' k itd" if g: "good_disk (rn_stored r) ?st k itd" for k itd
  proof -
    obtain w where w: "id_VFile itd = Some w" "w < fl_next ?st" using g by (rule good_diskE)
    then have "id_ready (fl_fs st') itd = id_ready (fl_fs ?st) itd" "id_body (fl_fs st') itd = id_body (fl_fs ?st) itd"
      by (auto intro!: id_same_files simp: st'_def)
    then show ?thesis using that w by (simp add: good_disk_def) (simp add: st'_def)
  qed
  then have m: "mem_inv (rn_mems r) (rn_disks r) (rn_held r) (queued (rn_cache r)) (rn_stored r)
      st' (rn_filling r) (ls_mem (rn_cache r))" by (rule mem_inv_files [OF i(1)])
  have "fl_ok (fl_next ?st) st'" using vf by (simp add: fl_ok_def st'_def)
  moreover have "closing st' = closing ?st" "fl_next st' = fl_next ?st + 1"
    "\<And>a. a < fl_next ?st \<Longrightarrow> fl_fs st' a = fl_fs ?st a" by (simp_all add: st'_def closing_def)
  moreover have "reader_file s tj w \<longleftrightarrow> (if tj = ti then w = fl_next ?st else reader_file (rn_cache r) tj w)" for tj w
    by (auto simp: reader_file_def s update_conv')
  ultimately have "files_inv s"
    by (intro files_inv_reader [OF i(2), where ti = ti and w' = "fl_next ?st"]) (simp_all add: s)
  then show ?thesis using i m by (simp add: run_inv_def s queued_def)
qed

end
