(* ===== verification/LSM_Queue_Props.thy ===== *)
theory LSM_Queue_Props
  imports LSM_Run
begin

text \<open>
  What the readers of the channels do to items that are no longer the ones of their keys. The
  channel holds the items themselves, not what was in them at the time of the store, and the
  reader asks neither whether the item is still stored nor whether it has been recycled.
\<close>

text \<open>A turn that writes its record hands a readable item with the content over.\<close>

lemma reader_turn_writes:
  assumes "map_of (ls_reader s) ti = Some (ttl, Some w)" "map_of (ls_ttlCh s) ti = Some (a # rest)"
    and "fl_ok w (ls_files s)" "i = lsm_item a s" "im_ok i" "length (im_content i) < 2 ^ 63" "try_good e1"
  obtains itd w' st' where
    "lsm_reader_turn (e1, e2, e3) (True, True) (True, True) now cell d ti s =
      (case lsm_afterWrite now cell d itd ttl ((ls_mem s)\<lparr>env := env_take_disk d (env (ls_mem s))\<rparr>) of
         None \<Rightarrow> None
       | Some m \<Rightarrow> Some (s\<lparr>ls_files := st', ls_ttlCh := AList.update ti rest (ls_ttlCh s),
           ls_reader := AList.update ti (ttl, Some w') (ls_reader s), ls_mem := m\<rparr>))"
    "id_ready (fl_fs st') itd" "id_body (fl_fs st') itd = im_content i" "id_Key itd = im_Key i"
    "id_StatusCode itd = im_StatusCode i"
proof -
  obtain itd w' st' where r: "vl_reader_turn (e1, e2, e3) (True, True) (True, True) now ttl i w
      (ls_files s) = Some (Some itd, w', st')" "id_ready (fl_fs st') itd"
    "id_body (fl_fs st') itd = im_content i" "id_Key itd = im_Key i" "id_StatusCode itd = im_StatusCode i"
    using vl_reader_turn_good [OF assms(3,5,6), of "[]" e1 e2 e3 e1 "[e2, e3]" now ttl] assms(7) by auto
  show thesis
    by (rule that [OF _ r(2-5)])
      (use r(1) assms(1,2,4) in \<open>simp add: lsm_reader_turn_def lsm_item_def Let_def\<close>)
qed

text \<open>
  C23. When a response was stored again under its key while the older one waited in the channel
  of its TTL, the turn of the reader puts the older one back: the key leads to the older
  response, on disk, with the expiry of the newer one; the newer item, which nobody was
  reading, is emptied and put into a pool while it still waits in the channel.
\<close>

theorem vlog_older_replaces_newer:
  assumes "kv_inv (ls_mem s)" "onEvicted (ls_mem s) = Some lsm_onEvict"
    and "map_of (ls_reader s) ti = Some (ttl, Some w)" "map_of (ls_ttlCh s) ti = Some (a # rest)"
    and "fl_ok w (ls_files s)" "old = lsm_item a s" "im_ok old" "length (im_content old) < 2 ^ 63" "try_good e1"
    and "lsm_lookup t0 (im_Key old) s = Some (Some (VMem b, x0))" "b \<in> set rest" "im_inUse (lsm_item b s) = 0"
  shows "\<exists>s'. lsm_reader_turn (e1, e2, e3) (True, True) (True, True) now cell d ti s = Some s' \<and>
    (\<forall>t x. lsm_lookup t (im_Key old) s = Some (Some (VMem b, x)) \<longrightarrow>
       lsm_lookup t (im_Key old) s' = Some (Some (VDisk d, x))) \<and>
    id_body (fl_fs (ls_files s')) (ie_disk (env (ls_mem s')) d) = im_content old \<and>
    blank (lsm_item b s') \<and> b \<in> queued s' \<and>
    (int (gcap (im_Data (lsm_item b s))) \<le> itemMemMaxSize \<longrightarrow> b \<in> snd ` set (ie_memPool (env (ls_mem s'))))"
proof -
  obtain itd w' st' where turn: "lsm_reader_turn (e1, e2, e3) (True, True) (True, True) now cell d ti s =
      (case lsm_afterWrite now cell d itd ttl ((ls_mem s)\<lparr>env := env_take_disk d (env (ls_mem s))\<rparr>) of
         None \<Rightarrow> None
       | Some m \<Rightarrow> Some (s\<lparr>ls_files := st', ls_ttlCh := AList.update ti rest (ls_ttlCh s),
           ls_reader := AList.update ti (ttl, Some w') (ls_reader s), ls_mem := m\<rparr>))"
    "id_ready (fl_fs st') itd" "id_body (fl_fs st') itd = im_content old" "id_Key itd = im_Key old"
    "id_StatusCode itd = im_StatusCode old"
    by (rule reader_turn_writes [OF assms(3-9)])
  let ?m = "(ls_mem s)\<lparr>env := env_take_disk d (env (ls_mem s))\<rparr>"
  have get0: "kv_Get t0 (id_Key itd) ?m = Some (Some (VMem b), x0, True)"
    using assms(10) turn(4) by (simp add: lsm_lookup_kv kv_Get_env)
  have inv: "kv_inv ?m" "onEvicted ?m = Some lsm_onEvict" using assms(1,2) by simp_all
  obtain m' where m': "lsm_afterWrite now cell d itd ttl ?m = Some m'" "kv_inv m'" "ie_disk (env m') d = itd"
    and hit: "\<forall>t v x. kv_Get t (id_Key itd) ?m = Some (v, x, True) \<longrightarrow>
       kv_Get t (id_Key itd) m' = Some (Some (VDisk d), x, True)"
    by (rule lsm_afterWrite_ok [OF inv get0])
  note ev = lsm_afterWrite_env [OF inv(2) get0 m'(1)]
  define s' where "s' = s\<lparr>ls_files := st', ls_ttlCh := AList.update ti rest (ls_ttlCh s),
    ls_reader := AList.update ti (ttl, Some w') (ls_reader s), ls_mem := m'\<rparr>"
  have 1: "lsm_reader_turn (e1, e2, e3) (True, True) (True, True) now cell d ti s = Some s'"
    using turn(1) m'(1) by (simp add: s'_def)
  have 2: "lsm_lookup t (im_Key old) s' = Some (Some (VDisk d, x))"
    if "lsm_lookup t (im_Key old) s = Some (Some (VMem b, x))" for t x
    using that hit turn(4) by (simp add: lsm_lookup_kv s'_def kv_Get_env)
  have 3: "id_body (fl_fs (ls_files s')) (ie_disk (env (ls_mem s')) d) = im_content old"
    by (simp add: s'_def m'(3) turn(3))
  obtain itm pool where p: "putItemMem (lsm_item b s) = (itm, pool)" by fastforce
  have e: "ie_mem (env m') b = itm \<and> ie_memPool (env m')
      = (case pool of None \<Rightarrow> [] | Some i \<Rightarrow> [(i, b)]) @ ie_memPool (env (ls_mem s))"
    using assms(12) p
    by (simp add: ev lsm_onEvict_def onEvictInternal_def lsm_item_def env_take_disk_def)
  have 4: "blank (lsm_item b s')"
    using e blank_put [of "lsm_item b s"] p by (simp add: s'_def lsm_item_def)
  have 5: "b \<in> queued s'"
    using assms(11) by (auto simp: queued_def s'_def update_conv')
  have 6: "b \<in> snd ` set (ie_memPool (env (ls_mem s')))"
    if "int (gcap (im_Data (lsm_item b s))) \<le> itemMemMaxSize"
    using e putItemMem_parts(8) [OF p that] by (auto simp: s'_def)
  show ?thesis using 1 2 3 4 5 6 by blast
qed

definition demo_twice :: lsm where
  "demo_twice = demo_lsm\<lparr>ls_ttlCh := [(60, [5, 6])], ls_mem :=
     kv_Set 0 1 7 (Some (VMem 6)) (60 * Second) (kv_Set 0 0 7 (Some (VMem 5)) (60 * Second)
       (kv_SetOnEvicted lsm_onEvict (kv_New (demo_env\<lparr>ie_mem :=
         (\<lambda>a. if a = 6 then demo_itemMem\<lparr>im_w := Some [9]\<rparr> else demo_itemMem)\<rparr>))))\<rparr>"

lemma demo_twice:
  "kv_inv (ls_mem demo_twice)" "onEvicted (ls_mem demo_twice) = Some lsm_onEvict"
  "lsm_lookup t 7 demo_twice = Some (Some (VMem 6, 60 * Second < t))"
  "lsm_item 5 demo_twice = demo_itemMem" "lsm_item 6 demo_twice = demo_itemMem\<lparr>im_w := Some [9]\<rparr>"
proof -
  show "kv_inv (ls_mem demo_twice)"
  proof -
    have n: "kv_inv (kv_SetOnEvicted lsm_onEvict (kv_New e))" for e
      by (simp add: kv_inv_SetOnEvicted kv_inv_New)
    have "ls_mem demo_twice = kv_Set 0 1 7 (Some (VMem 6)) (60 * Second) (kv_Set 0 0 7 (Some (VMem 5)) (60 * Second)
       (kv_SetOnEvicted lsm_onEvict (kv_New (demo_env\<lparr>ie_mem :=
         (\<lambda>a. if a = 6 then demo_itemMem\<lparr>im_w := Some [9]\<rparr> else demo_itemMem)\<rparr>))))"
      by (simp add: demo_twice_def)
    then show ?thesis using n
      by (auto intro!: kv_inv_Set simp: entryPool_Get_def)
        (simp_all add: kv_SetOnEvicted_def kv_New_def kv_Set_def Let_def)
  qed
  show "lsm_lookup t 7 demo_twice = Some (Some (VMem 6, 60 * Second < t))"
    by (simp add: demo_twice_def lsm_lookup_kv kv_Get_Set)
qed (simp_all add: demo_twice_def lsm_item_def kv_Set_def kv_SetOnEvicted_def kv_New_def Let_def)

theorem vlog_older_replaces_newer_witness:
  "lsm_lookup 1 7 demo_twice = Some (Some (VMem 6, False)) \<and> im_content (lsm_item 6 demo_twice) = [9] \<and>
   (\<exists>s'. lsm_reader_turn (demo_try [], demo_try [], demo_try []) (True, True) (True, True) 0 2 3 60 demo_twice = Some s' \<and>
      lsm_lookup 1 7 s' = Some (Some (VDisk 3, False)) \<and>
      id_body (fl_fs (ls_files s')) (ie_disk (env (ls_mem s')) 3) = [1, 2, 3] \<and> blank (lsm_item 6 s'))"
proof -
  have r: "map_of (ls_reader demo_twice) 60 = Some (60 * Second, Some 7)"
    "map_of (ls_ttlCh demo_twice) 60 = Some (5 # [6])" "fl_ok 7 (ls_files demo_twice)"
    using demo_files by (simp_all add: demo_twice_def demo_lsm_def)
  have i: "im_ok (lsm_item 5 demo_twice)" "length (im_content (lsm_item 5 demo_twice)) < 2 ^ 63"
    "im_Key (lsm_item 5 demo_twice) = 7" "im_inUse (lsm_item 6 demo_twice) = 0"
    using demo_itemMem by (simp_all add: demo_twice(4,5)) (simp_all add: demo_itemMem_def new_itemMem_def)
  have l: "lsm_lookup 1 (im_Key (lsm_item 5 demo_twice)) demo_twice = Some (Some (VMem 6, 60 * Second < 1))"
    by (simp add: i(3) demo_twice(3))
  obtain s' where s': "lsm_reader_turn (demo_try [], demo_try [], demo_try []) (True, True) (True, True) 0 2 3 60 demo_twice = Some s'"
    "\<forall>t x. lsm_lookup t 7 demo_twice = Some (Some (VMem 6, x)) \<longrightarrow> lsm_lookup t 7 s' = Some (Some (VDisk 3, x))"
    "id_body (fl_fs (ls_files s')) (ie_disk (env (ls_mem s')) 3) = im_content (lsm_item 5 demo_twice)"
    "blank (lsm_item 6 s')"
    using vlog_older_replaces_newer [OF demo_twice(1,2) r refl i(1,2) demo_try(1) l _ i(4), unfolded i(3), of "demo_try []" "demo_try []" 0 2 3]
    by auto
  moreover have "im_content (demo_itemMem\<lparr>im_w := Some [9]\<rparr>) = [9]" by (simp add: im_content_def)
  ultimately show ?thesis using demo_twice(3) [of 1] by (auto simp: demo_twice(4,5) demo_itemMem(2) Second_def)
qed

text \<open>
  C24. The reader stores what the item at the head of its channel holds at the time of its turn,
  under the key that it then has: an item that was recycled while it waited and that a client
  is just filling under a key for which nothing is stored is served from then on, complete or
  not, though it was never stored.
\<close>

theorem vlog_stores_unfinished:
  assumes "map_of (ls_reader s) ti = Some (ttl, Some w)" "map_of (ls_ttlCh s) ti = Some (a # rest)"
    and "fl_ok w (ls_files s)" "i = lsm_item a s" "im_ok i" "length (im_content i) < 2 ^ 63" "try_good e1"
    and "items (ls_mem s) (im_Key i) = None"
  shows "\<exists>s'. lsm_reader_turn (e1, e2, e3) (True, True) (True, True) now cell d ti s = Some s' \<and>
    (\<forall>t. lsm_lookup t (im_Key i) s' = Some (Some (VDisk d, now + ttl < t))) \<and>
    item_ready (fl_fs (ls_files s')) (env (ls_mem s')) (VDisk d) \<and>
    item_body (fl_fs (ls_files s')) (env (ls_mem s')) (VDisk d) = im_content i \<and>
    item_GetStatusCode (env (ls_mem s')) (VDisk d) = im_StatusCode i"
proof -
  obtain itd w' st' where turn: "lsm_reader_turn (e1, e2, e3) (True, True) (True, True) now cell d ti s =
      (case lsm_afterWrite now cell d itd ttl ((ls_mem s)\<lparr>env := env_take_disk d (env (ls_mem s))\<rparr>) of
         None \<Rightarrow> None
       | Some m \<Rightarrow> Some (s\<lparr>ls_files := st', ls_ttlCh := AList.update ti rest (ls_ttlCh s),
           ls_reader := AList.update ti (ttl, Some w') (ls_reader s), ls_mem := m\<rparr>))"
    "id_ready (fl_fs st') itd" "id_body (fl_fs st') itd = im_content i" "id_Key itd = im_Key i"
    "id_StatusCode itd = im_StatusCode i"
    by (rule reader_turn_writes [OF assms(1-7)])
  let ?e = "(env_take_disk d (env (ls_mem s)))\<lparr>ie_disk := (ie_disk (env (ls_mem s)))(d := itd)\<rparr>"
  let ?m = "(ls_mem s)\<lparr>env := ?e\<rparr>"
  define m' where "m' = kv_Set now cell (im_Key i) (Some (VDisk d)) ttl ?m"
  have "lsm_afterWrite now cell d itd ttl ((ls_mem s)\<lparr>env := env_take_disk d (env (ls_mem s))\<rparr>) = Some m'"
    using assms(8) turn(4) by (simp add: lsm_afterWrite_def Let_def kv_Swap_def m'_def env_take_disk_def)
  moreover have "ie_disk (env m') d = itd" by (simp add: m'_def kv_Set_def Let_def)
  moreover have "kv_Get t (im_Key i) m' = Some (Some (VDisk d), now + ttl < t, True)" for t
    by (simp add: m'_def kv_Get_Set)
  ultimately show ?thesis using turn
    by (simp add: lsm_lookup_kv item_ref_defs item_GetStatusCode_def itemDisk_GetStatusCode_def)
qed

definition demo_filling :: lsm where
  "demo_filling = demo_lsm\<lparr>ls_ttlCh := [(60, [6])], ls_mem := demo_mem\<lparr>env := demo_env\<lparr>ie_mem :=
     (\<lambda>a. if a = 6 then demo_itemMem\<lparr>im_Key := 9, im_w := Some [4]\<rparr> else demo_itemMem)\<rparr>\<rparr>\<rparr>"

theorem vlog_stores_unfinished_witness:
  "\<exists>s'. lsm_reader_turn (demo_try [], demo_try [], demo_try []) (True, True) (True, True) 0 2 3 60 demo_filling = Some s' \<and>
     lsm_lookup 1 9 s' = Some (Some (VDisk 3, False)) \<and>
     item_body (fl_fs (ls_files s')) (env (ls_mem s')) (VDisk 3) = [4]"
proof -
  have r: "map_of (ls_reader demo_filling) 60 = Some (60 * Second, Some 7)"
    "map_of (ls_ttlCh demo_filling) 60 = Some (6 # [])" "fl_ok 7 (ls_files demo_filling)"
    using demo_files by (simp_all add: demo_filling_def demo_lsm_def)
  let ?i = "demo_itemMem\<lparr>im_Key := 9, im_w := Some [4]\<rparr>"
  have f: "?i = lsm_item 6 demo_filling" by (simp add: demo_filling_def lsm_item_def)
  have i: "im_ok ?i" "length (im_content ?i) < 2 ^ 63" "items (ls_mem demo_filling) (im_Key ?i) = None" "im_content ?i = [4]"
    using demo_itemMem(1)
    by (simp_all add: im_ok_def im_content_def demo_filling_def demo_mem_def kv_Set_def kv_SetOnEvicted_def kv_New_def Let_def)
  show ?thesis
    using vlog_stores_unfinished [OF r f i(1,2) demo_try(1) i(3), of "demo_try []" "demo_try []" 0 2 3] i(4)
    by (auto simp: Second_def)
qed

end
