(* ===== verification/LSM_Start.thy ===== *)
theory LSM_Start
  imports LSM
begin

text \<open>
  How a cache is made from its configuration, and what becomes of the files of earlier runs: the
  directory of the files is emptied before the first file is made.
\<close>

record lsm_config =
  lc_MinLSMTTLString :: string
  lc_MinLSMTTL :: duration
  lc_Dir :: string
  lc_ExtraTTLString :: string
  lc_ExtraTTL :: duration

text \<open>
  \<open>RemoveContents\<close>: the names in the directory, or \<open>None\<close> when it cannot be opened and read; \<open>rm\<close> is
  whether a name can be removed. The first that cannot ends the loop.
\<close>

fun remove_loop :: "(string \<Rightarrow> bool) \<Rightarrow> string list \<Rightarrow> string list \<Rightarrow> bool \<times> string list" where
  "remove_loop rm [] dir = (True, dir)"
| "remove_loop rm (n # ns) dir = (if rm n then remove_loop rm ns (removeAll n dir) else (False, dir))"

definition RemoveContents :: "(string \<Rightarrow> bool) \<Rightarrow> string list option \<Rightarrow> bool \<times> string list option" where
  "RemoveContents rm contents =
     (case contents of
        None \<Rightarrow> (False, None)
      | Some names \<Rightarrow> (case remove_loop rm names names of (ok, left) \<Rightarrow> (ok, Some left)))"

text \<open>The error of \<open>RemoveContents\<close> is ignored.\<close>

definition lsm_start ::
  "(string \<Rightarrow> bool) \<Rightarrow> lsm_config \<Rightarrow> string list option \<Rightarrow> (addr \<Rightarrow> itemMem) \<Rightarrow> vfiles \<Rightarrow> string list option \<times> lsm" where
  "lsm_start rm cfg contents mems fs =
     (snd (RemoveContents rm contents), lsm_New (lc_MinLSMTTL cfg) mems fs)"

lemma remove_loop_left:
  "distinct (ns @ ms) \<Longrightarrow> remove_loop rm ns (ns @ ms) = (list_all rm ns, dropWhile rm ns @ ms)"
proof (induction ns)
  case (Cons n ns)
  then show ?case by (simp add: removeAll_id)
qed simp

text \<open>
  When every name can be removed the directory is empty afterwards; otherwise what is left starts
  with the first that cannot, and the files of earlier runs behind it stay.
\<close>

lemma RemoveContents_left:
  "distinct names \<Longrightarrow> RemoveContents rm (Some names) = (list_all rm names, Some (dropWhile rm names))"
  using remove_loop_left [of names "[]" rm] by (simp add: RemoveContents_def)

end
