(* ===== verification/LSM_Reach.thy ===== *)
theory LSM_Reach
  imports LSM_Run
begin

text \<open>
  The turn of a reader keeps the invariant of the runs, and with it every step and every run do.
\<close>

section \<open>A turn of a reader\<close>

lemma refs_remove1_disk:
  "env_refs e = env_refs (env_take_disk d e) + (if d \<in> set (ie_diskPool e) then {#VDisk d#} else {#})"
proof (cases "d \<in> set (ie_diskPool e)")
  case True
  then have "image_mset VDisk (mset (ie_diskPool e))
      = add_mset (VDisk d) (image_mset VDisk (mset (remove1 d (ie_diskPool e))))"
    by (metis image_mset_add_mset insert_DiffM mset_remove1 set_mset_mset)
  then show ?thesis using True unfolding env_refs_def env_take_disk_def by simp
next
  case False
  then show ?thesis by (simp add: env_refs_def env_take_disk_def remove1_idem)
qed

lemma lsm_afterWrite_cases:
  assumes "kv_inv m" "lsm_afterWrite now cell d itd ttl m = Some m'" "onEvicted m = Some lsm_onEvict"
    and "items m (id_Key itd) = None \<Longrightarrow> entryPool_Get (entryPool m) (fresh m) cell"
  obtains old where "kv_inv m'" "onEvicted m' = Some lsm_onEvict"
    "kv_vals m' + opt_mset old = kv_vals m + {#VDisk d#}"
    "env m' = lsm_onEvict old ((env m)\<lparr>ie_disk := (ie_disk (env m))(d := itd)\<rparr>)"
    "\<And>k x. kv_has m' k x \<Longrightarrow> kv_has m k x \<or> (k = id_Key itd \<and> x = VDisk d)"
proof -
  let ?m1 = "m\<lparr>env := (env m)\<lparr>ie_disk := (ie_disk (env m))(d := itd)\<rparr>\<rparr>"
  have inv: "kv_inv ?m1" using assms(1) by simp
  obtain ok where sw: "kv_Swap now cell (id_Key itd) (Some (VDisk d)) ttl ?m1 = Some (ok, m')"
    using assms(2) by (auto simp: lsm_afterWrite_def Let_def split: option.splits)
  have inv': "kv_inv m'" using kv_inv_Swap [OF inv, of "id_Key itd" cell now "Some (VDisk d)" ttl] assms(4) sw by auto
  show thesis
  proof (cases "items m (id_Key itd)")
    case None
    then have m': "m' = kv_Set now cell (id_Key itd) (Some (VDisk d)) ttl ?m1"
      using sw by (simp add: kv_Swap_def)
    have get: "entryPool_Get (entryPool ?m1) (fresh ?m1) cell" using assms(4) None by simp
    note set = kv_vals_Set [OF inv get, where now = now and k = "id_Key itd" and v = "Some (VDisk d)" and ttl = ttl]
    show thesis
      by (rule that [of None])
        (use inv' set assms(3) in \<open>auto simp: m' evict_none kv_Set_def Let_def\<close>)
  next
    case (Some b)
    then have b: "items ?m1 (id_Key itd) = Some b" by simp
    obtain old where old: "kv_vals m' + opt_mset old = kv_vals ?m1 + opt_mset (Some (VDisk d))"
      "env m' = (case onEvicted ?m1 of None \<Rightarrow> env ?m1 | Some f \<Rightarrow> f old (env ?m1))" "onEvicted m' = onEvicted ?m1"
      "\<And>k' w. kv_has m' k' w \<Longrightarrow> kv_has ?m1 k' w \<or> (k' = id_Key itd \<and> Some (VDisk d) = Some w)"
      using kv_vals_Swap [OF inv b sw] by blast
    show thesis by (rule that [OF inv', of old]) (use old assms(3) in auto)
  qed
qed

lemma mem_inv_afterWrite:
  assumes mi: "mem_inv M D H Q S st F m" and H: "set_mset H \<subseteq> VMem ` M \<union> VDisk ` D" and F: "finite F"
    and d: "d \<notin> D \<or> d \<in> set (ie_diskPool (env m))"
    and good: "good_disk S st (id_Key itd) itd" "id_inUse itd = 0"
    and get: "items m (id_Key itd) = None \<Longrightarrow> entryPool_Get (entryPool m) (fresh m) cell"
    and aw: "lsm_afterWrite now cell d itd ttl (m\<lparr>env := env_take_disk d (env m)\<rparr>) = Some m'"
  shows "mem_inv M (insert d D) H Q S st F m'"
proof -
  note I = mem_invD [OF mi]
  define e where "e = (env_take_disk d (env m))\<lparr>ie_disk := (ie_disk (env m))(d := itd)\<rparr>"
  let ?V = "kv_vals m + {#VDisk d#}" and ?F = "image_mset VMem (mset_set F)"
  have inv: "kv_inv (m\<lparr>env := env_take_disk d (env m)\<rparr>)" using I(1) by simp
  have dk: "ie_disk (env_take_disk d (env m)) = ie_disk (env m)" by (simp add: env_take_disk_def)
  obtain old where old: "kv_inv m'" "onEvicted m' = Some lsm_onEvict" "kv_vals m' + opt_mset old = ?V"
    "env m' = lsm_onEvict old e" "\<And>k x. kv_has m' k x \<Longrightarrow> kv_has m k x \<or> (k = id_Key itd \<and> x = VDisk d)"
    using lsm_afterWrite_cases [OF inv aw] I(2) get unfolding e_def by (auto simp: dk)
  have er: "env_refs e = env_refs (env_take_disk d (env m))" by (simp add: e_def env_refs_def)
  have C: "count (?V + env_refs e + ?F) x \<le> 1 \<and> VDisk d \<notin># kv_vals m + env_refs e \<and> count H (VDisk d) = 0" for x
  proof (cases "d \<in> set (ie_diskPool (env m))")
    case True
    have R: "env_refs (env m) = env_refs e + {#VDisk d#}" using refs_remove1_disk [of "env m" d] True er by simp
    have "mem_refs m F = ?V + env_refs e + ?F" by (simp add: mem_refs_def R)
    moreover have "VDisk d \<notin># kv_vals m + env_refs e"
      using I(3) [of "VDisk d"] unfolding mem_refs_def R by (simp add: not_in_iff)
    moreover have "VDisk d \<in># mem_refs m F" by (simp add: mem_refs_def R)
    then have "d \<in> D" using I(4) by auto
    then have "count H (VDisk d) = 0" using I(6) True by (auto simp: env_inv_def)
    ultimately show ?thesis using I(3) [of x] by simp
  next
    case False
    have R: "env_refs (env m) = env_refs e" using refs_remove1_disk [of "env m" d] False er by simp
    have "d \<notin> D" using d False by blast
    then have no: "VDisk d \<notin># mem_refs m F" "count H (VDisk d) = 0"
      using I(4) H by (auto simp: count_eq_zero_iff)
    then have "count (mem_refs m F) (VDisk d) = 0" by (simp add: count_eq_zero_iff)
    then have "count (add_mset (VDisk d) (mem_refs m F)) x \<le> 1" using I(3) [of x] by (cases "x = VDisk d") simp_all
    then show ?thesis using no by (simp add: mem_refs_def R)
  qed
  have sub: "env_refs e \<subseteq># env_refs (env m)" using refs_remove1_disk [of "env m" d] er by simp
  have E: "env_inv M (insert d D) H Q S e"
  proof -
    have "env_inv M D H Q S (env_take_disk d (env m))"
      using I(6) set_remove1_subset [of d "ie_diskPool (env m)"] by (auto simp: env_inv_def env_take_disk_def)
    then show ?thesis unfolding e_def dk [symmetric]
    proof (rule env_inv_disk)
      show "d \<notin> set (ie_diskPool (env_take_disk d (env m)))"
        using not_pooled(2) [of d e] C by (simp add: e_def)
    qed (use C good(2) in simp_all)
  qed
  show ?thesis
  proof (rule mem_inv_move [OF old(1,2) _ old(4) _ _ _ E])
    show "kv_vals m' + opt_mset old \<subseteq># ?V" using old(3) by simp
    show "count (?V + env_refs e + ?F) x \<le> 1" for x using C [of x] by blast
    show "set_mset (?V + env_refs e + ?F) \<subseteq> VMem ` M \<union> VDisk ` insert d D"
      using I(4) set_mset_mono [OF sub] by (auto simp: mem_refs_def)
    show "good_item S st e k x" if "kv_has m' k x" for k x
    proof (cases "x = VDisk d")
      case True
      then have "\<not> kv_has m k x" using kv_has_vals [of m k x] C by auto
      then show ?thesis using old(5) [OF that] good(1) True by (simp add: good_item_def e_def)
    next
      case False
      then have "kv_has m k x" using old(5) [OF that] by blast
      from I(5) [OF this] show ?thesis using False
        by (cases x) (auto simp: good_item_def e_def env_take_disk_def)
    qed
  qed
qed

lemma env_inv_less:
  "env_inv M D H Q S e \<Longrightarrow> Q' \<subseteq> Q \<Longrightarrow> env_inv M D H Q' S e"
  by (auto simp: env_inv_def)

lemma mem_inv_less_queued:
  "mem_inv M D H Q S st F m \<Longrightarrow> Q' \<subseteq> Q \<Longrightarrow> mem_inv M D H Q' S st F m"
  using env_inv_less by (auto simp: mem_inv_def)

lemma mem_inv_more_disks: "mem_inv M D H Q S st F m \<Longrightarrow> mem_inv M (insert d D) H Q S st F m"
  by (auto simp: mem_inv_def env_inv_def)

lemma queued_take:
  assumes "map_of (ls_ttlCh s) ti = Some (a # rest)"
  shows "queued (s\<lparr>ls_ttlCh := AList.update ti rest (ls_ttlCh s)\<rparr>) \<subseteq> queued s"
proof -
  have "set rest \<subseteq> queued s" using queued_in [OF assms] by simp
  then show ?thesis using queued_update [of ti rest s] by blast
qed

lemma run_inv_reader_turn:
  assumes "run_inv r" "map_of (ls_ttlCh (rn_cache r)) ti = Some (a # rest)"
    and "turn_noticed es (lsm_item a (rn_cache r))" and got: "got_from_pool es (env (ls_mem (rn_cache r)))"
    and d: "d \<notin> rn_disks r \<or> d \<in> set (ie_diskPool (env (ls_mem (rn_cache r))))"
    and get: "items (ls_mem (rn_cache r)) (im_Key (lsm_item a (rn_cache r))) = None \<Longrightarrow>
      entryPool_Get (entryPool (ls_mem (rn_cache r))) (fresh (ls_mem (rn_cache r))) cell"
    and "lsm_reader_turn es (True, True) (True, True) now cell d ti (rn_cache r) = Some s"
  shows "run_inv (r\<lparr>rn_cache := s, rn_disks := insert d (rn_disks r)\<rparr>)"
proof (cases "\<exists>ttl w. map_of (ls_reader (rn_cache r)) ti = Some (ttl, Some w)")
  case False
  note i = run_invD [OF assms(1)]
  have "s = rn_cache r" using assms(2,7) False by (auto simp: lsm_reader_turn_def split: option.splits prod.splits)
  moreover have "mem_inv (rn_mems r) (insert d (rn_disks r)) (rn_held r) (queued (rn_cache r)) (rn_stored r)
      (ls_files (rn_cache r)) (rn_filling r) (ls_mem (rn_cache r))"
    by (rule mem_inv_more_disks [OF i(1)])
  ultimately show ?thesis using i by (auto simp: run_inv_def)
next
  case True
  note i = run_invD [OF assms(1)]
  let ?c = "rn_cache r" and ?st = "ls_files (rn_cache r)" and ?m = "ls_mem (rn_cache r)"
  let ?itm = "lsm_item a ?c"
  obtain ttl w where rd: "map_of (ls_reader ?c) ti = Some (ttl, Some w)" using True by blast
  then have rf: "reader_file ?c ti w" by (simp add: reader_file_def)
  note W = files_invD(2-4) [OF i(2) rf]
  obtain res w' st' where turn: "vl_reader_turn es (True, True) (True, True) now ttl ?itm w ?st = Some (res, w', st')"
    using assms(2,7) rd by (auto simp: lsm_reader_turn_def lsm_item_def split: option.splits)
  define s1 where "s1 = ?c\<lparr>ls_files := st', ls_ttlCh := AList.update ti rest (ls_ttlCh ?c),
    ls_reader := AList.update ti (ttl, Some w') (ls_reader ?c)\<rparr>"
  have s: "case res of None \<Rightarrow> s = s1 | Some itd \<Rightarrow>
      (\<exists>m. lsm_afterWrite now cell d itd ttl (?m\<lparr>env := env_take_disk d (env ?m)\<rparr>) = Some m \<and> s = s1\<lparr>ls_mem := m\<rparr>)"
    using assms(2,7) rd turn by (auto simp: lsm_reader_turn_def lsm_item_def s1_def Let_def split: option.splits)
  have aq: "a \<in> queued ?c" using queued_in [OF assms(2)] by simp
  have gm: "good_mem (rn_stored r) (im_Key ?itm) ?itm"
    using mem_invD(6) [OF i(1)] aq by (auto simp: env_inv_def lsm_item_def)
  have itm: "im_ok ?itm" "length (im_content ?itm) < 2 ^ 63"
    "known (rn_stored r) (im_Key ?itm) (im_StatusCode ?itm) (im_content ?itm)"
    using gm by (simp_all add: good_mem_def)
  note out = vl_turn_outcome [OF W(1) itm(1,2) assms(3) turn]
  note frame = fl_frame_turn [OF W(3) turn, unfolded fl_frame_def]
  have q: "queued s1 \<subseteq> queued ?c" using queued_take [OF assms(2)] by (simp add: s1_def queued_def)
  have gd: "good_disk (rn_stored r) st' k itd" if g: "good_disk (rn_stored r) ?st k itd" for k itd
  proof -
    obtain v where v: "id_VFile itd = Some v" "v < fl_next ?st" using g by (rule good_diskE)
    have "v < fl_next st'" using v(2) frame by simp
    moreover have "id_ready (fl_fs st') itd \<and> known (rn_stored r) k (id_StatusCode itd) (id_body (fl_fs st') itd)"
      if r': "vf_r (fl_fs st' v)"
    proof -
      have "vf_r (fl_fs ?st v)"
      proof (cases "v = w")
        case True
        then show ?thesis using W(1) by (simp add: fl_ok_def)
      next
        case False
        then show ?thesis using r' frame v(2) by auto
      qed
      then show ?thesis using g v out by (auto simp: good_disk_def)
    qed
    ultimately show ?thesis using g v by (auto simp: good_disk_def)
  qed
  have files: "files_inv s1"
  proof (rule files_inv_reader [OF i(2), where ti = ti and w' = w'])
    show "reader_file s1 tj v \<longleftrightarrow> (if tj = ti then v = w' else reader_file ?c tj v)" for tj v
      by (auto simp: reader_file_def s1_def update_conv')
  qed (use out frame rf in \<open>auto simp: s1_def closing_def reader_file_def\<close>)
  have m1: "mem_inv (rn_mems r) (rn_disks r) (rn_held r) (queued s1) (rn_stored r) st' (rn_filling r) ?m"
    using mem_inv_less_queued [OF mem_inv_files [OF i(1) gd] q] .
  show ?thesis
  proof (cases res)
    case None
    then show ?thesis using mem_inv_more_disks [OF m1, of d] files i q s
      by (auto simp: run_inv_def) (auto simp: s1_def)
  next
    case (Some itd)
    then obtain m where m: "lsm_afterWrite now cell d itd ttl (?m\<lparr>env := env_take_disk d (env ?m)\<rparr>) = Some m"
      "s = s1\<lparr>ls_mem := m\<rparr>" using s by auto
    have o: "id_ready (fl_fs st') itd" "id_body (fl_fs st') itd = im_content ?itm" "id_Key itd = im_Key ?itm"
      "id_StatusCode itd = im_StatusCode ?itm" using out Some by blast+
    have ti: "\<exists>v. id_VFile itd = Some v \<and> v < fl_next st'"
      "\<exists>e\<in>{fst es, fst (snd es), snd (snd es)}. id_inUse itd = id_inUse (getItemDisk (te_got e))"
      using vl_turn_item [OF W(3) turn [unfolded Some]] by blast+
    have "id_inUse (getItemDisk (te_got e)) = 0" if "e \<in> {fst es, fst (snd es), snd (snd es)}" for e
    proof -
      have "te_got e = None \<or> (\<exists>d\<in>set (ie_diskPool (env ?m)). te_got e = Some (ie_disk (env ?m) d))"
        by (rule bspec [OF got [unfolded got_from_pool_def] that])
      then show ?thesis using mem_invD(6) [OF i(1)] by (auto simp: getItemDisk_def zero_itemDisk_def env_inv_def)
    qed
    then have use0: "id_inUse itd = 0" using ti(2) by auto
    have good: "good_disk (rn_stored r) st' (id_Key itd) itd"
      using o itm(3) ti(1) by (auto simp: good_disk_def)
    have "mem_inv (rn_mems r) (insert d (rn_disks r)) (rn_held r) (queued s1) (rn_stored r) st' (rn_filling r) m"
      by (rule mem_inv_afterWrite [OF m1 i(4,3) d good use0 _ m(1)]) (use get o(3) in simp)
    then show ?thesis using files i q m(2) by (auto simp: run_inv_def) (auto simp: s1_def)
  qed
qed

section \<open>Every run\<close>

lemma run_inv_step:
  assumes "cache_step r r'" "run_inv r"
  shows "run_inv r'"
  using assms
proof induction
  case (step_get now k r it x s)
  then show ?case by (intro run_inv_get)
next
  case (step_done it r)
  then show ?case by (intro run_inv_done)
next
  case (step_delete r k)
  then show ?case by (intro run_inv_delete)
next
  case (step_new a l r s)
  then show ?case by (intro run_inv_new)
next
  case (step_fill a r itm)
  then show ?case by (intro run_inv_fill)
next
  case (step_store a r itm cell now key ttl s)
  then show ?case by (intro run_inv_store)
next
  case (step_abandon r a)
  then show ?case by (intro run_inv_abandon)
next
  case (step_recv r m)
  then show ?case by (intro run_inv_mem) (auto intro: mem_inv_recv)
next
  case (step_tick clk r m)
  then show ?case by (intro run_inv_mem) (auto intro: mem_inv_tick)
next
  case (step_retry r)
  then show ?case by (intro run_inv_retry)
next
  case (step_reader_start now ti r s)
  then show ?case by (intro run_inv_reader_start)
next
  case (step_reader_turn r ti a rest es d cell now s)
  then show ?case by (intro run_inv_reader_turn) blast+
next
  case (step_wake r now)
  then show ?case by (intro run_inv_wake)
next
  case (step_reload r minTTL)
  then show ?case by (intro run_inv_reload)
qed

lemma run_inv_reach: "cache_step\<^sup>*\<^sup>* (run_start minTTL mems fs) r \<Longrightarrow> run_inv r"
  by (induction rule: rtranclp_induct) (auto intro: run_inv_start run_inv_step)

text \<open>No client reads an item that another one is filling.\<close>

definition fill_apart :: "run \<Rightarrow> bool" where
  "fill_apart r \<longleftrightarrow> (\<forall>a\<in>rn_filling r. VMem a \<notin># rn_held r)"

lemma new_not_held:
  assumes "run_inv r" "a \<notin> rn_mems r \<or> (pool_of l, a) \<in> set (ie_memPool (env (ls_mem (rn_cache r))))"
  shows "VMem a \<notin># rn_held r"
proof
  note i = run_invD [OF assms(1)]
  note I = mem_invD [OF i(1)]
  assume h: "VMem a \<in># rn_held r"
  then have M: "a \<in> rn_mems r" using i(4) by auto
  then have "blank (ie_mem (env (ls_mem (rn_cache r))) a)" using assms(2) I(6) by (auto simp: env_inv_def)
  then have "count (rn_held r) (VMem a) = 0" using I(6) M by (simp add: env_inv_def blank_def)
  then show False using h by (simp add: count_eq_zero_iff)
qed

lemma fill_apart_step:
  assumes "cache_step r r'" "run_inv r" "fill_apart r"
  shows "fill_apart r'"
  using assms
proof induction
  case (step_get now k r it x s)
  note i = run_invD [OF step_get(2)]
  have "lsm_lookup now k (rn_cache r) = Some (Some (it, x))"
    using step_get(1) by (auto simp: lsm_Get_def split: option.splits prod.splits)
  then have "it \<in># kv_vals (ls_mem (rn_cache r))" using lsm_found [OF i(1)] by blast
  then show ?case using owner_unique(2) [OF i(1,3)] step_get(3) by (auto simp: fill_apart_def)
next
  case (step_new a l r s)
  then show ?case using new_not_held [OF step_new(4,2)] by (auto simp: fill_apart_def)
qed (auto simp: fill_apart_def dest: in_diffD)

lemma fill_apart_reach: "cache_step\<^sup>*\<^sup>* (run_start minTTL mems fs) r \<Longrightarrow> run_inv r \<and> fill_apart r"
proof (induction rule: rtranclp_induct)
  case base
  show ?case by (simp add: run_inv_start) (simp add: fill_apart_def run_start_def)
next
  case (step r r')
  then show ?case using run_inv_step fill_apart_step by blast
qed

text \<open>What a lookup gives was stored under the key, or lies in a file that has been closed.\<close>

lemma run_inv_answer:
  assumes "run_inv r" "lsm_lookup now k (rn_cache r) = Some (Some (it, x))" "k \<noteq> 0"
    and "e = env (ls_mem (rn_cache r))" "fs = fl_fs (ls_files (rn_cache r))"
  shows "(item_ready fs e it \<and> (k, item_GetStatusCode e it, item_body fs e it) \<in> rn_stored r) \<or>
    (\<exists>d a. it = VDisk d \<and> id_VFile (ie_disk e d) = Some a \<and> \<not> vf_r (fs a))"
proof -
  note i = run_invD(1) [OF assms(1)]
  have g: "good_item (rn_stored r) (ls_files (rn_cache r)) e k it"
    using lsm_found(3) [OF i assms(2)] assms(4) by simp
  show ?thesis
  proof (cases it)
    case (VMem a)
    then show ?thesis using g assms(3)
      by (simp add: good_item_def good_mem_def known_def item_ref_defs im_ready_def item_GetStatusCode_def
        itemMem_GetStatusCode_def)
  next
    case (VDisk d)
    then obtain w where "id_VFile (ie_disk e d) = Some w"
      "vf_r (fs w) \<longrightarrow> id_ready fs (ie_disk e d) \<and> known (rn_stored r) k (id_StatusCode (ie_disk e d)) (id_body fs (ie_disk e d))"
      using g assms(5) by (auto simp: good_item_def good_disk_def)
    then show ?thesis using VDisk assms(3)
      by (auto simp: known_def item_ref_defs item_GetStatusCode_def itemDisk_GetStatusCode_def)
  qed
qed

end
