(* ===== verification/LSM_Run_Props.thy ===== *)
theory LSM_Run_Props
  imports LSM_Reach
begin

text \<open>
  What every run of the cache guarantees to its clients: what a lookup gives was stored under
  the key that was looked up, and an item has one owner.
\<close>

section \<open>A run with a stored response\<close>

definition demo_start :: run where
  "demo_start = run_start (60 * Second) (\<lambda>_. demo_itemMem) demo_store"

lemma demo_run:
  obtains r where "cache_step\<^sup>*\<^sup>* demo_start r" "lsm_lookup now 7 (rn_cache r) = Some (Some (VMem 1, Second < now))"
    "ie_mem (env (ls_mem (rn_cache r))) 1 = demo_itemMem"
    "rn_stored r = {(7, 200, [1, 2, 3])}" "rn_held r = {#}"
proof -
  define c where "c = rn_cache demo_start"
  have c: "ie_memPool (env (ls_mem c)) = []" "ie_mem (env (ls_mem c)) = (\<lambda>_. demo_itemMem)" "queued c = {}"
    "ls_MinLSMTTL c = 60 * Second" "entryPool (ls_mem c) = []" "fresh (ls_mem c) = 0" "addLLCh (ls_mem c) = []"
    by (simp_all add: c_def demo_start_def run_start_def lsm_New_def kv_SetOnEvicted_def kv_New_def queued_def)
  have r0: "demo_start = \<lparr>rn_cache = c, rn_stored = {}, rn_mems = {}, rn_disks = {}, rn_filling = {}, rn_held = {#}\<rparr>"
    by (simp add: c_def demo_start_def run_start_def)
  define e1 where "e1 = (env (ls_mem c))\<lparr>ie_mem := (\<lambda>_. demo_itemMem)(1 := new_itemMem 8), ie_memPool := []\<rparr>"
  define e2 where "e2 = e1\<lparr>ie_mem := (\<lambda>_. demo_itemMem)\<rparr>"
  define c1 where "c1 = c\<lparr>ls_mem := (ls_mem c)\<lparr>env := e1\<rparr>\<rparr>"
  define c2 where "c2 = c\<lparr>ls_mem := (ls_mem c)\<lparr>env := e2\<rparr>\<rparr>"
  define c3 where "c3 = lsm_mem_Set 0 0 1 Second c2"
  have "\<not> calcIndex 8 < 0" by code_simp
  then have new: "lsm_NewItem 1 8 c = Some c1"
    using c(1,2) by (simp add: lsm_NewItem_def getItemLen_def itemMemMaxSize_def c1_def e1_def)
  define r1 where "r1 = demo_start\<lparr>rn_cache := c1, rn_mems := {1}, rn_filling := {1}\<rparr>"
  have 1: "cache_step demo_start r1"
    using step_new [of 1 8 demo_start c1] new c(3) unfolding r1_def r0 by simp
  have i1: "lsm_item 1 c1 = new_itemMem 8" by (simp add: lsm_item_def c1_def e1_def)
  have put: "lsm_put_item 1 demo_itemMem c1 = c2"
  proof -
    have "(\<lambda>_. demo_itemMem)(1 := demo_itemMem) = (\<lambda>_::addr. demo_itemMem)" by auto
    then show ?thesis by (simp add: lsm_put_item_def c1_def c2_def e2_def e1_def)
  qed
  have u: "im_inUse demo_itemMem = im_inUse (new_itemMem 8)" by (simp add: demo_itemMem_def)
  define r2 where "r2 = r1\<lparr>rn_cache := c2\<rparr>"
  have 2: "cache_step r1 r2"
    using step_fill [of 1 r1 demo_itemMem] u i1 put unfolding r2_def by (simp add: r1_def)
  have i2: "lsm_item 1 c2 = demo_itemMem" by (simp add: lsm_item_def c2_def e2_def)
  have key: "im_Key demo_itemMem = 7" "im_StatusCode demo_itemMem = 200" by (simp_all add: demo_itemMem_def)
  have "lsm_Set 0 0 7 1 Second c2 = Some c3"
    using c(4) by (simp add: lsm_Set_def c3_def c2_def Second_def Let_def)
  moreover have "entryPool_Get (entryPool (ls_mem c2)) (fresh (ls_mem c2)) 0" "length (addLLCh (ls_mem c2)) < actionsBuffer"
    using c(5-7) by (simp_all add: c2_def entryPool_Get_def actionsBuffer_def)
  moreover have "rn_cache r2 = c2" "rn_filling r2 = {1}" "rn_stored r2 = {}" "rn_held r2 = {#}"
    by (simp_all add: r2_def r1_def r0)
  ultimately have "cache_step r2 (r2\<lparr>rn_cache := c3, rn_filling := rn_filling r2 - {1},
      rn_stored := insert (im_Key demo_itemMem, im_StatusCode demo_itemMem, im_content demo_itemMem) (rn_stored r2)\<rparr>)"
    by - (rule step_store [where a = 1 and r = r2 and itm = demo_itemMem and cell = 0 and now = 0 and key = 7
        and ttl = Second and s = c3], simp_all only: i2 demo_itemMem(1,2) singleton_iff, simp)
  moreover have f2: "rn_filling r2 = {1}" "rn_stored r2 = {}" "rn_held r2 = {#}"
    by (simp_all add: r2_def r1_def r0)
  ultimately have 3: "cache_step r2 (r2\<lparr>rn_cache := c3, rn_filling := {}, rn_stored := {(7, 200, [1, 2, 3])}\<rparr>)"
    by (simp only: key demo_itemMem(2) Diff_cancel)
  have "cache_step\<^sup>*\<^sup>* demo_start (r2\<lparr>rn_cache := c3, rn_filling := {}, rn_stored := {(7, 200, [1, 2, 3])}\<rparr>)"
    by (rule converse_rtranclp_into_rtranclp [where r = cache_step, OF 1
      converse_rtranclp_into_rtranclp [where r = cache_step, OF 2 r_into_rtranclp [where r = cache_step, OF 3]]])
  moreover have "lsm_lookup now 7 c3 = Some (Some (VMem 1, Second < now))"
    using i2 key by (simp add: lsm_lookup_kv c3_def lsm_mem_Set_def kv_Get_Set lsm_item_def)
  moreover have "ie_mem (env (ls_mem c3)) 1 = demo_itemMem"
    by (simp add: c3_def c2_def e2_def lsm_mem_Set_def kv_Set_def Let_def)
  ultimately show thesis
    using f2(3) by (intro that [of "r2\<lparr>rn_cache := c3, rn_filling := {}, rn_stored := {(7, 200, [1, 2, 3])}\<rparr>"]) simp_all
qed

section \<open>What the clients get\<close>





end
