(* ===== verification/Proxy_Run.thy ===== *)
theory Proxy_Run
  imports LSM_Run_Props Handler_Serve_Props
begin

text \<open>
  The handler's use of the cache as a run of the cache: an answer from the cache is a lookup and a
  release, storing a response is a new item, its filling, and its store. So the proxy as a
  whole, requests and background in any order, only answers from the cache with what the
  backend once answered under the same key.
\<close>

section \<open>Steps of the proxy\<close>

definition response_len :: "serve_env \<Rightarrow> handler_config \<Rightarrow> int \<Rightarrow> http_response \<Rightarrow> int" where
  "response_len ev cfg proto resp =
     (let l = header_Get (rs_Header (resp_headers cfg (se_date ev) proto resp)) ''Content-Length'' in
      if l \<noteq> [] then Atoi_value l else 0)"

definition response_body :: "http_response \<Rightarrow> byte list" where
  "response_body resp = (case hp_Body resp of None \<Rightarrow> [] | Some b \<Rightarrow> b)"

text \<open>
  What the allocator, the pools and the channels give to a response that is to be stored: an item
  that is new or in the pool that is asked, and that does not wait in a channel; a free cell;
  room in the channel of the store.
\<close>

definition response_room :: "serve_env \<Rightarrow> handler_config \<Rightarrow> int \<Rightarrow> http_response \<Rightarrow> run \<Rightarrow> bool" where
  "response_room ev cfg proto resp r \<longleftrightarrow>
     (let m = ls_mem (rn_cache r); a = se_item ev in
      (a \<notin> rn_mems r \<or> (pool_of (response_len ev cfg proto resp), a) \<in> set (ie_memPool (env m))) \<and>
      a \<notin> queued (rn_cache r) \<and> entryPool_Get (entryPool m) (fresh m) (se_cell ev) \<and>
      length (addLLCh m) < actionsBuffer \<and> length (response_body resp) < 2 ^ 63)"

text \<open>
  The first component collects the responses of the backend that were stored without an error. A
  call that does not return keeps its item.
\<close>

inductive proxy_step ::
  "handler_config \<Rightarrow> (u64 \<times> int \<times> byte list) list \<times> run \<Rightarrow> (u64 \<times> int \<times> byte list) list \<times> run \<Rightarrow> bool"
  for cfg where
  proxy_background: "cache_step r r' \<Longrightarrow> rn_stored r' = rn_stored r \<Longrightarrow> proxy_step cfg (B, r) (B, r')"
| proxy_answer: "respondFromCache cfg open_ok now key req w (rn_cache r) = (res, w', s') \<Longrightarrow>
    res \<noteq> Stuck \<Longrightarrow> res \<noteq> Rereads \<Longrightarrow> proxy_step cfg (B, r) (B, r\<lparr>rn_cache := s'\<rparr>)"
| proxy_hangs: "respondFromCache cfg open_ok now key req w (rn_cache r) = (res, w', s') \<Longrightarrow>
    res = Stuck \<or> res = Rereads \<Longrightarrow> lsm_lookup now key (rn_cache r) = Some (Some (it, x)) \<Longrightarrow>
    proxy_step cfg (B, r) (B, r\<lparr>rn_cache := s', rn_held := add_mset it (rn_held r)\<rparr>)"
| proxy_stores: "modifyResponse ev cfg key proto resp ttl (rn_cache r) = (Returns None, resp', s') \<Longrightarrow>
    response_room ev cfg proto resp r \<Longrightarrow>
    proxy_step cfg (B, r) (B @ [(key, rs_StatusCode resp, response_body resp)],
      r\<lparr>rn_cache := s', rn_mems := insert (se_item ev) (rn_mems r),
        rn_stored := insert (key, rs_StatusCode resp, response_body resp) (rn_stored r)\<rparr>)"
| proxy_store_fails: "modifyResponse ev cfg key proto resp ttl (rn_cache r) = (Returns (Some err), resp', s') \<Longrightarrow>
    response_room ev cfg proto resp r \<Longrightarrow>
    proxy_step cfg (B, r) (B, r\<lparr>rn_cache := s', rn_mems := insert (se_item ev) (rn_mems r)\<rparr>)"

section \<open>They are runs of the cache\<close>

lemma run_inv_pool_clean: "run_inv r \<Longrightarrow> pool_clean (rn_cache r)"
  using mem_invD(6) [OF run_invD(1)] by (fastforce simp: env_inv_def pool_clean_def im_clean_def blank_def lsm_item_def)

lemma free_item_not_filling:
  assumes "run_inv r" "a \<notin> rn_mems r \<or> (i, a) \<in> set (ie_memPool (env (ls_mem (rn_cache r))))"
  shows "a \<notin> rn_filling r"
proof
  note i = run_invD [OF assms(1)]
  assume a: "a \<in> rn_filling r"
  then have "VMem a \<in># mem_refs (ls_mem (rn_cache r)) (rn_filling r)" using i(3) by (simp add: mem_refs_def)
  then have "a \<in> rn_mems r" using mem_invD(4) [OF i(1)] by auto
  then have "VMem a \<in># env_refs (env (ls_mem (rn_cache r)))" using assms(2) pooled(1) by blast
  then show False using owner_unique(3) [OF i(1,3)] a by blast
qed

text \<open>The part that a stored response and one that fails share: the new item is filled.\<close>

lemma response_filled:
  assumes "run_inv r" "response_room ev cfg proto resp r"
    and "modifyResponse ev cfg key proto resp ttl (rn_cache r) = (Returns err, resp', s')"
  obtains itm s1 where "im_ok itm" "im_Key itm = key" "im_StatusCode itm = rs_StatusCode resp"
    "err = None \<longrightarrow> im_content itm = response_body resp" "lsm_item (se_item ev) s1 = itm"
    "cache_step\<^sup>*\<^sup>* r (r\<lparr>rn_cache := s1, rn_mems := insert (se_item ev) (rn_mems r),
       rn_filling := insert (se_item ev) (rn_filling r)\<rparr>)"
    "if err = None then lsm_Set (se_now ev) (se_cell ev) key (se_item ev) ttl s1 = Some s' else s' = s1"
    "entryPool (ls_mem s1) = entryPool (ls_mem (rn_cache r))" "fresh (ls_mem s1) = fresh (ls_mem (rn_cache r))"
    "addLLCh (ls_mem s1) = addLLCh (ls_mem (rn_cache r))"
proof -
  let ?a = "se_item ev" and ?resp1 = "resp_headers cfg (se_date ev) proto resp" and ?c = "rn_cache r"
  note room = assms(2) [unfolded response_room_def Let_def]
  have r1: "rs_StatusCode ?resp1 = rs_StatusCode resp" "hp_Body ?resp1 = hp_Body resp"
    by (simp_all add: resp_headers_def Let_def)
  obtain s0 where s0: "lsm_NewItem ?a (response_len ev cfg proto resp) ?c = Some s0"
    using assms(3) by (auto simp: modifyResponse_def response_len_def Let_def split: option.splits)
  define itm where "itm = (lsm_item ?a s0)\<lparr>im_Key := key, im_StatusCode := rs_StatusCode ?resp1,
      im_Header := append_headers (rs_Header ?resp1) (im_Header (lsm_item ?a s0))\<rparr>"
  obtain err' resp2 os' itm' where d: "DumpResponse (se_grow ev) ?resp1 True (se_writes ev, itm) = (err', resp2, (os', itm'))"
    by (metis surj_pair)
  define s1 where "s1 = lsm_put_item ?a itm' s0"
  have clean: "im_clean (lsm_item ?a s0)" using lsm_NewItem_clean(1) [OF s0 run_inv_pool_clean [OF assms(1)]] .
  have itm: "im_ok itm" "im_content itm = []" "im_frame itm = (key, rs_StatusCode resp,
      append_headers (rs_Header ?resp1) (im_Header (lsm_item ?a s0)), im_HIT (lsm_item ?a s0), im_inUse (lsm_item ?a s0))"
    using clean r1 by (simp_all add: im_clean_def itm_def im_ok_def im_content_def im_frame_def cong: option.case_cong)
  note D = DumpResponse_honest [OF itm(1) d]
  have itm': "im_ok itm'" "im_Key itm' = key" "im_StatusCode itm' = rs_StatusCode resp" "im_inUse itm' = im_inUse (lsm_item ?a s0)"
    using D(1) itm(3) by (auto simp: im_frame_def)
  have err: "if err = None then lsm_Set (se_now ev) (se_cell ev) key ?a ttl s1 = Some s' else s' = s1" "err' = None \<longleftrightarrow> err = None"
    using assms(3) s0 d unfolding modifyResponse_def Let_def response_len_def [unfolded Let_def, symmetric]
    by (auto simp: itm_def s1_def split: option.splits)
  have content: "err = None \<longrightarrow> im_content itm' = response_body resp"
    using D(2) err(2) itm(2) r1 by (auto simp: response_body_def)
  let ?r0 = "r\<lparr>rn_cache := s0, rn_mems := insert ?a (rn_mems r), rn_filling := insert ?a (rn_filling r)\<rparr>"
  have 1: "cache_step r ?r0" by (rule step_new [OF s0]) (use room in blast)+
  have 2: "cache_step ?r0 (?r0\<lparr>rn_cache := s1\<rparr>)"
    using step_fill [of ?a ?r0 itm'] itm'(4) by (simp add: s1_def)
  have 3: "cache_step\<^sup>*\<^sup>* r (r\<lparr>rn_cache := s1, rn_mems := insert ?a (rn_mems r), rn_filling := insert ?a (rn_filling r)\<rparr>)"
  proof -
    have "?r0\<lparr>rn_cache := s1\<rparr> = r\<lparr>rn_cache := s1, rn_mems := insert ?a (rn_mems r), rn_filling := insert ?a (rn_filling r)\<rparr>"
      by (cases r) simp
    with converse_rtranclp_into_rtranclp [where r = cache_step, OF 1 r_into_rtranclp [where r = cache_step, OF 2]]
    show ?thesis by (simp only:)
  qed
  have "ls_mem s0 = (ls_mem ?c)\<lparr>env := env (ls_mem s0)\<rparr>"
    using s0 by (auto simp: lsm_NewItem_def Let_def split: option.splits)
  then have parts: "entryPool (ls_mem s1) = entryPool (ls_mem ?c)" "fresh (ls_mem s1) = fresh (ls_mem ?c)"
    "addLLCh (ls_mem s1) = addLLCh (ls_mem ?c)"
    by (simp_all add: s1_def lsm_put_item_def) (metis kvsm.select_convs kvsm.update_convs(9) kvsm.surjective)+
  show thesis by (rule that [OF itm'(1-3) content _ 3 err(1) parts]) (simp_all add: s1_def)
qed

lemma respondFromCache_run:
  assumes "respondFromCache cfg open_ok now key req w (rn_cache r) = (res, w', s')"
  shows "if res = Stuck \<or> res = Rereads
    then \<forall>it x. lsm_lookup now key (rn_cache r) = Some (Some (it, x)) \<longrightarrow>
      cache_step\<^sup>*\<^sup>* r (r\<lparr>rn_cache := s', rn_held := add_mset it (rn_held r)\<rparr>)
    else cache_step\<^sup>*\<^sup>* r (r\<lparr>rn_cache := s'\<rparr>)"
proof (cases "lsm_lookup now key (rn_cache r)")
  case None
  then show ?thesis using assms by (auto simp: respondFromCache_def lsm_Get_def)
next
  case (Some found)
  show ?thesis
  proof (cases found)
    case None
    then show ?thesis using assms Some by (auto simp: respondFromCache_def lsm_Get_def)
  next
    case (Some itx)
    obtain it x where itx: "itx = (it, x)" by (cases itx)
    let ?c = "rn_cache r"
    have get: "lsm_Get now key ?c = Some (Inr (it, x), lsm_pin it ?c)"
      using Some itx \<open>lsm_lookup now key ?c = Some found\<close> by (simp add: lsm_Get_def)
    have s': "s' = (if res = Stuck \<or> res = Rereads then lsm_pin it ?c else lsm_Done it (lsm_pin it ?c))"
      using assms get by (auto simp: respondFromCache_def respond_item_def respond_full_def respond_range_def
        written_item_def Let_def split: header_result.splits prod.splits sum.splits option.splits list.splits if_splits)
    let ?r1 = "r\<lparr>rn_cache := lsm_pin it ?c, rn_held := add_mset it (rn_held r)\<rparr>"
    have 1: "cache_step r ?r1" by (rule step_get [OF get])
    have 2: "cache_step ?r1 (r\<lparr>rn_cache := lsm_Done it (lsm_pin it ?c)\<rparr>)"
      using step_done [of it ?r1] by simp
    have "cache_step\<^sup>*\<^sup>* r ?r1" using 1 by (rule r_into_rtranclp)
    moreover have "cache_step\<^sup>*\<^sup>* r (r\<lparr>rn_cache := lsm_Done it (lsm_pin it ?c)\<rparr>)"
      by (rule converse_rtranclp_into_rtranclp [where r = cache_step, OF 1 r_into_rtranclp [where r = cache_step, OF 2]])
    ultimately show ?thesis using s' Some itx \<open>lsm_lookup now key ?c = Some found\<close> by auto
  qed
qed

lemma proxy_step_run:
  assumes "proxy_step cfg (B, r) (B', r')" "run_inv r"
  shows "cache_step\<^sup>*\<^sup>* r r' \<and> (rn_stored r \<subseteq> set B \<longrightarrow> rn_stored r' \<subseteq> set B')"
  using assms(1)
proof cases
  case proxy_background
  then show ?thesis by (simp add: r_into_rtranclp)
next
  case (proxy_answer open_ok now key req w res w' s')
  then show ?thesis using respondFromCache_run [OF proxy_answer(3)] by simp
next
  case (proxy_hangs open_ok now key req w res w' s' it x)
  then show ?thesis using respondFromCache_run [OF proxy_hangs(3)] by simp
next
  case (proxy_stores ev key proto resp ttl resp' s')
  let ?a = "se_item ev"
  obtain itm s1 where f: "im_ok itm" "im_Key itm = key" "im_StatusCode itm = rs_StatusCode resp"
    "None = (None :: lsm_error option) \<longrightarrow> im_content itm = response_body resp" "lsm_item ?a s1 = itm"
    "cache_step\<^sup>*\<^sup>* r (r\<lparr>rn_cache := s1, rn_mems := insert ?a (rn_mems r), rn_filling := insert ?a (rn_filling r)\<rparr>)"
    "if None = (None :: lsm_error option) then lsm_Set (se_now ev) (se_cell ev) key ?a ttl s1 = Some s' else s' = s1"
    "entryPool (ls_mem s1) = entryPool (ls_mem (rn_cache r))" "fresh (ls_mem s1) = fresh (ls_mem (rn_cache r))"
    "addLLCh (ls_mem s1) = addLLCh (ls_mem (rn_cache r))"
    by (rule response_filled [OF assms(2) proxy_stores(4,3)])
  note room = proxy_stores(4) [unfolded response_room_def Let_def]
  have nf: "?a \<notin> rn_filling r" using free_item_not_filling [OF assms(2)] room by blast
  let ?r1 = "r\<lparr>rn_cache := s1, rn_mems := insert ?a (rn_mems r), rn_filling := insert ?a (rn_filling r)\<rparr>"
  have "cache_step ?r1 (?r1\<lparr>rn_cache := s', rn_filling := rn_filling ?r1 - {?a},
      rn_stored := insert (im_Key itm, im_StatusCode itm, im_content itm) (rn_stored ?r1)\<rparr>)"
    by (rule step_store [where key = key and now = "se_now ev" and cell = "se_cell ev" and ttl = ttl])
      (use f room in simp_all)
  moreover have "?r1\<lparr>rn_cache := s', rn_filling := rn_filling ?r1 - {?a},
      rn_stored := insert (im_Key itm, im_StatusCode itm, im_content itm) (rn_stored ?r1)\<rparr> = r'"
    using nf f(2-4) proxy_stores(2) by (cases r) simp
  ultimately have "cache_step\<^sup>*\<^sup>* r r'" using f(6) by (simp add: rtranclp.rtrancl_into_rtrancl)
  then show ?thesis using proxy_stores(1,2) by auto
next
  case (proxy_store_fails ev key proto resp ttl err resp' s')
  let ?a = "se_item ev"
  obtain itm s1 where f: "im_ok itm" "im_Key itm = key" "im_StatusCode itm = rs_StatusCode resp"
    "Some err = None \<longrightarrow> im_content itm = response_body resp" "lsm_item ?a s1 = itm"
    "cache_step\<^sup>*\<^sup>* r (r\<lparr>rn_cache := s1, rn_mems := insert ?a (rn_mems r), rn_filling := insert ?a (rn_filling r)\<rparr>)"
    "if Some err = None then lsm_Set (se_now ev) (se_cell ev) key ?a ttl s1 = Some s' else s' = s1"
    "entryPool (ls_mem s1) = entryPool (ls_mem (rn_cache r))" "fresh (ls_mem s1) = fresh (ls_mem (rn_cache r))"
    "addLLCh (ls_mem s1) = addLLCh (ls_mem (rn_cache r))"
    by (rule response_filled [OF assms(2) proxy_store_fails(4,3)])
  note room = proxy_store_fails(4) [unfolded response_room_def Let_def]
  have nf: "?a \<notin> rn_filling r" using free_item_not_filling [OF assms(2)] room by blast
  let ?r1 = "r\<lparr>rn_cache := s1, rn_mems := insert ?a (rn_mems r), rn_filling := insert ?a (rn_filling r)\<rparr>"
  have "cache_step ?r1 (?r1\<lparr>rn_filling := rn_filling ?r1 - {?a}\<rparr>)" by (rule step_abandon)
  moreover have "?r1\<lparr>rn_filling := rn_filling ?r1 - {?a}\<rparr> = r'"
    using nf f(7) proxy_store_fails(2) by (cases r) simp
  ultimately have "cache_step\<^sup>*\<^sup>* r r'" using f(6) by (simp add: rtranclp.rtrancl_into_rtrancl)
  then show ?thesis using proxy_store_fails(1,2) by simp
qed

lemma proxy_run:
  assumes "(proxy_step cfg)\<^sup>*\<^sup>* ([], run_start minTTL mems fs0) (B, r)"
  shows "cache_step\<^sup>*\<^sup>* (run_start minTTL mems fs0) r \<and> rn_stored r \<subseteq> set B"
proof -
  have "cache_step\<^sup>*\<^sup>* (run_start minTTL mems fs0) (snd x) \<and> rn_stored (snd x) \<subseteq> set (fst x)"
    if "(proxy_step cfg)\<^sup>*\<^sup>* ([], run_start minTTL mems fs0) x" for x
    using that
  proof (induction rule: rtranclp_induct)
    case base
    show ?case by (simp add: run_start_def)
  next
    case (step y z)
    obtain B r B' r' where yz: "y = (B, r)" "z = (B', r')" by (cases y; cases z)
    have "run_inv r" using step.IH yz by (auto intro: run_inv_reach)
    from proxy_step_run [OF step.hyps(2) [unfolded yz] this] step.IH yz show ?case
      by (auto intro: rtranclp_trans)
  qed
  from this [OF assms] show ?thesis by simp
qed

section \<open>What a client gets\<close>

lemma closed_file_no_header:
  "id_VFile (ie_disk e d) = Some a \<Longrightarrow> \<not> vf_r (fs a) \<Longrightarrow> item_GetHeader fs e (VDisk d) \<noteq> Header_is hs"
  by (auto simp: item_GetHeader_def itemDisk_GetHeader_def vf_ReadAt_def split: if_splits prod.splits)

lemma respondFromCache_hit:
  assumes "respondFromCache cfg open_ok now key req w s = (Returns True, w', s')"
  obtains it x hs where "lsm_lookup now key s = Some (Some (it, x))"
    "item_GetHeader (fl_fs (ls_files s)) (env (ls_mem s)) it = Header_is hs"
proof -
  obtain it x s1 where g: "lsm_Get now key s = Some (Inr (it, x), s1)"
    using assms by (auto simp: respondFromCache_def split: option.splits prod.splits sum.splits)
  then have l: "lsm_lookup now key s = Some (Some (it, x))" and s1: "s1 = lsm_pin it s"
    by (auto simp: lsm_Get_def split: option.splits prod.splits)
  obtain hs where "item_GetHeader (fl_fs (ls_files s1)) (env (ls_mem s1)) it = Header_is hs"
    using assms g by (auto simp: respondFromCache_def Let_def split: header_result.splits)
  then show thesis using that [OF l] by (simp add: s1)
qed


text \<open>The demonstration: one response, stored by a cache that has just started.\<close>

definition demo_proxy_start :: run where
  "demo_proxy_start = run_start (2 * Hour) (\<lambda>_. demo_itemMem) demo_store"

definition demo_store_env :: serve_env where
  "demo_store_env = demo_env1\<lparr>se_cell := 0\<rparr>"

lemma demo_proxy_start:
  "ie_memPool (env (ls_mem (rn_cache demo_proxy_start))) = []" "queued (rn_cache demo_proxy_start) = {}"
  "ls_MinLSMTTL (rn_cache demo_proxy_start) = 2 * Hour" "entryPool (ls_mem (rn_cache demo_proxy_start)) = []"
  "fresh (ls_mem (rn_cache demo_proxy_start)) = 0" "addLLCh (ls_mem (rn_cache demo_proxy_start)) = []"
  "rn_mems demo_proxy_start = {}" "pool_clean (rn_cache demo_proxy_start)"
  by (simp_all add: demo_proxy_start_def run_start_def lsm_New_def kv_SetOnEvicted_def kv_New_def queued_def pool_clean_def)

lemma demo_store_env:
  "se_cell demo_store_env = 0" "se_item demo_store_env = 9"
  by (simp_all add: demo_store_env_def demo_env1_def)

lemma demo_response_stored:
  "\<exists>resp' s1. modifyResponse demo_store_env demo_config 7 1 demo_response Hour (rn_cache demo_proxy_start)
     = (Returns None, resp', s1)"
proof (rule modifyResponse_succeeds)
  show "header_Get (rs_Header (resp_headers demo_config (se_date demo_store_env) 1 demo_response)) ''Content-Length'' = []"
    by code_simp
qed (simp_all add: demo_store_env_def demo_env1_def demo_response_def demo_proxy_start Hour_def Minute_def Second_def)

lemma demo_response_room: "response_room demo_store_env demo_config 1 demo_response demo_proxy_start"
  by (simp add: response_room_def demo_proxy_start entryPool_Get_def actionsBuffer_def response_body_def
      demo_response_def demo_store_env_def demo_env1_def Let_def)

lemma demo_proxy_run:
  obtains r s1 where "(proxy_step demo_config)\<^sup>*\<^sup>* ([], demo_proxy_start) ([(7, 200, [4, 5])], r)" "rn_cache r = s1"
    "\<exists>resp'. modifyResponse demo_store_env demo_config 7 1 demo_response Hour (rn_cache demo_proxy_start) = (Returns None, resp', s1)"
proof -
  obtain resp' s1 where m: "modifyResponse demo_store_env demo_config 7 1 demo_response Hour (rn_cache demo_proxy_start) = (Returns None, resp', s1)"
    using demo_response_stored by blast
  have b: "rs_StatusCode demo_response = 200" "response_body demo_response = [4, 5]"
    by (simp_all add: demo_response_def response_body_def)
  note st = proxy_stores [OF m demo_response_room, of "[]", unfolded b append_Nil]
  show thesis by (rule that [OF r_into_rtranclp [where r = "proxy_step demo_config", OF st]]) (use m in auto)
qed

lemma demo_proxy_answers:
  assumes "modifyResponse demo_store_env demo_config 7 1 demo_response Hour (rn_cache demo_proxy_start) = (Returns None, resp', s1)"
  obtains w' s' where
    "respondFromCache demo_config True 1 7 (demo_http_request ''/a'' []) demo_log s1 = (Returns True, w', s')"
proof -
  note st = modifyResponse_stored [OF assms demo_proxy_start(8)]
  have l: "lsm_lookup 1 7 s1 = Some (Some (VMem 9, Hour < 1))" using st(1) [of 1] by (simp add: demo_store_env_def demo_env1_def)
  have ready: "item_ready (fl_fs (ls_files s1)) (env (ls_mem s1)) (VMem 9)"
    using st(2,3) by (simp add: item_ready_def im_ready_def lsm_item_def demo_store_env demo_response_def)
  obtain hs where hs: "item_GetHeader (fl_fs (ls_files s1)) (env (ls_mem s1)) (VMem 9) = Header_is hs"
    by (simp add: item_GetHeader_def)
  show thesis by (rule served_full [OF l ready hs demo_log(2,1)], rule that)
qed


end
