(* ===== verification/Header_Pool.thy ===== *)
theory Header_Pool
  imports VLog_Props
begin

text \<open>
  \<open>lsm/pool.go\<close>: the pools of read buffers and of the readers through which headers are parsed. A
  reader that is used again keeps what is in the buffer of its \<open>bufio.Reader\<close>, unless the new
  header is larger than any before. \<open>itemDisk_GetHeader\<close> is the parse with a new reader; here
  it is compared with what \<open>GetHeader\<close> does with the reader that the pool gives.
\<close>

section \<open>Read buffers\<close>

text \<open>\<open>put4K\<close> gives the buffer that goes back to the pool, at its full length, if any does.\<close>

definition get4K :: "gslice option \<Rightarrow> gslice" where
  "get4K got = (case got of Some b \<Rightarrow> b
     | None \<Rightarrow> \<lparr>garr = replicate defaultBufferReadSize 0, glen = defaultBufferReadSize\<rparr>)"

definition put4K :: "gslice \<Rightarrow> gslice option" where
  "put4K b = (if gcap b \<noteq> defaultBufferReadSize then None else Some (b\<lparr>glen := gcap b\<rparr>))"

text \<open>Whatever was put back, a buffer of the pool has room for a whole read.\<close>

lemma get4K_put4K: "got = None \<or> (\<exists>b. got = put4K b) \<Longrightarrow> length (gbytes (get4K got)) = defaultBufferReadSize"
  by (auto simp: get4K_def put4K_def gbytes_def gcap_def split: option.splits if_splits)

section \<open>Readers of headers\<close>

text \<open>
  Of \<open>internalBytes\<close>: the capacity of \<open>b\<close>, and of \<open>buf\<close> the bytes that it holds and that no parser
  has consumed. A reader that was asked for more than the 4 KB of \<open>buf\<close> has claimed to have read
  more than there is room for; every later use of \<open>buf\<close> is out of range (\<open>ib_broken\<close>).
\<close>

record internalBytes =
  ib_cap :: nat
  ib_unread :: "byte list"
  ib_broken :: bool

definition newInternalBytes :: "int \<Rightarrow> internalBytes go" where
  "newInternalBytes l = (if l < 0 then None else Some \<lparr>ib_cap = nat l, ib_unread = [], ib_broken = False\<rparr>)"

definition ib_Reset :: "int \<Rightarrow> internalBytes \<Rightarrow> internalBytes go" where
  "ib_Reset l i =
     (if l \<le> int (ib_cap i) then (if l < 0 then None else Some i)
      else Some (i\<lparr>ib_cap := nat l, ib_unread := [], ib_broken := False\<rparr>))"

definition getHeaderInternalBytes :: "internalBytes option \<Rightarrow> int \<Rightarrow> internalBytes go" where
  "getHeaderInternalBytes got l =
     (case got of Some b \<Rightarrow> ib_Reset l b | None \<Rightarrow> newInternalBytes l)"

text \<open>
  The parse of the header \<open>b\<close>: of the bytes that \<open>buf\<close> still holds, if there are any, otherwise of
  those that \<open>Read\<close> gives. A parser that wants more than that is not followed further, nor is its
  reader.
\<close>

definition ib_parse :: "byte list \<Rightarrow> internalBytes \<Rightarrow> header_result \<times> internalBytes option" where
  "ib_parse b i =
     (if ib_broken i then (Header_panics, Some i)
      else let s = (if ib_unread i = [] then b else ib_unread i) in
        if s = [] then (Header_nil, Some i)
        else if ib_unread i = [] \<and> 4096 < length b then (Header_panics, Some (i\<lparr>ib_broken := True\<rparr>))
        else case read_mime_rest (string_of s) of
            (Mime_ok h, rest) \<Rightarrow> (Header_is h, Some (i\<lparr>ib_unread := bytes_of rest\<rparr>))
          | (Mime_malformed, rest) \<Rightarrow> (Header_nil, Some (i\<lparr>ib_unread := bytes_of rest\<rparr>))
          | (Mime_more, _) \<Rightarrow> (Header_rereads, None))"

text \<open>
  \<open>GetHeader\<close> with the reader that the pool gives, if it gives one, and the reader that goes back
  to the pool, also after a panic.
\<close>

definition pooled_GetHeader ::
  "vfiles \<Rightarrow> internalBytes option \<Rightarrow> itemDisk \<Rightarrow> header_result \<times> internalBytes option" where
  "pooled_GetHeader fs got itd =
     (case getHeaderInternalBytes got (id_HeadSize itd) of
        None \<Rightarrow> (Header_panics, None)
      | Some i \<Rightarrow>
          (case id_VFile itd of
             None \<Rightarrow> (Header_panics, Some i)
           | Some a \<Rightarrow>
               (case vf_ReadAt (fs a) (nat (id_HeadSize itd)) (id_Off itd) of
                  (b, err) \<Rightarrow>
                    if id_HeadSize itd \<noteq> int (length b) \<or> err \<noteq> None then (Header_nil, Some i)
                    else ib_parse b i)))"

text \<open>One reader goes round: each item is read with the reader the one before put back.\<close>

fun pooled_headers :: "vfiles \<Rightarrow> internalBytes option \<Rightarrow> itemDisk list \<Rightarrow> header_result list" where
  "pooled_headers fs got [] = []"
| "pooled_headers fs got (itd # itds) =
     (case pooled_GetHeader fs got itd of (r, put) \<Rightarrow> r # pooled_headers fs put itds)"

section \<open>A clean reader is as good as a new one\<close>

definition ib_clean :: "internalBytes option \<Rightarrow> bool" where
  "ib_clean got \<longleftrightarrow> (case got of None \<Rightarrow> True | Some i \<Rightarrow> ib_unread i = [] \<and> \<not> ib_broken i)"

lemma ib_parse_clean:
  "ib_unread i = [] \<Longrightarrow> \<not> ib_broken i \<Longrightarrow> fst (ib_parse b i) = internalBytes_parse b"
  by (auto simp: ib_parse_def internalBytes_parse_def read_mime_def Let_def split: prod.split mime_result.split)

lemma get_clean:
  assumes "ib_clean got" "0 \<le> l"
  obtains i where "getHeaderInternalBytes got l = Some i" "ib_unread i = []" "\<not> ib_broken i" "l \<le> int (ib_cap i)"
proof (cases got)
  case None
  then show thesis using assms(2)
    by (intro that [of "\<lparr>ib_cap = nat l, ib_unread = [], ib_broken = False\<rparr>"])
      (simp_all add: getHeaderInternalBytes_def newInternalBytes_def)
next
  case (Some i)
  show thesis
  proof (cases "l \<le> int (ib_cap i)")
    case True
    then show thesis using Some assms
      by (intro that [of i]) (simp_all add: getHeaderInternalBytes_def ib_Reset_def ib_clean_def)
  next
    case False
    then show thesis using Some
      by (intro that [of "i\<lparr>ib_cap := nat l, ib_unread := [], ib_broken := False\<rparr>"])
        (simp_all add: getHeaderInternalBytes_def ib_Reset_def)
  qed
qed

lemma get_clean_negative: "l < 0 \<Longrightarrow> getHeaderInternalBytes got l = None"
  by (cases got) (auto simp: getHeaderInternalBytes_def newInternalBytes_def ib_Reset_def)

lemma pooled_GetHeader_clean:
  assumes "ib_clean got"
  shows "fst (pooled_GetHeader fs got itd) = itemDisk_GetHeader fs itd"
proof (cases "id_HeadSize itd < 0")
  case True
  then show ?thesis by (simp add: pooled_GetHeader_def itemDisk_GetHeader_def get_clean_negative)
next
  case False
  then have "0 \<le> id_HeadSize itd" by simp
  then obtain i where "getHeaderInternalBytes got (id_HeadSize itd) = Some i" "ib_unread i = []" "\<not> ib_broken i"
    "id_HeadSize itd \<le> int (ib_cap i)" by (rule get_clean [OF assms])
  then show ?thesis using False ib_parse_clean
    by (simp add: pooled_GetHeader_def itemDisk_GetHeader_def split: option.split prod.split)
qed

text \<open>
  A header that is read whole or not at all: the reading fails, or it gives at most 4 KB that the
  writer of headers wrote.
\<close>

definition header_intact :: "vfiles \<Rightarrow> itemDisk \<Rightarrow> bool" where
  "header_intact fs itd \<longleftrightarrow>
     (case id_VFile itd of
        None \<Rightarrow> True
      | Some a \<Rightarrow>
          (case vf_ReadAt (fs a) (nat (id_HeadSize itd)) (id_Off itd) of
             (b, err) \<Rightarrow> id_HeadSize itd \<noteq> int (length b) \<or> err \<noteq> None \<or>
               (\<exists>h. header_ok h \<and> b = bytes_of (header_bytes h @ crlf) \<and> length b \<le> 4096)))"

lemma ib_parse_intact:
  assumes "ib_unread i = []" "\<not> ib_broken i" "header_ok h" "b = bytes_of (header_bytes h @ crlf)" "length b \<le> 4096"
  shows "ib_parse b i = (Header_is (parsed_header (sort_key fst h)), Some i)"
proof -
  have "b \<noteq> []" by (simp add: assms(4) bytes_of_def crlf_def)
  moreover have "string_of b = header_bytes h @ crlf" unfolding assms(4) by (rule string_of_bytes_of)
  moreover have "bytes_of [] = []" by (simp add: bytes_of_def)
  ultimately show ?thesis
    using assms(1,2,5) read_header_bytes_rest [OF assms(3)] by (simp add: ib_parse_def Let_def)
qed

lemma pooled_GetHeader_keeps_clean:
  assumes "ib_clean got" "header_intact fs itd"
  shows "ib_clean (snd (pooled_GetHeader fs got itd))"
proof (cases "id_HeadSize itd < 0")
  case True
  then show ?thesis by (simp add: pooled_GetHeader_def get_clean_negative ib_clean_def)
next
  case False
  then have "0 \<le> id_HeadSize itd" by simp
  then obtain i where i: "getHeaderInternalBytes got (id_HeadSize itd) = Some i" "ib_unread i = []" "\<not> ib_broken i"
    "id_HeadSize itd \<le> int (ib_cap i)" by (rule get_clean [OF assms(1)])
  then have c: "ib_clean (Some i)" by (simp add: ib_clean_def)
  show ?thesis
  proof (cases "id_VFile itd")
    case None
    then show ?thesis using i c by (simp add: pooled_GetHeader_def)
  next
    case (Some a)
    obtain b err where b: "vf_ReadAt (fs a) (nat (id_HeadSize itd)) (id_Off itd) = (b, err)" by fastforce
    show ?thesis
      using assms(2) Some b i c ib_parse_intact [OF i(2,3)]
      by (auto simp: pooled_GetHeader_def header_intact_def)
  qed
qed

definition demo_heads :: vfiles where
  "demo_heads = (\<lambda>a. demo_vfile\<lparr>vf_file := if a = 7 then record_head demo_itemMem else replicate 5000 0\<rparr>)"

definition demo_disk_head :: itemDisk where
  "demo_disk_head = zero_itemDisk\<lparr>id_VFile := Some 7, id_HeadSize := int (length (record_head demo_itemMem))\<rparr>"

definition demo_big_head :: itemDisk where
  "demo_big_head = zero_itemDisk\<lparr>id_VFile := Some 8, id_HeadSize := 5000\<rparr>"

lemma demo_heads:
  "vf_ReadAt (demo_heads 7) (length (record_head demo_itemMem)) 0 = (record_head demo_itemMem, None)"
  "vf_ReadAt (demo_heads 8) 5000 0 = (replicate 5000 0, None)"
  by (subst vf_ReadAt_full; simp add: demo_heads_def demo_vfile_def)+

lemma demo_disk_head: "header_intact demo_heads demo_disk_head"
proof -
  have "\<exists>h. header_ok h \<and> record_head demo_itemMem = bytes_of (header_bytes h @ crlf) \<and> length (record_head demo_itemMem) \<le> 4096"
    by (rule exI [of _ "im_Header demo_itemMem"]) (use demo_header_ok demo_small(2) in \<open>simp add: record_head_def\<close>)
  then show ?thesis
    unfolding header_intact_def by (simp add: demo_disk_head_def zero_itemDisk_def demo_heads(1))
qed

text \<open>
  C25. As long as every header that is read was written by the cache and takes at most 4 KB,
  reading the headers of any sequence of items with one reader that goes round through the pool
  gives for each of them what a new reader would: nothing of an item shows up in another.
\<close>

theorem recycled_reader_transparent:
  assumes "\<forall>itd\<in>set itds. header_intact fs itd" "ib_clean got"
  shows "pooled_headers fs got itds = map (itemDisk_GetHeader fs) itds"
  using assms
proof (induction itds arbitrary: got)
  case Nil
  then show ?case by simp
next
  case (Cons itd itds)
  obtain r put where p: "pooled_GetHeader fs got itd = (r, put)" by fastforce
  have "r = itemDisk_GetHeader fs itd" "ib_clean put"
    using pooled_GetHeader_clean [OF Cons.prems(2), of fs itd]
      pooled_GetHeader_keeps_clean [OF Cons.prems(2), of fs itd] Cons.prems(1) p by simp_all
  then show ?case using Cons.IH [of put] Cons.prems(1) p by simp
qed

theorem recycled_reader_transparent_witness:
  "pooled_headers demo_heads None [demo_disk_head, demo_disk_head] =
     replicate 2 (Header_is (parsed_header (sort_key fst (im_Header demo_itemMem))))"
proof -
  have "itemDisk_GetHeader demo_heads demo_disk_head = internalBytes_parse (record_head demo_itemMem)"
    by (simp add: itemDisk_GetHeader_def demo_disk_head_def zero_itemDisk_def demo_heads(1))
  also have "\<dots> = Header_is (parsed_header (sort_key fst (im_Header demo_itemMem)))"
    using internalBytes_parse_head [OF demo_header_ok] demo_small(2) by simp
  finally show ?thesis
    using recycled_reader_transparent [of "[demo_disk_head, demo_disk_head]" demo_heads None] demo_disk_head
    by (simp add: ib_clean_def numeral_2_eq_2)
qed

text \<open>
  C26. One header of more than 4 KB breaks the reader: reading it panics, the broken reader goes
  back to the pool, and reading the header of any other item that is not larger with this reader
  panics too, though the item is whole.
\<close>

theorem big_header_poisons_reader:
  assumes "id_VFile big = Some a" "vf_ReadAt (fs a) (nat (id_HeadSize big)) (id_Off big) = (b, None)"
    and "id_HeadSize big = int (length b)" "4096 < length b" "ib_clean got"
    and "id_VFile itd = Some c" "vf_ReadAt (fs c) (nat (id_HeadSize itd)) (id_Off itd) = (b', None)"
    and "id_HeadSize itd = int (length b')" "length b' \<le> length b"
  shows "pooled_headers fs got [big, itd] = [Header_panics, Header_panics]"
proof -
  obtain i where i: "getHeaderInternalBytes got (id_HeadSize big) = Some i" "ib_unread i = []" "\<not> ib_broken i"
    "id_HeadSize big \<le> int (ib_cap i)"
    using get_clean [OF assms(5), of "id_HeadSize big"] assms(3) by auto
  have "b \<noteq> []" using assms(4) by auto
  then have "pooled_GetHeader fs got big = (Header_panics, Some (i\<lparr>ib_broken := True\<rparr>))"
    using assms(1-4) i(1-3) by (simp add: pooled_GetHeader_def ib_parse_def)
  moreover have "pooled_GetHeader fs (Some (i\<lparr>ib_broken := True\<rparr>)) itd = (Header_panics, Some (i\<lparr>ib_broken := True\<rparr>))"
    using assms(3,6-9) i(4)
    by (simp add: pooled_GetHeader_def getHeaderInternalBytes_def ib_Reset_def ib_parse_def)
  ultimately show ?thesis by simp
qed

theorem big_header_poisons_reader_witness:
  "pooled_headers demo_heads None [demo_big_head, demo_disk_head] = [Header_panics, Header_panics] \<and>
   pooled_headers demo_heads None [demo_disk_head] \<noteq> [Header_panics]"
proof
  show "pooled_headers demo_heads None [demo_big_head, demo_disk_head] = [Header_panics, Header_panics]"
    by (rule big_header_poisons_reader [where a = 8 and c = 7 and b = "replicate 5000 0" and b' = "record_head demo_itemMem"])
      (use demo_heads demo_small(2) in \<open>simp_all add: demo_big_head_def demo_disk_head_def zero_itemDisk_def ib_clean_def\<close>)
  have "ib_parse (record_head demo_itemMem) \<lparr>ib_cap = n, ib_unread = [], ib_broken = False\<rparr> \<noteq> (Header_panics, x)" for n x
    using ib_parse_intact [OF _ _ demo_header_ok, of "\<lparr>ib_cap = n, ib_unread = [], ib_broken = False\<rparr>"] demo_small(2)
    by (simp add: record_head_def)
  then show "pooled_headers demo_heads None [demo_disk_head] \<noteq> [Header_panics]"
    using demo_heads(1)
    by (auto simp: pooled_GetHeader_def getHeaderInternalBytes_def newInternalBytes_def demo_disk_head_def zero_itemDisk_def
      split: prod.split)
qed

text \<open>
  What a malformed header leaves unread is parsed as the header of the next item, when that
  needs no larger buffer.
\<close>

lemma malformed_header_leaks:
  assumes "id_VFile bad = Some a" "vf_ReadAt (fs a) (nat (id_HeadSize bad)) (id_Off bad) = (b, None)"
    and "id_HeadSize bad = int (length b)" "b \<noteq> []" "length b \<le> 4096" "ib_clean got"
    and "read_mime_rest (string_of b) = (Mime_malformed, header_bytes h @ crlf)" "header_ok h"
    and "id_VFile itd = Some c" "vf_ReadAt (fs c) (nat (id_HeadSize itd)) (id_Off itd) = (b', None)"
    and "id_HeadSize itd = int (length b')" "length b' \<le> length b"
  shows "pooled_headers fs got [bad, itd] = [Header_nil, Header_is (parsed_header (sort_key fst h))]"
proof -
  obtain i where i: "getHeaderInternalBytes got (id_HeadSize bad) = Some i" "ib_unread i = []" "\<not> ib_broken i"
    "id_HeadSize bad \<le> int (ib_cap i)"
    using get_clean [OF assms(6), of "id_HeadSize bad"] assms(3) by auto
  let ?u = "bytes_of (header_bytes h @ crlf)"
  have 1: "pooled_GetHeader fs got bad = (Header_nil, Some (i\<lparr>ib_unread := ?u\<rparr>))"
    using assms(1-5,7) i(1-3) by (simp add: pooled_GetHeader_def ib_parse_def)
  have u: "?u \<noteq> []" by (simp add: bytes_of_def crlf_def)
  have p: "ib_parse b' (i\<lparr>ib_unread := ?u\<rparr>) = (Header_is (parsed_header (sort_key fst h)), Some (i\<lparr>ib_unread := []\<rparr>))"
  proof -
    have "string_of ?u = header_bytes h @ crlf" by (rule string_of_bytes_of)
    moreover have "bytes_of [] = []" by (simp add: bytes_of_def)
    ultimately show ?thesis using u i(3) read_header_bytes_rest [OF assms(8)]
      by (simp add: ib_parse_def Let_def del: bytes_of_append)
  qed
  have "fst (pooled_GetHeader fs (Some (i\<lparr>ib_unread := ?u\<rparr>)) itd) = Header_is (parsed_header (sort_key fst h))"
    using assms(3,9-12) i(4) p
    by (simp add: pooled_GetHeader_def getHeaderInternalBytes_def ib_Reset_def del: bytes_of_append)
  then show ?thesis using 1
    by (cases "pooled_GetHeader fs (Some (i\<lparr>ib_unread := ?u\<rparr>)) itd") (simp del: bytes_of_append)
qed

end
