(* ===== verification/Http_Metrics.thy ===== *)
theory Http_Metrics
  imports Http_Log_Props Go_Time "HOL-Library.Sublist"
begin

text \<open>
  The rest of \<open>httpsrv/httplog\<close>: the clocks of the log entry, the metrics that every request is
  counted in, and the goroutine that publishes the entries. The Prometheus client and the
  socket are parameters; what is sent of an entry is in \<open>Log_Json\<close>.
\<close>

section \<open>The clocks of an entry\<close>

text \<open>
  A log entry with its clocks extends the entry of \<open>Http_Log\<close>, which the handler's model works
  with: the operations do what they do there and keep the clocks.
\<close>

record timedLog = httpLog +
  ht_Time :: time
  ht_RespTTFMS :: float64
  ht_RespTimeMS :: float64

text \<open>\<open>float64(now.Sub(t).Nanoseconds()) / 1000 / 1000\<close>; \<open>Sub\<close> saturates.\<close>

definition elapsed_ms :: "time \<Rightarrow> time \<Rightarrow> float64" where
  "elapsed_ms now t = f64 (f64 (f64 (of_int (max (- (2 ^ 63)) (min (2 ^ 63 - 1) (now - t)))) / 1000) / 1000)"

definition timed_New :: "time \<Rightarrow> (string \<Rightarrow> int) \<Rightarrow> http_request \<Rightarrow> resp_writer \<Rightarrow> timedLog" where
  "timed_New now ua r w =
     httpLog.extend (httplog_New ua r w) (timedLog.fields now 0 0)"

definition timed_Write :: "time \<Rightarrow> byte list \<Rightarrow> timedLog \<Rightarrow> int \<times> lsm_error option \<times> timedLog" where
  "timed_Write now b hl =
     (case hl_Write b (httpLog.truncate hl) of
        (n, err, hl') \<Rightarrow>
          (n, err, httpLog.extend hl' (timedLog.fields (ht_Time hl)
            (if hl_RespBytes hl = 0 then elapsed_ms now (ht_Time hl) else ht_RespTTFMS hl) (ht_RespTimeMS hl))))"

definition timed_end :: "time \<Rightarrow> timedLog \<Rightarrow> timedLog" where
  "timed_end now hl = hl\<lparr>ht_RespTimeMS := elapsed_ms now (ht_Time hl)\<rparr>"

text \<open>The body of a response: the blocks, each with the time when it had been written.\<close>

fun timed_Writes :: "(time \<times> byte list) list \<Rightarrow> timedLog \<Rightarrow> timedLog" where
  "timed_Writes [] hl = hl"
| "timed_Writes ((t, b) # ws) hl = timed_Writes ws (snd (snd (timed_Write t b hl)))"

lemma timed_Write_parts:
  "httpLog.truncate (snd (snd (timed_Write now b hl))) = snd (snd (hl_Write b (httpLog.truncate hl)))"
  "hl_RespBytes (snd (snd (timed_Write now b hl))) = hl_RespBytes hl + int (length b)"
  "ht_Time (snd (snd (timed_Write now b hl))) = ht_Time hl"
  "ht_RespTTFMS (snd (snd (timed_Write now b hl)))
    = (if hl_RespBytes hl = 0 then elapsed_ms now (ht_Time hl) else ht_RespTTFMS hl)"
  by (simp_all add: timed_Write_def hl_Write_def rw_Write_def httpLog.defs timedLog.defs Let_def)

lemma timed_Writes_started:
  assumes "0 < hl_RespBytes hl"
  shows "ht_RespTTFMS (timed_Writes ws hl) = ht_RespTTFMS hl"
  using assms
proof (induction ws arbitrary: hl)
  case (Cons tb ws)
  obtain t b where "tb = (t, b)" by (cases tb)
  then show ?case using Cons.IH [of "snd (snd (timed_Write t b hl))"] Cons.prems
    by (simp add: timed_Write_parts)
qed simp

lemma timed_Writes_parts:
  "hl_RespBytes (timed_Writes ws hl) = hl_RespBytes hl + int (length (concat (map snd ws)))"
  "ht_Time (timed_Writes ws hl) = ht_Time hl"
  by (induction ws arbitrary: hl) (auto simp: timed_Write_parts)

text \<open>
  The time to the first byte is that of the first block with a byte in it, however the body
  is cut into blocks; of a body without a byte it is that of its last block, and zero when
  nothing was written. The bytes of all blocks are counted, and the entry without its clocks
  is the one that the handler's model computes.
\<close>

theorem first_byte_time:
  assumes "hl_RespBytes hl = 0"
  shows "ht_RespTTFMS (timed_Writes ws hl) =
      (case filter (\<lambda>(t, b). b \<noteq> []) ws of
         (t, b) # _ \<Rightarrow> elapsed_ms t (ht_Time hl)
       | [] \<Rightarrow> if ws = [] then ht_RespTTFMS hl else elapsed_ms (fst (last ws)) (ht_Time hl)) \<and>
    hl_RespBytes (timed_Writes ws hl) = int (length (concat (map snd ws))) \<and>
    httpLog.truncate (timed_Writes ws hl)
      = fold (\<lambda>(t, b) l. snd (snd (hl_Write b l))) ws (httpLog.truncate hl)"
proof (intro conjI)
  show "ht_RespTTFMS (timed_Writes ws hl) =
      (case filter (\<lambda>(t, b). b \<noteq> []) ws of
         (t, b) # _ \<Rightarrow> elapsed_ms t (ht_Time hl)
       | [] \<Rightarrow> if ws = [] then ht_RespTTFMS hl else elapsed_ms (fst (last ws)) (ht_Time hl))"
    using assms
  proof (induction ws arbitrary: hl)
    case (Cons tb ws)
    obtain t b where tb: "tb = (t, b)" by (cases tb)
    let ?hl = "snd (snd (timed_Write t b hl))"
    show ?case
    proof (cases "b = []")
      case True
      have "hl_RespBytes ?hl = 0" using Cons.prems True by (simp add: timed_Write_parts)
      from Cons.IH [OF this] show ?thesis using tb True Cons.prems
        by (simp add: timed_Write_parts split: list.split)
    next
      case False
      then have "0 < hl_RespBytes ?hl" using Cons.prems by (simp add: timed_Write_parts)
      from timed_Writes_started [OF this] show ?thesis using tb False Cons.prems
        by (simp add: timed_Write_parts)
    qed
  qed simp
  show "hl_RespBytes (timed_Writes ws hl) = int (length (concat (map snd ws)))"
    using assms by (simp add: timed_Writes_parts)
  show "httpLog.truncate (timed_Writes ws hl)
      = fold (\<lambda>(t, b) l. snd (snd (hl_Write b l))) ws (httpLog.truncate hl)"
    by (induction ws arbitrary: hl) (auto simp: timed_Write_parts)
qed

theorem first_byte_time_witness:
  "ht_RespTTFMS (timed_Writes [(2000000, []), (7000000, [1, 2]), (9000000, [3])]
     (timed_New 2000000 (\<lambda>_. 1) (demo_http_request ''/a'' []) demo_writer)) = elapsed_ms 7000000 2000000"
  using first_byte_time [of "timed_New 2000000 (\<lambda>_. 1) (demo_http_request ''/a'' []) demo_writer"
      "[(2000000, []), (7000000, [1, 2]), (9000000, [3])]"]
  by (simp add: timed_New_def httplog_New_def httpLog.defs timedLog.defs Let_def)

section \<open>Metrics\<close>

text \<open>What \<open>newMetrics\<close> registers: two histograms and two counters, all with the same labels.\<close>

record metric_opts =
  mo_Namespace :: string
  mo_Subsystem :: string
  mo_Name :: string
  mo_Help :: string
  mo_Buckets :: "float64 list option"
  mo_Labels :: "string list"

definition metric_labels :: "string list" where
  "metric_labels = [''ratelimit'', ''hit'', ''code'', ''method'', ''schema'']"

definition defBuckets :: "float64 list" where
  "defBuckets = [f64 (5 / 1000), f64 (5 / 100), f64 (1 / 10), f64 (5 / 10), 1, 2, 5, 10, 25, 50, 100, 250, 500, 1000, 2500,
     5000, 10000, 30000, 60000, 300000, 600000, 1800000, 3600000]"

definition newMetrics :: "metric_opts list" where
  "newMetrics = map (\<lambda>(name, help, buckets). \<lparr>mo_Namespace = ''elinproxy'', mo_Subsystem = ''handler'',
      mo_Name = name, mo_Help = help, mo_Buckets = buckets, mo_Labels = metric_labels\<rparr>)
    [(''response_ttfb'', ''Reponse TTFB'', Some defBuckets), (''response_time'', ''Reponse time'', Some defBuckets),
     (''response_code'', ''Reponse code'', None), (''response_size'', ''Reponse size'', None)]"

definition FormatBool :: "bool \<Rightarrow> string" where
  "FormatBool b = (if b then ''true'' else ''false'')"

type_synonym labels = "(string \<times> string) list"

definition metric_label :: "httpLog \<Rightarrow> labels" where
  "metric_label l = [(''ratelimit'', FormatBool (hl_RateLimit l)), (''hit'', FormatBool (hl_HIT l)),
     (''code'', Itoa (hl_StatusCode l)), (''method'', hl_Method l), (''schema'', hl_Schema l)]"

text \<open>
  The Prometheus client: \<open>With(label)\<close> with \<open>Inc\<close>, \<open>Add\<close> and \<open>Observe\<close>, on the state of a vector of
  counters or histograms. They panic on labels other than those registered, \<open>Add\<close> on negative
  numbers.
\<close>

record ('c, 'h) prometheus =
  pm_Inc :: "labels \<Rightarrow> 'c \<Rightarrow> 'c go"
  pm_Add :: "labels \<Rightarrow> float64 \<Rightarrow> 'c \<Rightarrow> 'c go"
  pm_Observe :: "labels \<Rightarrow> float64 \<Rightarrow> 'h \<Rightarrow> 'h go"

record ('c, 'h) metrics =
  mt_responseTTFB :: 'h
  mt_responseTime :: 'h
  mt_responseCode :: 'c
  mt_responseSize :: 'c

definition metrics_save :: "('c, 'h) prometheus \<Rightarrow> timedLog \<Rightarrow> ('c, 'h) metrics \<Rightarrow> ('c, 'h) metrics go" where
  "metrics_save P l m =
     (let label = metric_label (httpLog.truncate l) in do {
        code \<leftarrow> pm_Inc P label (mt_responseCode m);
        size \<leftarrow> pm_Add P label (f64 (of_int (hl_RespBytes l))) (mt_responseSize m);
        ttfb \<leftarrow> pm_Observe P label (ht_RespTTFMS l) (mt_responseTTFB m);
        time \<leftarrow> pm_Observe P label (ht_RespTimeMS l) (mt_responseTime m);
        Some \<lparr>mt_responseTTFB = ttfb, mt_responseTime = time, mt_responseCode = code, mt_responseSize = size\<rparr>
      })"

fun metrics_saves :: "('c, 'h) prometheus \<Rightarrow> timedLog list \<Rightarrow> ('c, 'h) metrics \<Rightarrow> ('c, 'h) metrics go" where
  "metrics_saves P [] m = Some m"
| "metrics_saves P (l # ls) m = do { m' \<leftarrow> metrics_save P l m; metrics_saves P ls m' }"

text \<open>
  What the documentation of Prometheus says of vectors: with the labels that were registered the
  operations do not panic, \<open>Inc\<close> adds one to the counter of these labels, \<open>Add\<close> adds a number that
  is not negative; other counters stay.
\<close>

definition counters_documented :: "('c, 'h) prometheus \<Rightarrow> ('c \<Rightarrow> labels \<Rightarrow> rat) \<Rightarrow> bool" where
  "counters_documented P val \<longleftrightarrow>
     (\<forall>l c v h. map fst l = metric_labels \<longrightarrow>
        (\<exists>c'. pm_Inc P l c = Some c' \<and> val c' = (val c)(l := val c l + 1)) \<and>
        (0 \<le> v \<longrightarrow> (\<exists>c'. pm_Add P l v c = Some c' \<and> val c' = (val c)(l := val c l + v))) \<and>
        pm_Observe P l v h \<noteq> None)"

lemma metrics_save_ok:
  assumes "counters_documented P val" "0 \<le> hl_RespBytes l" "hl_RespBytes l < 2 ^ 53"
  obtains m' where "metrics_save P l m = Some m'"
    "val (mt_responseCode m') = (\<lambda>L. val (mt_responseCode m) L + (if L = metric_label (httpLog.truncate l) then 1 else 0))"
    "val (mt_responseSize m') = (\<lambda>L. val (mt_responseSize m) L
       + (if L = metric_label (httpLog.truncate l) then of_int (hl_RespBytes l) else 0))"
proof -
  let ?L = "metric_label (httpLog.truncate l)"
  have L: "map fst ?L = metric_labels" by (simp add: metric_label_def metric_labels_def)
  have v: "f64 (of_int (hl_RespBytes l)) = of_int (hl_RespBytes l)" using assms(2,3) by (intro f64_of_int) simp_all
  note D = assms(1) [unfolded counters_documented_def, rule_format, OF L]
  obtain c where c: "pm_Inc P ?L (mt_responseCode m) = Some c"
    "val c = (val (mt_responseCode m))(?L := val (mt_responseCode m) ?L + 1)" using D by metis
  obtain s where s: "pm_Add P ?L (f64 (of_int (hl_RespBytes l))) (mt_responseSize m) = Some s"
    "val s = (val (mt_responseSize m))(?L := val (mt_responseSize m) ?L + of_int (hl_RespBytes l))"
    using D [of _ "f64 (of_int (hl_RespBytes l))"] assms(2) unfolding v by force
  obtain t1 t2 where "pm_Observe P ?L (ht_RespTTFMS l) (mt_responseTTFB m) = Some t1"
    "pm_Observe P ?L (ht_RespTimeMS l) (mt_responseTime m) = Some t2" using D by blast
  then show thesis
    using c s by (intro that [of "\<lparr>mt_responseTTFB = t1, mt_responseTime = t2, mt_responseCode = c, mt_responseSize = s\<rparr>"])
      (auto simp: metrics_save_def Let_def)
qed

lemma Utoa_val: "digits_val (Utoa n) = int n"
  using Utoa_digits [of n] by blast

lemma Utoa_inject: "Utoa m = Utoa n \<Longrightarrow> m = n"
proof -
  assume a: "Utoa m = Utoa n"
  have "int m = digits_val (Utoa m)" by (rule Utoa_val [symmetric])
  also have "\<dots> = digits_val (Utoa n)" by (simp only: a)
  also have "\<dots> = int n" by (rule Utoa_val)
  finally show "m = n" by (simp only: of_nat_eq_iff)
qed

lemma Utoa_no_sign: "Utoa n \<noteq> CHR ''-'' # s"
  using Utoa_digits [of n] by (cases "Utoa n") (auto simp: is_digit_def less_eq_char_def)

lemma Itoa_inject: "Itoa i = Itoa j \<longleftrightarrow> i = j"
proof
  assume e: "Itoa i = Itoa j"
  consider "i < 0" "j < 0" | "i < 0" "0 \<le> j" | "0 \<le> i" "j < 0" | "0 \<le> i" "0 \<le> j" by linarith
  then show "i = j"
  proof cases
    case 1
    then have "Utoa (nat (- i)) = Utoa (nat (- j))" using e by (simp add: Itoa_def)
    from Utoa_inject [OF this] 1 show ?thesis by simp
  next
    case 2
    then show ?thesis using e Utoa_no_sign [of "nat j"] by (metis Itoa_def not_le)
  next
    case 3
    then show ?thesis using e Utoa_no_sign [of "nat i"] by (metis Itoa_def not_le)
  next
    case 4
    then have "Utoa (nat i) = Utoa (nat j)" using e by (simp add: Itoa_def)
    from Utoa_inject [OF this] 4 show ?thesis by simp
  qed
qed simp

definition same_labels :: "timedLog \<Rightarrow> timedLog \<Rightarrow> bool" where
  "same_labels x l \<longleftrightarrow> hl_RateLimit l = hl_RateLimit x \<and> hl_HIT l = hl_HIT x \<and>
     hl_StatusCode l = hl_StatusCode x \<and> hl_Method l = hl_Method x \<and> hl_Schema l = hl_Schema x"

lemma metric_label_eq:
  "metric_label (httpLog.truncate l) = metric_label (httpLog.truncate x) \<longleftrightarrow> same_labels x l"
  by (auto simp: metric_label_def same_labels_def httpLog.defs FormatBool_def Itoa_inject)

text \<open>
  \<open>save\<close> never panics, and after any number of requests the counters with the labels of an
  entry say how many requests had its values of rate limit, hit, status, method and scheme, and
  how many bytes their bodies had together.
\<close>

theorem metrics_count:
  assumes "counters_documented P val" "\<forall>l\<in>set ls. 0 \<le> hl_RespBytes l \<and> hl_RespBytes l < 2 ^ 53"
  shows "\<exists>m'. metrics_saves P ls m = Some m' \<and>
    (\<forall>x. let L = metric_label (httpLog.truncate x) in
      val (mt_responseCode m') L = val (mt_responseCode m) L + of_nat (length (filter (same_labels x) ls)) \<and>
      val (mt_responseSize m') L = val (mt_responseSize m) L
        + of_int (sum_list (map hl_RespBytes (filter (same_labels x) ls))))"
  using assms(2)
proof (induction ls arbitrary: m)
  case (Cons l ls)
  obtain m1 where m1: "metrics_save P l m = Some m1"
    "val (mt_responseCode m1) = (\<lambda>L. val (mt_responseCode m) L + (if L = metric_label (httpLog.truncate l) then 1 else 0))"
    "val (mt_responseSize m1) = (\<lambda>L. val (mt_responseSize m) L
       + (if L = metric_label (httpLog.truncate l) then of_int (hl_RespBytes l) else 0))"
    using metrics_save_ok [OF assms(1), of l m] Cons.prems by auto
  have eq: "(metric_label (httpLog.truncate x) = metric_label (httpLog.truncate l)) = same_labels x l" for x
    using metric_label_eq [of l x] by auto
  show ?case using Cons.IH [of m1] Cons.prems m1 by (auto simp: algebra_simps eq Let_def)
qed simp

text \<open>Counters as functions from labels to numbers are as documented.\<close>

definition demo_prometheus :: "(labels \<Rightarrow> rat, unit) prometheus" where
  "demo_prometheus = \<lparr>pm_Inc = (\<lambda>l c. if map fst l = metric_labels then Some (c(l := c l + 1)) else None),
     pm_Add = (\<lambda>l v c. if map fst l = metric_labels \<and> 0 \<le> v then Some (c(l := c l + v)) else None),
     pm_Observe = (\<lambda>l v h. if map fst l = metric_labels then Some h else None)\<rparr>"

definition demo_timed :: timedLog where
  "demo_timed = timed_New 0 (\<lambda>_. 1) (demo_http_request ''/a'' []) demo_writer"

theorem metrics_count_witness:
  "\<exists>m'. metrics_saves demo_prometheus [demo_timed\<lparr>hl_HIT := True, hl_RespBytes := 3\<rparr>, demo_timed, demo_timed\<lparr>hl_RespBytes := 4\<rparr>]
      \<lparr>mt_responseTTFB = (), mt_responseTime = (), mt_responseCode = (\<lambda>_. 0), mt_responseSize = (\<lambda>_. 0)\<rparr> = Some m' \<and>
    mt_responseCode m' (metric_label (httpLog.truncate demo_timed)) = 2 \<and>
    mt_responseSize m' (metric_label (httpLog.truncate demo_timed)) = 4"
proof -
  have c: "counters_documented demo_prometheus (\<lambda>c. c)"
    by (simp add: counters_documented_def demo_prometheus_def)
  have d: "\<not> hl_HIT demo_timed" "hl_RespBytes demo_timed = 0"
    by (simp_all add: demo_timed_def timed_New_def httplog_New_def httpLog.defs timedLog.defs Let_def)
  show ?thesis
    using metrics_count [OF c, of "[demo_timed\<lparr>hl_HIT := True, hl_RespBytes := 3\<rparr>, demo_timed, demo_timed\<lparr>hl_RespBytes := 4\<rparr>]"
        "\<lparr>mt_responseTTFB = (), mt_responseTime = (), mt_responseCode = (\<lambda>_. 0), mt_responseSize = (\<lambda>_. 0)\<rparr>"] d
    by (fastforce simp: Let_def same_labels_def)
qed

lemma f64_small:
  "f64 (5 / 1000) < f64 (5 / 100)" "f64 (5 / 100) < f64 (1 / 10)" "f64 (1 / 10) < f64 (5 / 10)" "f64 (5 / 10) < 1"
  by code_simp+

text \<open>
  What registering demands: names that differ, and buckets in strictly increasing order.
\<close>

lemma newMetrics_registers:
  "distinct (map (\<lambda>mo. (mo_Namespace mo, mo_Subsystem mo, mo_Name mo)) newMetrics)"
  "\<forall>mo\<in>set newMetrics. case mo_Buckets mo of None \<Rightarrow> True | Some bs \<Rightarrow> sorted_wrt (<) bs"
proof -
  show "distinct (map (\<lambda>mo. (mo_Namespace mo, mo_Subsystem mo, mo_Name mo)) newMetrics)"
    by (simp add: newMetrics_def)
  have h: "sorted_wrt (<) (f64 (5 / 1000) # f64 (5 / 100) # f64 (1 / 10) # f64 (5 / 10) # 1 # bs)"
    if "sorted_wrt (<) (1 # bs)" for bs :: "rat list"
    using that f64_small by (simp only: sorted_wrt2 [OF transp_on_less] simp_thms)
  have "sorted_wrt (<) defBuckets" unfolding defBuckets_def by (rule h) simp
  then show "\<forall>mo\<in>set newMetrics. case mo_Buckets mo of None \<Rightarrow> True | Some bs \<Rightarrow> sorted_wrt (<) bs"
    by (simp add: newMetrics_def)
qed

section \<open>Publishing the entries\<close>

text \<open>
  \<open>Done\<close> stops the clock, saves the metrics and offers the entry to \<open>msgCh\<close>, which holds two
  entries; a full channel drops it. The goroutine \<open>server\<close> takes the entries out and sends them,
  if it could make its socket, listen on it and set its mode; an entry that is not sent is lost.
\<close>

record ('c, 'h) log_state =
  lg_metrics :: "('c, 'h) metrics"
  lg_msgCh :: "timedLog list"
  lg_up :: bool
  lg_sent :: "timedLog list"

definition log_start :: "('c, 'h) metrics \<Rightarrow> bool \<Rightarrow> bool \<Rightarrow> bool \<Rightarrow> ('c, 'h) log_state" where
  "log_start m socket listen chmod =
     \<lparr>lg_metrics = m, lg_msgCh = [], lg_up = (socket \<and> listen \<and> chmod), lg_sent = []\<rparr>"

definition log_Done :: "('c, 'h) prometheus \<Rightarrow> time \<Rightarrow> timedLog \<Rightarrow> ('c, 'h) log_state \<Rightarrow> ('c, 'h) log_state go" where
  "log_Done P now hl s =
     (let hl' = timed_end now hl in do {
        m \<leftarrow> metrics_save P hl' (lg_metrics s);
        Some (s\<lparr>lg_metrics := m, lg_msgCh := (if length (lg_msgCh s) < msgCh_size then lg_msgCh s @ [hl'] else lg_msgCh s)\<rparr>)
      })"

definition log_server :: "bool \<Rightarrow> ('c, 'h) log_state \<Rightarrow> ('c, 'h) log_state" where
  "log_server send_ok s =
     (if \<not> lg_up s then s
      else case lg_msgCh s of
          [] \<Rightarrow> s
        | x # rest \<Rightarrow> s\<lparr>lg_msgCh := rest, lg_sent := (if send_ok then lg_sent s @ [x] else lg_sent s)\<rparr>)"

datatype log_op = Op_Done time timedLog | Op_server bool

fun log_run :: "('c, 'h) prometheus \<Rightarrow> log_op list \<Rightarrow> ('c, 'h) log_state \<Rightarrow> ('c, 'h) log_state go" where
  "log_run P [] s = Some s"
| "log_run P (Op_Done now hl # ops) s = do { s' \<leftarrow> log_Done P now hl s; log_run P ops s' }"
| "log_run P (Op_server ok # ops) s = log_run P ops (log_server ok s)"

text \<open>The entries that were done, in order, with their clocks stopped.\<close>

fun log_done :: "log_op list \<Rightarrow> timedLog list" where
  "log_done [] = []"
| "log_done (Op_Done now hl # ops) = timed_end now hl # log_done ops"
| "log_done (Op_server ok # ops) = log_done ops"

lemma timed_end_bytes [simp]: "hl_RespBytes (timed_end now hl) = hl_RespBytes hl"
  by (simp add: timed_end_def)

lemma log_Done_parts:
  assumes "log_Done P now hl s = Some s1"
  shows "metrics_save P (timed_end now hl) (lg_metrics s) = Some (lg_metrics s1)"
    "lg_sent s1 = lg_sent s" "lg_up s1 = lg_up s"
    "lg_msgCh s1 = (if length (lg_msgCh s) < msgCh_size then lg_msgCh s @ [timed_end now hl] else lg_msgCh s)"
  using assms by (auto simp: log_Done_def Let_def split: Option.bind_splits)

lemma log_server_parts:
  "lg_metrics (log_server ok s) = lg_metrics s" "lg_up (log_server ok s) = lg_up s"
  "\<not> lg_up s \<Longrightarrow> lg_sent (log_server ok s) = lg_sent s"
  "length (lg_msgCh (log_server ok s)) \<le> length (lg_msgCh s)"
  "subseq (lg_sent (log_server ok s) @ lg_msgCh (log_server ok s)) (lg_sent s @ lg_msgCh s)"
  by (auto simp: log_server_def subseq_append' split: list.split)

lemma log_run_metrics:
  assumes "log_run P ops s = Some s'"
  shows "metrics_saves P (log_done ops) (lg_metrics s) = Some (lg_metrics s')"
  using assms
proof (induction ops arbitrary: s)
  case (Cons x ops)
  show ?case
  proof (cases x)
    case (Op_Done now hl)
    then obtain s1 where s1: "log_Done P now hl s = Some s1" "log_run P ops s1 = Some s'"
      using Cons.prems by (auto split: Option.bind_splits)
    show ?thesis using Cons.IH [OF s1(2)] log_Done_parts(1) [OF s1(1)] Op_Done by simp
  next
    case (Op_server ok)
    then show ?thesis using Cons.IH [of "log_server ok s"] Cons.prems by (simp add: log_server_parts)
  qed
qed simp

lemma log_run_order:
  assumes "log_run P ops s = Some s'" "subseq (lg_sent s @ lg_msgCh s) ls" "length (lg_msgCh s) \<le> msgCh_size"
  shows "subseq (lg_sent s' @ lg_msgCh s') (ls @ log_done ops) \<and> length (lg_msgCh s') \<le> msgCh_size \<and>
    (\<not> lg_up s \<longrightarrow> lg_sent s' = lg_sent s \<and> \<not> lg_up s')"
  using assms
proof (induction ops arbitrary: s ls)
  case (Cons x ops)
  show ?case
  proof (cases x)
    case (Op_Done now hl)
    then obtain s1 where s1: "log_Done P now hl s = Some s1" "log_run P ops s1 = Some s'"
      using Cons.prems(1) by (auto split: Option.bind_splits)
    note p = log_Done_parts(2-4) [OF s1(1)]
    have "subseq (lg_sent s @ lg_msgCh s) (ls @ [timed_end now hl])"
      using Cons.prems(2) by (rule list_emb_prefix)
    moreover have "subseq ((lg_sent s @ lg_msgCh s) @ [timed_end now hl]) (ls @ [timed_end now hl])"
      using Cons.prems(2) by (rule list_emb_append_mono) simp
    ultimately have "subseq (lg_sent s1 @ lg_msgCh s1) (ls @ [timed_end now hl])" using p by simp
    moreover have "length (lg_msgCh s1) \<le> msgCh_size" using p Cons.prems(3) by simp
    ultimately show ?thesis using Cons.IH [OF s1(2), of "ls @ [timed_end now hl]"] p Op_Done by simp
  next
    case (Op_server ok)
    have "subseq (lg_sent (log_server ok s) @ lg_msgCh (log_server ok s)) ls"
      using log_server_parts(5) Cons.prems(2) by (rule subseq_order.order_trans)
    moreover have "length (lg_msgCh (log_server ok s)) \<le> msgCh_size"
      using log_server_parts(4) Cons.prems(3) by (rule order_trans)
    ultimately show ?thesis using Cons.IH [of "log_server ok s" ls] Cons.prems(1) Op_server
      by (simp add: log_server_parts(2,3))
  qed
qed simp



end
