(* ===== verification/Log_Client.thy ===== *)
theory Log_Client
  imports Prelude
begin

text \<open>
  \<open>client/\<close>: the tool that prints the published log entries. The socket library is reduced to the
  outcomes of its calls and to which sockets are open; the goroutine \<open>listen\<close> is a thread that
  is either about to read the field \<open>sock\<close> or waiting in \<open>Recv\<close> on a socket.
\<close>

section \<open>State\<close>

datatype listener = L_top | L_recv addr

text \<open>
  \<open>cl_open\<close> are the sockets that were made and not closed, \<open>cl_sub\<close> those that were dialed and
  subscribed, \<open>cl_next\<close> the address of the next socket; \<open>cl_connecting\<close> says that the main
  goroutine is in \<open>connect\<close>.
\<close>

record client =
  cl_sock :: "addr option"
  cl_open :: "addr set"
  cl_sub :: "addr set"
  cl_next :: addr
  cl_connecting :: bool
  cl_listeners :: "listener multiset"
  cl_printed :: "string list"

definition client_zero :: client where
  "client_zero = \<lparr>cl_sock = None, cl_open = {}, cl_sub = {}, cl_next = 0, cl_connecting = True, cl_listeners = {#}, cl_printed = []\<rparr>"

section \<open>Connecting\<close>

text \<open>The outcome of one try: the call that fails, if one does.\<close>

datatype connect_try = Try_NewSocket_fails | Try_Dial_fails | Try_SetOption_fails | Try_ok

definition cl_Close :: "client \<Rightarrow> client go" where
  "cl_Close c = (case cl_sock c of None \<Rightarrow> None | Some a \<Rightarrow> Some (c\<lparr>cl_open := cl_open c - {a}\<rparr>))"

text \<open>A socket that cannot be dialed is not closed, and \<open>sock\<close> is overwritten by the next try.\<close>

definition realconnect :: "connect_try \<Rightarrow> client \<Rightarrow> bool \<times> client" where
  "realconnect t c =
     (let a = cl_next c;
          c1 = c\<lparr>cl_sock := Some a, cl_open := insert a (cl_open c), cl_next := a + 1\<rparr> in
      case t of
        Try_NewSocket_fails \<Rightarrow> (False, c\<lparr>cl_sock := None\<rparr>)
      | Try_Dial_fails \<Rightarrow> (False, c1)
      | Try_SetOption_fails \<Rightarrow> (False, c1\<lparr>cl_open := cl_open c\<rparr>)
      | Try_ok \<Rightarrow> (True, c1\<lparr>cl_sub := insert a (cl_sub c)\<rparr>))"

text \<open>
  \<open>connect\<close> tries until it succeeds, half a second apart: \<open>None\<close> when the outcomes at hand are used
  up. It starts a listener.
\<close>

fun connect :: "connect_try list \<Rightarrow> client \<Rightarrow> client option" where
  "connect [] c = None"
| "connect (t # ts) c =
     (case realconnect t c of
        (True, c') \<Rightarrow> Some (c'\<lparr>cl_connecting := False, cl_listeners := add_mset L_top (cl_listeners c')\<rparr>)
      | (False, c') \<Rightarrow> connect ts c')"

definition newClient :: "connect_try list \<Rightarrow> client option" where
  "newClient ts = connect ts client_zero"

text \<open>\<open>reconnect\<close>: the outer \<open>None\<close> is the panic on a socket that is \<open>nil\<close>.\<close>

definition reconnect :: "connect_try list \<Rightarrow> client \<Rightarrow> client option go" where
  "reconnect ts c = (case cl_Close c of None \<Rightarrow> None | Some c1 \<Rightarrow> Some (connect ts c1))"

definition cl_Done :: "client \<Rightarrow> client go" where
  "cl_Done c = cl_Close c"

section \<open>Listening and watching\<close>

text \<open>
  A listener reads the field \<open>sock\<close> and waits on the socket it found; a message is printed and it
  reads the field again; on an error, be it that its socket was closed, it ends. \<open>startWatcher\<close>
  reconnects at any event on the file of the socket and at any error: it closes the socket and
  tries to connect until it succeeds, while the listeners go on.
\<close>

datatype watch = Watch_event bool | Watch_error | Watch_closed

definition watch_reconnects :: "watch \<Rightarrow> bool" where
  "watch_reconnects w = (case w of Watch_event _ \<Rightarrow> True | Watch_error \<Rightarrow> True | Watch_closed \<Rightarrow> False)"

inductive client_step :: "client \<Rightarrow> client \<Rightarrow> bool" where
  listen_wait: "L_top \<in># cl_listeners c \<Longrightarrow> cl_sock c = Some a \<Longrightarrow>
    client_step c (c\<lparr>cl_listeners := add_mset (L_recv a) (cl_listeners c - {#L_top#})\<rparr>)"
| listen_msg: "L_recv a \<in># cl_listeners c \<Longrightarrow> a \<in> cl_open c \<inter> cl_sub c \<Longrightarrow>
    client_step c (c\<lparr>cl_listeners := add_mset L_top (cl_listeners c - {#L_recv a#}),
      cl_printed := cl_printed c @ [msg]\<rparr>)"
| listen_error: "L_recv a \<in># cl_listeners c \<Longrightarrow>
    client_step c (c\<lparr>cl_listeners := cl_listeners c - {#L_recv a#}\<rparr>)"
| watch_close: "\<not> cl_connecting c \<Longrightarrow> watch_reconnects w \<Longrightarrow> cl_Close c = Some c1 \<Longrightarrow>
    client_step c (c1\<lparr>cl_connecting := True\<rparr>)"
| watch_fails: "cl_connecting c \<Longrightarrow> realconnect t c = (False, c1) \<Longrightarrow> client_step c c1"
| watch_connects: "cl_connecting c \<Longrightarrow> realconnect t c = (True, c1) \<Longrightarrow>
    client_step c (c1\<lparr>cl_connecting := False, cl_listeners := add_mset L_top (cl_listeners c1)\<rparr>)"

text \<open>A listener that reads the field while it is \<open>nil\<close> panics.\<close>

definition listener_panics :: "client \<Rightarrow> bool" where
  "listener_panics c \<longleftrightarrow> L_top \<in># cl_listeners c \<and> cl_sock c = None"

text \<open>
  \<open>main\<close>: connect, then watch the file of the socket; \<open>None\<close> is the end by \<open>log.Fatal\<close>, when there is
  no watcher or it cannot watch the file, \<open>Some None\<close> that the outcomes at hand do not connect it.
\<close>

fun replace_first :: "string \<Rightarrow> string \<Rightarrow> string \<Rightarrow> string" where
  "replace_first old new [] = (if old = [] then new else [])"
| "replace_first old new (c # cs) =
     (if take (length old) (c # cs) = old then new @ drop (length old) (c # cs)
      else c # replace_first old new cs)"

definition watched_file :: "string \<Rightarrow> string" where
  "watched_file elinproxySocket = replace_first ''ipc://'' [] elinproxySocket"

definition client_main :: "connect_try list \<Rightarrow> bool \<Rightarrow> (string \<Rightarrow> bool) \<Rightarrow> string \<Rightarrow> client option option" where
  "client_main ts watcher_ok add_ok elinproxySocket =
     (case newClient ts of
        None \<Rightarrow> Some None
      | Some c \<Rightarrow> if watcher_ok \<and> add_ok (watched_file elinproxySocket) then Some (Some c) else None)"

lemma watched_file_default: "watched_file ''ipc:///tmp/elinproxy.sock'' = ''/tmp/elinproxy.sock''"
  by code_simp

section \<open>What the client promises\<close>

lemma realconnect_parts:
  assumes "realconnect t c = (ok, c')"
  shows "cl_listeners c' = cl_listeners c" "cl_printed c' = cl_printed c"
    "ok \<longleftrightarrow> t = Try_ok"
    "ok \<Longrightarrow> cl_sock c' = Some (cl_next c) \<and> cl_open c' = insert (cl_next c) (cl_open c) \<and> cl_sub c' = insert (cl_next c) (cl_sub c)"
    "cl_next c \<le> cl_next c'"
    "cl_open c' = (if t \<in> {Try_ok, Try_Dial_fails} then insert (cl_next c) (cl_open c) else cl_open c)"
    "cl_next c' = (if t = Try_NewSocket_fails then cl_next c else cl_next c + 1)"
  using assms by (cases t; auto simp: realconnect_def Let_def)+

text \<open>
  At most one socket is open and subscribed, the one of the field; none while the client connects.
\<close>

definition client_inv :: "client \<Rightarrow> bool" where
  "client_inv c \<longleftrightarrow> finite (cl_open c) \<and> (\<forall>a\<in>cl_open c \<union> cl_sub c. a < cl_next c) \<and>
     (if cl_connecting c then cl_open c \<inter> cl_sub c = {}
      else \<exists>a. cl_sock c = Some a \<and> cl_open c \<inter> cl_sub c = {a})"

lemma client_inv_zero: "client_inv client_zero"
  by (simp add: client_inv_def client_zero_def)

lemma realconnect_inv:
  assumes "client_inv c" "cl_connecting c" "realconnect t c = (ok, c')"
  shows "if ok then client_inv (c'\<lparr>cl_connecting := False, cl_listeners := L\<rparr>)
    else client_inv c' \<and> cl_connecting c'"
proof -
  have n: "cl_next c \<notin> cl_open c" "cl_next c \<notin> cl_sub c" using assms(1) by (auto simp: client_inv_def)
  show ?thesis using assms n by (cases t) (auto simp: realconnect_def client_inv_def Let_def less_Suc_eq)
qed

text \<open>
  \<open>connect\<close> returns as soon as one try succeeds, with a new socket that is open, dialed and
  subscribed, and with one listener more. Of the tries before it, every one that failed to dial
  has left a socket open for good.
\<close>

theorem connect_leaks_sockets:
  assumes "client_inv c" "cl_connecting c" "Try_ok \<notin> set fails"
  shows "\<exists>c'. connect (fails @ Try_ok # rest) c = Some c' \<and> client_inv c' \<and>
    (\<exists>a. cl_sock c' = Some a \<and> a \<in> cl_open c' \<inter> cl_sub c' \<and> a \<notin> cl_open c) \<and>
    cl_listeners c' = add_mset L_top (cl_listeners c) \<and>
    card (cl_open c') = card (cl_open c) + length (filter (\<lambda>t. t = Try_Dial_fails) fails) + 1"
  using assms
proof (induction fails arbitrary: c)
  case Nil
  obtain ok c1 where r: "realconnect Try_ok c = (ok, c1)" by fastforce
  note p = realconnect_parts [OF r]
  have n: "cl_next c \<notin> cl_open c" "finite (cl_open c)" using Nil.prems(1) by (auto simp: client_inv_def)
  let ?c' = "c1\<lparr>cl_connecting := False, cl_listeners := add_mset L_top (cl_listeners c1)\<rparr>"
  have "connect (Try_ok # rest) c = Some ?c'" using r p(3) by simp
  moreover have "client_inv ?c'"
    using realconnect_inv [OF Nil.prems(1,2) r, of "add_mset L_top (cl_listeners c1)"] p(3) by simp
  ultimately show ?case using p n by simp
next
  case (Cons t fails)
  obtain ok c1 where r: "realconnect t c = (ok, c1)" by fastforce
  note p = realconnect_parts [OF r]
  have t: "t \<noteq> Try_ok" "Try_ok \<notin> set fails" using Cons.prems(3) by auto
  have n: "cl_next c \<notin> cl_open c" "finite (cl_open c)" using Cons.prems(1) by (auto simp: client_inv_def)
  have c1: "connect ((t # fails) @ Try_ok # rest) c = connect (fails @ Try_ok # rest) c1"
    using r p(3) t(1) by simp
  have i: "client_inv c1" "cl_connecting c1" using realconnect_inv [OF Cons.prems(1,2) r] p(3) t(1) by auto
  obtain c' a where c': "connect (fails @ Try_ok # rest) c1 = Some c'" "client_inv c'" "cl_sock c' = Some a"
    "a \<in> cl_open c' \<inter> cl_sub c'" "a \<notin> cl_open c1" "cl_listeners c' = add_mset L_top (cl_listeners c1)"
    "card (cl_open c') = card (cl_open c1) + length (filter (\<lambda>t. t = Try_Dial_fails) fails) + 1"
    using Cons.IH [OF i t(2)] by blast
  have "card (cl_open c1) = card (cl_open c) + (if t = Try_Dial_fails then 1 else 0)"
    using p(6) t(1) n by auto
  moreover have "a \<notin> cl_open c" using c'(5) p(6) by (auto split: if_splits)
  ultimately show ?case using c1 c' p(1) by auto
qed

theorem connect_leaks_sockets_witness:
  "\<exists>c'. newClient [Try_Dial_fails, Try_NewSocket_fails, Try_Dial_fails, Try_ok] = Some c' \<and> card (cl_open c') = 3"
proof -
  have "cl_connecting client_zero" "cl_open client_zero = {}" by (simp_all add: client_zero_def)
  then show ?thesis
    using connect_leaks_sockets [OF client_inv_zero, of "[Try_Dial_fails, Try_NewSocket_fails, Try_Dial_fails]" "[]"]
    by (auto simp: newClient_def simp del: connect.simps)
qed

text \<open>The step relation and the function \<open>connect\<close> agree.\<close>

lemma connect_steps:
  "connect ts c = Some c' \<Longrightarrow> cl_connecting c \<Longrightarrow> client_step\<^sup>*\<^sup>* c c'"
proof (induction ts arbitrary: c)
  case (Cons t ts)
  obtain ok c1 where r: "realconnect t c = (ok, c1)" by fastforce
  show ?case
  proof (cases ok)
    case True
    then have "c' = c1\<lparr>cl_connecting := False, cl_listeners := add_mset L_top (cl_listeners c1)\<rparr>"
      using Cons.prems(1) r by simp
    then show ?thesis using watch_connects [OF Cons.prems(2)] r True by (simp add: r_into_rtranclp)
  next
    case False
    then have "cl_connecting c1" using r Cons.prems(2) by (cases t) (auto simp: realconnect_def Let_def)
    then have "client_step\<^sup>*\<^sup>* c1 c'" using Cons.IH [of c1] Cons.prems(1) r False by simp
    moreover have "client_step c c1" using watch_fails [OF Cons.prems(2)] r False by simp
    ultimately show ?thesis by (rule converse_rtranclp_into_rtranclp [rotated])
  qed
qed simp

lemma client_inv_step:
  assumes "client_step c c'" "client_inv c"
  shows "client_inv c'"
  using assms
proof induction
  case (watch_close c w c1)
  then show ?case by (auto simp: client_inv_def cl_Close_def split: option.splits)
next
  case (watch_fails c t c1)
  then show ?case using realconnect_inv [of c t False c1] by simp
next
  case (watch_connects c t c1)
  then show ?case using realconnect_inv [of c t True c1] by simp
qed (auto simp: client_inv_def)

text \<open>
  C28. However listeners, events and tries interleave, the client has at most one live connection: it
  is that of the field, and there is none while it connects. A message is printed only when it
  came over this connection.
\<close>

theorem client_one_connection:
  assumes "client_step\<^sup>*\<^sup>* client_zero c"
  shows "cl_open c \<inter> cl_sub c = (if cl_connecting c then {} else {the (cl_sock c)}) \<and>
    (\<forall>c'. client_step c c' \<and> cl_printed c' \<noteq> cl_printed c \<longrightarrow>
       \<not> cl_connecting c \<and> L_recv (the (cl_sock c)) \<in># cl_listeners c)"
proof -
  have i: "client_inv c"
    using assms by (induction rule: rtranclp_induct) (auto intro: client_inv_zero client_inv_step)
  have "\<not> cl_connecting c \<and> L_recv (the (cl_sock c)) \<in># cl_listeners c"
    if "client_step c c'" "cl_printed c' \<noteq> cl_printed c" for c'
    using that i
  proof induction
    case (watch_close c w c1)
    then show ?case by (auto simp: cl_Close_def split: option.splits)
  next
    case (watch_fails c t c1)
    then show ?case using realconnect_parts(2) [of t c False c1] by simp
  next
    case (watch_connects c t c1)
    then show ?case using realconnect_parts(2) [of t c True c1] by simp
  next
    case (listen_msg a c msg)
    then have a: "a \<in> cl_open c \<inter> cl_sub c" by blast
    then have n: "\<not> cl_connecting c" using listen_msg(4) by (auto simp: client_inv_def)
    then obtain b where "cl_sock c = Some b" "cl_open c \<inter> cl_sub c = {b}"
      using listen_msg(4) by (auto simp: client_inv_def)
    then show ?case using a n listen_msg(1) by (simp only: singleton_iff option.sel) simp
  qed simp_all
  then show ?thesis using i by (auto simp: client_inv_def split: if_splits)
qed

theorem client_one_connection_witness:
  "\<exists>c. client_step\<^sup>*\<^sup>* client_zero c \<and> \<not> cl_connecting c \<and> cl_open c = {0, 1} \<and> cl_open c \<inter> cl_sub c = {1}"
proof -
  obtain c where c: "connect [Try_Dial_fails, Try_ok] client_zero = Some c" "\<not> cl_connecting c" "cl_open c = {0, 1}"
    "cl_sock c = Some 1"
    by (simp add: realconnect_def client_zero_def Let_def insert_commute)
  have "client_step\<^sup>*\<^sup>* client_zero c" by (rule connect_steps [OF c(1)]) (simp add: client_zero_def)
  from client_one_connection [OF this] this c show ?thesis by auto
qed

text \<open>
  A listener that prints a message while the client reconnects goes on with the new socket: two
  listeners then wait on one socket. When no socket can be made at that moment, it panics.
\<close>

lemma reconnect_doubles_listener:
  assumes "cl_sock c = Some a" "\<not> cl_connecting c" "cl_listeners c = {#L_recv a#}" "a \<in> cl_open c \<inter> cl_sub c"
  shows "\<exists>c1 c2 b. client_step\<^sup>*\<^sup>* c c1 \<and> listener_panics c1 \<and>
    client_step\<^sup>*\<^sup>* c c2 \<and> cl_sock c2 = Some b \<and> cl_listeners c2 = {#L_recv b, L_recv b#}"
proof -
  define c0 where "c0 = c\<lparr>cl_listeners := {#L_top#}, cl_printed := cl_printed c @ [[]], cl_open := cl_open c - {a}, cl_connecting := True\<rparr>"
  have 1: "client_step c (c\<lparr>cl_listeners := {#L_top#}, cl_printed := cl_printed c @ [[]]\<rparr>)"
    using listen_msg [of a c "[]"] assms by simp
  have 2: "client_step (c\<lparr>cl_listeners := {#L_top#}, cl_printed := cl_printed c @ [[]]\<rparr>) c0"
    using watch_close [of "c\<lparr>cl_listeners := {#L_top#}, cl_printed := cl_printed c @ [[]]\<rparr>" "Watch_event True"] assms(1,2)
    by (simp add: watch_reconnects_def cl_Close_def c0_def)
  have r0: "client_step\<^sup>*\<^sup>* c c0"
    by (rule converse_rtranclp_into_rtranclp [where r = client_step, OF 1 r_into_rtranclp [where r = client_step, OF 2]])
  have "client_step c0 (c0\<lparr>cl_sock := None\<rparr>)"
    using watch_fails [of c0 Try_NewSocket_fails] by (simp add: realconnect_def Let_def c0_def)
  with r0 have p: "client_step\<^sup>*\<^sup>* c (c0\<lparr>cl_sock := None\<rparr>)" by (rule rtranclp.rtrancl_into_rtrancl)
  define b where "b = cl_next c"
  define c1 where "c1 = c0\<lparr>cl_sock := Some b, cl_open := insert b (cl_open c0), cl_next := b + 1,
    cl_sub := insert b (cl_sub c0), cl_connecting := False, cl_listeners := {#L_top, L_top#}\<rparr>"
  have 3: "client_step c0 c1"
    using watch_connects [of c0 Try_ok] by (simp add: realconnect_def Let_def c0_def c1_def b_def)
  have 4: "client_step c1 (c1\<lparr>cl_listeners := {#L_recv b, L_top#}\<rparr>)"
    using listen_wait [of c1 b] by (simp add: c1_def)
  have 5: "client_step (c1\<lparr>cl_listeners := {#L_recv b, L_top#}\<rparr>) (c1\<lparr>cl_listeners := {#L_recv b, L_recv b#}\<rparr>)"
    using listen_wait [of "c1\<lparr>cl_listeners := {#L_recv b, L_top#}\<rparr>" b] by (simp add: c1_def)
  have "client_step\<^sup>*\<^sup>* c (c1\<lparr>cl_listeners := {#L_recv b, L_recv b#}\<rparr>)"
    by (rule rtranclp.rtrancl_into_rtrancl [where r = client_step, OF rtranclp.rtrancl_into_rtrancl [where r = client_step,
        OF rtranclp.rtrancl_into_rtrancl [where r = client_step, OF r0 3] 4] 5])
  then show ?thesis using p
    by (intro exI [of _ "c0\<lparr>cl_sock := None\<rparr>"] exI [of _ "c1\<lparr>cl_listeners := {#L_recv b, L_recv b#}\<rparr>"] exI [of _ b])
      (simp add: listener_panics_def c1_def c0_def)
qed

end
