(* ===== verification/Server.thy ===== *)
theory Server
  imports Handler_Serve Certs Cache_Rules_Parse
begin

text \<open>
  \<open>main.go\<close> and \<open>httpsrv/httpsrv.go\<close>: how the parts are put together from the configuration,
  and how a running server is to take over a new one. Reading the TOML files is an argument;
  listening on the sockets is reduced to the list of sockets.
\<close>

record srv_config =
  sc_Listen :: "string list"
  sc_ListenTLS :: "string list"
  sc_Reuse :: bool
  sc_Certs :: "certs_config option"
  sc_Handler :: "handler_config option"
  sc_Debug :: bool

record srv =
  sv_cfg :: srv_config
  sv_certs :: certs
  sv_handler :: handler

section \<open>Cipher suites\<close>

datatype cipher =
    ECDHE_ECDSA_AES_256_GCM_SHA384 | ECDHE_RSA_AES_256_GCM_SHA384
  | ECDHE_ECDSA_AES_128_GCM_SHA256 | ECDHE_RSA_AES_128_GCM_SHA256
  | ECDHE_ECDSA_CHACHA20_POLY1305 | ECDHE_RSA_CHACHA20_POLY1305
  | RSA_AES_256_CBC_SHA | RSA_AES_128_CBC_SHA256 | RSA_AES_128_CBC_SHA | RSA_3DES_EDE_CBC_SHA

definition defaultCiphersPreferAES :: "cipher list" where
  "defaultCiphersPreferAES =
    [ECDHE_ECDSA_AES_256_GCM_SHA384, ECDHE_RSA_AES_256_GCM_SHA384,
     ECDHE_ECDSA_AES_128_GCM_SHA256, ECDHE_RSA_AES_128_GCM_SHA256,
     ECDHE_ECDSA_CHACHA20_POLY1305, ECDHE_RSA_CHACHA20_POLY1305,
     RSA_AES_256_CBC_SHA, RSA_AES_128_CBC_SHA256, RSA_AES_128_CBC_SHA, RSA_3DES_EDE_CBC_SHA]"

definition defaultCiphersPreferChaCha :: "cipher list" where
  "defaultCiphersPreferChaCha =
    [ECDHE_ECDSA_CHACHA20_POLY1305, ECDHE_RSA_CHACHA20_POLY1305,
     ECDHE_ECDSA_AES_256_GCM_SHA384, ECDHE_RSA_AES_256_GCM_SHA384,
     ECDHE_ECDSA_AES_128_GCM_SHA256, ECDHE_RSA_AES_128_GCM_SHA256,
     RSA_AES_256_CBC_SHA, RSA_AES_128_CBC_SHA256, RSA_AES_128_CBC_SHA]"

definition preferredDefaultCipherSuites :: "bool \<Rightarrow> cipher list" where
  "preferredDefaultCipherSuites aesni =
     (if aesni then defaultCiphersPreferAES else defaultCiphersPreferChaCha)"

section \<open>The server\<close>

text \<open>The configuration that is kept has the sockets only; the others are \<open>nil\<close> in it.\<close>

definition srv_New ::
  "(pemCert \<Rightarrow> certificate option) \<Rightarrow> (byte list \<Rightarrow> leaf option) \<Rightarrow> (addr \<Rightarrow> itemMem) \<Rightarrow> vfiles \<Rightarrow> srv_config
     \<Rightarrow> srv go" where
  "srv_New keyPair parse mems fs cfg = do {
     hc \<leftarrow> sc_Handler cfg;
     h \<leftarrow> handler_New mems fs hc;
     c \<leftarrow> certs_New keyPair parse (sc_Certs cfg);
     Some \<lparr>sv_cfg = \<lparr>sc_Listen = sc_Listen cfg, sc_ListenTLS = sc_ListenTLS cfg, sc_Reuse = sc_Reuse cfg,
         sc_Certs = None, sc_Handler = None, sc_Debug = False\<rparr>,
       sv_certs = c, sv_handler = h\<rparr>
   }"

definition srv_Reload ::
  "(pemCert \<Rightarrow> certificate option) \<Rightarrow> (byte list \<Rightarrow> leaf option) \<Rightarrow> srv_config \<Rightarrow> srv \<Rightarrow> srv go" where
  "srv_Reload keyPair parse cfg s =
     (let s1 = s\<lparr>sv_cfg := (sv_cfg s)\<lparr>sc_Reuse := sc_Reuse cfg, sc_Debug := sc_Debug cfg\<rparr>\<rparr> in
      do {
        hc \<leftarrow> sc_Handler cfg;
        h \<leftarrow> handler_Reload hc (sv_handler s1);
        c \<leftarrow> certs_Reload keyPair parse (sc_Certs (sv_cfg s1)) (sv_certs s1);
        Some (s1\<lparr>sv_handler := h, sv_certs := c\<rparr>)
      })"

text \<open>The sockets of \<open>Listen\<close>: the address, with TLS or not, with the port shared or not.\<close>

definition srv_sockets :: "srv_config \<Rightarrow> bool \<Rightarrow> (string \<times> bool \<times> bool) list" where
  "srv_sockets cfg reuse =
     map (\<lambda>p. (p, False, reuse)) (sc_Listen cfg) @ map (\<lambda>p. (p, True, reuse)) (sc_ListenTLS cfg)"

definition srv_Listen :: "nat \<Rightarrow> srv_config \<Rightarrow> (string \<times> bool \<times> bool) list" where
  "srv_Listen numCPU cfg =
     (if sc_Reuse cfg then concat (map (\<lambda>i. srv_sockets cfg True) [0..<numCPU + 1])
      else srv_sockets cfg False)"

section \<open>Loading the configuration\<close>

text \<open>
  A server's configuration as it is decoded: without a section for the handler, or for its cache
  (\<open>rc_ttls\<close>), reading the strings of the TTLs is a \<open>nil\<close> dereference. The file is always the one
  of the flag, \<open>serverConfFile\<close>, whatever the argument. \<open>ExtraTTL\<close> is parsed, but nothing uses it.
\<close>

record raw_config =
  rc_srv :: srv_config
  rc_ttls :: "(string \<times> string) option"

definition loadServerConf ::
  "(string \<Rightarrow> raw_config option) \<Rightarrow> string \<Rightarrow> string \<Rightarrow> (dur_error option + srv_config) go" where
  "loadServerConf decode serverConfFile file =
     (case decode serverConfFile of
        None \<Rightarrow> Some (Inl None)
      | Some rc \<Rightarrow>
          (case (sc_Handler (rc_srv rc), rc_ttls rc) of
             (Some hc, Some (extraTTL, minTTL)) \<Rightarrow>
               (case ParseDuration extraTTL of
                  Inl e \<Rightarrow> Some (Inl (Some e))
                | Inr _ \<Rightarrow>
                    (case ParseDuration minTTL of
                       Inl e \<Rightarrow> Some (Inl (Some e))
                     | Inr d \<Rightarrow> Some (Inr ((rc_srv rc)\<lparr>sc_Handler := Some (hc\<lparr>Cache := Some d\<rparr>)\<rparr>))))
           | _ \<Rightarrow> None))"

text \<open>The error of \<open>Parse\<close> is ignored, and the rules of the domains are not parsed.\<close>

definition loadCacheRules :: "(string \<Rightarrow> rules option) \<Rightarrow> string \<Rightarrow> rules option" where
  "loadCacheRules decode file =
     (case decode file of
        None \<Rightarrow> None
      | Some r \<Rightarrow> Some (internalRules.extend (snd (Parse (internalRules.truncate r))) (rules.fields (Domain r))))"

text \<open>
  \<open>startOrReload\<close>: the outer \<open>None\<close> is a panic; after an error, which is logged, the server is what
  it was. A new server goes on to \<open>Listen\<close>, which ends only with the server; what is returned here
  is the server that is listening.
\<close>

definition startOrReload ::
  "(pemCert \<Rightarrow> certificate option) \<Rightarrow> (byte list \<Rightarrow> leaf option) \<Rightarrow> (addr \<Rightarrow> itemMem) \<Rightarrow> vfiles
     \<Rightarrow> (string \<Rightarrow> raw_config option) \<Rightarrow> (string \<Rightarrow> rules option) \<Rightarrow> string \<Rightarrow> string \<Rightarrow> srv option
     \<Rightarrow> srv option go" where
  "startOrReload keyPair parse mems fs decodeSrv decodeRules srvFile rulesFile server = do {
     conf \<leftarrow> loadServerConf decodeSrv srvFile srvFile;
     (case conf of
        Inl _ \<Rightarrow> Some server
      | Inr cfg \<Rightarrow>
          (case loadCacheRules decodeRules rulesFile of
             None \<Rightarrow> Some server
           | Some rs \<Rightarrow>
               let cfg1 = cfg\<lparr>sc_Handler := map_option (\<lambda>hc. hc\<lparr>CacheRules := rs\<rparr>) (sc_Handler cfg)\<rparr> in
               case server of
                 Some s \<Rightarrow> map_option Some (srv_Reload keyPair parse cfg1 s)
               | None \<Rightarrow> map_option Some (srv_New keyPair parse mems fs cfg1)))
   }"

section \<open>What starting and reloading do\<close>

text \<open>
  C22. A server that was started cannot be reloaded: with any configuration that can be loaded,
  the second \<open>startOrReload\<close> panics, because the certificates are reloaded from the kept
  configuration, which has none.
\<close>

theorem reload_panics:
  assumes "startOrReload keyPair parse mems fs decodeSrv decodeRules f1 f2 None = Some (Some s)"
    and "loadServerConf decodeSrv' g1 g1 = Some (Inr cfg)" "loadCacheRules decodeRules' g2 = Some rs"
  shows "startOrReload keyPair parse mems fs decodeSrv' decodeRules' g1 g2 (Some s) = None"
proof -
  have "sc_Certs (sv_cfg s) = None"
    using assms(1) by (auto simp: startOrReload_def srv_New_def Let_def split: Option.bind_splits sum.splits option.splits)
  then show ?thesis using assms(2,3)
    by (simp add: startOrReload_def srv_Reload_def certs_Reload_def Let_def split: Option.bind_split)
qed

definition demo_rules_file :: rules where
  "demo_rules_file = \<lparr>NoReqExt = [], NoReqPathPrefix = [], NoReqPathSuffix = [], NoReqPathContains = [],
     NoReqCookieContains = [], NoReqHeaders = [], RespHeadersBlackList = [], RespContentTypeTTL = [],
     RespContentTypeTTLString = [], RespStatusCodeTTL = [], RespStatusCodeTTLString = [], Domain = None\<rparr>"

definition demo_srv_config :: srv_config where
  "demo_srv_config = \<lparr>sc_Listen = [], sc_ListenTLS = [], sc_Reuse = False, sc_Certs = Some
     \<lparr>cc_CA = [], cc_Email = [], cc_PEM = [], cc_EtcdEndpoints = [], cc_AltHTTPPort = 80, cc_AltTLSALPNPort = 443\<rparr>,
     sc_Handler = Some \<lparr>BackendHost = [], BackendPort = [], BackendTLSHost = [], BackendTLSPort = [],
       BackendOnce = False, DomainSuffix = [], RateLimit = 0, ReqRemoveHeaders = [], RespRemoveHeaders = [],
       CustomTags = [], CacheRules = demo_rules_file, Cache = None\<rparr>, sc_Debug = False\<rparr>"

definition demo_srv_files :: vfiles where
  "demo_srv_files = (\<lambda>_. \<lparr>vf_ttl = 0, vf_expireAt = 0, vf_no = 0, vf_w = False, vf_r = False,
     vf_size = 0, vf_autoExpire = 0, vf_file = [], vf_linked = False\<rparr>)"

theorem reload_panics_witness:
  "\<exists>s. startOrReload (\<lambda>_. None) (\<lambda>_. None) (\<lambda>_. new_itemMem 0) demo_srv_files (\<lambda>_. Some \<lparr>rc_srv = demo_srv_config, rc_ttls = Some (''0'', ''0'')\<rparr>)
      (\<lambda>_. Some demo_rules_file) [] [] None = Some (Some s) \<and>
    startOrReload (\<lambda>_. None) (\<lambda>_. None) (\<lambda>_. new_itemMem 0) demo_srv_files (\<lambda>_. Some \<lparr>rc_srv = demo_srv_config, rc_ttls = Some (''0'', ''0'')\<rparr>)
      (\<lambda>_. Some demo_rules_file) [] [] (Some s) = None"
proof -
  let ?d = "\<lambda>_ :: string. Some \<lparr>rc_srv = demo_srv_config, rc_ttls = Some (''0'', ''0'')\<rparr>"
  have "ParseDuration ''0'' = Inr 0" by code_simp
  then obtain cfg where c: "loadServerConf ?d [] [] = Some (Inr cfg)" "sc_Certs cfg \<noteq> None" "\<exists>hc. sc_Handler cfg = Some hc \<and> Cache hc \<noteq> None"
    by (simp add: loadServerConf_def demo_srv_config_def)
  obtain rs where r: "loadCacheRules (\<lambda>_. Some demo_rules_file) [] = Some rs" by (simp add: loadCacheRules_def)
  obtain cc where cc: "sc_Certs cfg = Some cc" "cc_PEM cc = []"
    using c(1) \<open>ParseDuration ''0'' = Inr 0\<close> by (auto simp: loadServerConf_def demo_srv_config_def)
  obtain s where s: "startOrReload (\<lambda>_. None) (\<lambda>_. None) (\<lambda>_. new_itemMem 0) demo_srv_files ?d (\<lambda>_. Some demo_rules_file) [] [] None
      = Some (Some s)"
    using c r cc by (auto simp: startOrReload_def srv_New_def handler_New_def certs_New_def certs_Reload_def Let_def
        split: option.splits)
  from reload_panics [OF s c(1) r] s show ?thesis by blast
qed

end
