(* ===== verification/Server_Listen.thy ===== *)
theory Server_Listen
  imports Server
begin

text \<open>
  The network side of \<open>httpsrv/httpsrv.go\<close> and \<open>main.go\<close>: the settings of the HTTP server and of
  TLS, the deadlines of the connections, and the goroutines that listen. Whether a socket can
  be opened, and when serving ends, is up to the system.
\<close>

section \<open>Settings\<close>

definition connStateAddActiveTimeout :: duration where "connStateAddActiveTimeout = 90 * Second"
definition connStateAddIdleNewTimeout :: duration where "connStateAddIdleNewTimeout = 5 * Second"
definition readTimeout :: duration where "readTimeout = 90 * Second"
definition writeTimeout :: duration where "writeTimeout = 90 * Second"
definition idleTimeout :: duration where "idleTimeout = 90 * Second"
definition readHeaderTimeout :: duration where "readHeaderTimeout = 10 * Second"

record http_server =
  hs_ReadHeaderTimeout :: duration
  hs_ReadTimeout :: duration
  hs_WriteTimeout :: duration
  hs_IdleTimeout :: duration

definition srv_http :: http_server where
  "srv_http = \<lparr>hs_ReadHeaderTimeout = readHeaderTimeout, hs_ReadTimeout = readTimeout,
     hs_WriteTimeout = writeTimeout, hs_IdleTimeout = idleTimeout\<rparr>"

text \<open>The hook \<open>ConnState\<close>: the read deadline that it sets, if any.\<close>

datatype conn_state = StateNew | StateActive | StateIdle | StateHijacked | StateClosed

definition srv_ConnState :: "time \<Rightarrow> conn_state \<Rightarrow> time option" where
  "srv_ConnState now cs =
     (case cs of
        StateIdle \<Rightarrow> Some (now + connStateAddIdleNewTimeout)
      | StateNew \<Rightarrow> Some (now + connStateAddIdleNewTimeout)
      | StateActive \<Rightarrow> Some (now + connStateAddActiveTimeout)
      | _ \<Rightarrow> None)"

text \<open>
  What \<open>net/http\<close> does with the read deadline between two requests of a connection: it calls the
  hook, and then sets its own deadline, or none when it has no idle timeout.
\<close>

definition keepalive_deadline :: "http_server \<Rightarrow> (time \<Rightarrow> conn_state \<Rightarrow> time option) \<Rightarrow> time \<Rightarrow> time option" where
  "keepalive_deadline srv hook now =
     (let d = hook now StateIdle in
      if hs_IdleTimeout srv \<noteq> 0 then Some (now + hs_IdleTimeout srv) else None)"

text \<open>The five seconds for idle connections never apply.\<close>

lemma idle_deadline_overwritten:
  "keepalive_deadline srv_http srv_ConnState now = Some (now + 90 * Second)"
  by (simp add: keepalive_deadline_def srv_http_def idleTimeout_def Second_def)

text \<open>
  The TLS settings: those of the ACME client, with the cipher suites in the order that the
  processor prefers. Any other setting of the ACME client is dropped.
\<close>

record tls_config =
  tc_MinVersion :: int
  tc_NextProtos :: "string list"
  tc_PreferServerCipherSuites :: bool
  tc_CurvePreferences :: "int list"
  tc_CipherSuites :: "cipher list"
  tc_ClientSessionCache :: bool

definition certs_TLSConfig :: "bool \<Rightarrow> tls_config \<Rightarrow> tls_config" where
  "certs_TLSConfig aesni acme = acme\<lparr>tc_CipherSuites := preferredDefaultCipherSuites aesni\<rparr>"

definition srv_tlsCfg :: "bool \<Rightarrow> tls_config \<Rightarrow> tls_config" where
  "srv_tlsCfg aesni acme =
     (let c = certs_TLSConfig aesni acme in
      \<lparr>tc_MinVersion = tc_MinVersion c, tc_NextProtos = tc_NextProtos c,
       tc_PreferServerCipherSuites = tc_PreferServerCipherSuites c, tc_CurvePreferences = tc_CurvePreferences c,
       tc_CipherSuites = tc_CipherSuites c, tc_ClientSessionCache = tc_ClientSessionCache c\<rparr>)"

text \<open>Both orders of the suites prefer those with forward secrecy and put 3DES, if at all, last.\<close>

definition forward_secret :: "cipher \<Rightarrow> bool" where
  "forward_secret c \<longleftrightarrow> c \<in> {ECDHE_ECDSA_AES_256_GCM_SHA384, ECDHE_RSA_AES_256_GCM_SHA384,
     ECDHE_ECDSA_AES_128_GCM_SHA256, ECDHE_RSA_AES_128_GCM_SHA256, ECDHE_ECDSA_CHACHA20_POLY1305, ECDHE_RSA_CHACHA20_POLY1305}"

lemma suites_forward_secret_first:
  "sorted_wrt (\<lambda>c d. forward_secret d \<longrightarrow> forward_secret c) (tc_CipherSuites (srv_tlsCfg aesni acme))"
  "distinct (tc_CipherSuites (srv_tlsCfg aesni acme))"
  by (cases aesni; simp add: srv_tlsCfg_def certs_TLSConfig_def preferredDefaultCipherSuites_def
      defaultCiphersPreferAES_def defaultCiphersPreferChaCha_def forward_secret_def Let_def)+

section \<open>Listening\<close>

type_synonym socket = "string \<times> bool \<times> bool"

text \<open>
  The goroutines that \<open>Listen\<close> has started and that have not run yet, the list \<open>openSockets\<close>, the
  sockets that could not be opened, those being served, the signals in the channel \<open>done\<close>, and
  whether \<open>Listen\<close> has returned.
\<close>

record srv_run =
  sr_todo :: "socket multiset"
  sr_open :: "socket list"
  sr_failed :: "socket multiset"
  sr_serving :: "socket multiset"
  sr_done :: nat
  sr_returned :: bool

definition srv_run_start :: "nat \<Rightarrow> srv_config \<Rightarrow> srv_run" where
  "srv_run_start numCPU cfg = \<lparr>sr_todo = mset (srv_Listen numCPU cfg), sr_open = [], sr_failed = {#},
     sr_serving = {#}, sr_done = 0, sr_returned = False\<rparr>"

text \<open>\<open>runListen\<close> and \<open>runListenTLS\<close> up to \<open>Serve\<close>, with the outcome of opening the socket.\<close>

definition runListen :: "bool \<Rightarrow> socket \<Rightarrow> srv_run \<Rightarrow> srv_run" where
  "runListen ok p s =
     (if ok then s\<lparr>sr_open := sr_open s @ [p], sr_serving := add_mset p (sr_serving s)\<rparr>
      else s\<lparr>sr_failed := add_mset p (sr_failed s)\<rparr>)"

text \<open>The end of \<open>Listen\<close>: it waits for a signal and closes the sockets. \<open>None\<close>: it waits.\<close>

definition srv_wait_done :: "srv_run \<Rightarrow> srv_run option" where
  "srv_wait_done s =
     (if sr_done s = 0 then None
      else Some (s\<lparr>sr_done := sr_done s - 1, sr_open := [], sr_returned := True\<rparr>))"

inductive srv_step :: "srv_run \<Rightarrow> srv_run \<Rightarrow> bool" where
  srv_go: "p \<in># sr_todo s \<Longrightarrow> srv_step s (runListen ok p (s\<lparr>sr_todo := sr_todo s - {#p#}\<rparr>))"
| srv_serve_ends: "p \<in># sr_serving s \<Longrightarrow> srv_step s (s\<lparr>sr_serving := sr_serving s - {#p#}\<rparr>)"
| srv_done: "srv_wait_done s = Some s' \<Longrightarrow> srv_step s s'"

lemma mset_srv_Listen:
  "mset (srv_Listen numCPU cfg) =
    repeat_mset (if sc_Reuse cfg then numCPU + 1 else 1) (mset (srv_sockets cfg (sc_Reuse cfg)))"
proof -
  have "mset (concat (map (\<lambda>i. xs) [0..<n])) = repeat_mset n (mset xs)" for n and xs :: "'a list"
    by (induction n) (simp_all add: ac_simps)
  then have "mset (concat (map (\<lambda>i. srv_sockets cfg True) [0..<numCPU + 1]))
      = repeat_mset (numCPU + 1) (mset (srv_sockets cfg True))" .
  then show ?thesis by (cases "sc_Reuse cfg") (simp_all only: srv_Listen_def if_True if_False, simp)
qed

text \<open>
  \<open>Listen\<close> never returns and never closes a socket, since nothing signals \<open>done\<close>. Every address
  of the configuration is opened, has failed or is still to be opened, exactly once, and when
  ports are shared once more often than there are processors; that all of them fail makes no
  difference.
\<close>

theorem listen_never_returns:
  assumes "srv_step\<^sup>*\<^sup>* (srv_run_start numCPU cfg) s"
  shows "\<not> sr_returned s \<and> srv_wait_done s = None \<and>
    mset (sr_open s) + sr_failed s + sr_todo s
      = repeat_mset (if sc_Reuse cfg then numCPU + 1 else 1) (mset (srv_sockets cfg (sc_Reuse cfg)))"
proof -
  have "\<not> sr_returned s \<and> sr_done s = 0 \<and> mset (sr_open s) + sr_failed s + sr_todo s = mset (srv_Listen numCPU cfg)"
    using assms
  proof (induction rule: rtranclp_induct)
    case base
    show ?case by (simp add: srv_run_start_def)
  next
    case (step y z)
    from step.hyps(2) step.IH show ?case
    proof induction
      case (srv_go p s ok)
      define rest where "rest = sr_todo s - {#p#}"
      have "sr_todo s = add_mset p rest" using srv_go(1) by (simp add: rest_def)
      then show ?case using srv_go(2) unfolding rest_def [symmetric] by (cases ok) (simp_all add: runListen_def)
    qed (auto simp: srv_wait_done_def split: if_splits)
  qed
  then show ?thesis by (simp add: srv_wait_done_def mset_srv_Listen)
qed

theorem listen_never_returns_witness:
  "\<exists>s. srv_step\<^sup>*\<^sup>* (srv_run_start 2 (demo_srv_config\<lparr>sc_Listen := ['':80''], sc_Reuse := True\<rparr>)) s \<and>
     sr_failed s = {#('':80'', False, True)#} \<and> mset (sr_open s) + sr_todo s = {#('':80'', False, True), ('':80'', False, True)#}"
proof -
  let ?cfg = "demo_srv_config\<lparr>sc_Listen := ['':80''], sc_Reuse := True\<rparr>" and ?p = "('':80'', False, True)"
  let ?start = "srv_run_start 2 ?cfg"
  have t: "sr_todo ?start = {#?p, ?p, ?p#}" "sr_failed ?start = {#}"
    by (simp_all add: srv_run_start_def srv_Listen_def srv_sockets_def demo_srv_config_def numeral_2_eq_2)
  let ?s = "runListen False ?p (?start\<lparr>sr_todo := sr_todo ?start - {#?p#}\<rparr>)"
  have "srv_step ?start ?s" using srv_go [of ?p ?start False] t(1) by simp
  then have r: "srv_step\<^sup>*\<^sup>* ?start ?s" by (rule r_into_rtranclp)
  have f: "sr_failed ?s = {#?p#}" by (simp add: runListen_def t)
  have "mset (sr_open ?s) + sr_failed ?s + sr_todo ?s = {#?p, ?p, ?p#}"
    using listen_never_returns [OF r] by (simp add: srv_sockets_def demo_srv_config_def numeral_3_eq_3)
  then have "mset (sr_open ?s) + sr_todo ?s = {#?p, ?p#}" unfolding f by simp
  then show ?thesis using r f by blast
qed

section \<open>main\<close>

text \<open>
  The flags, and the servers beside the proxy that \<open>main\<close> starts. They serve the default mux of
  \<open>net/http\<close>, where the import of \<open>net/http/pprof\<close> has registered the profiler.
\<close>

record main_flags =
  mf_server :: string
  mf_cache :: string
  mf_pprof :: bool
  mf_prometheusport :: string

definition main_defaults :: main_flags where
  "main_defaults = \<lparr>mf_server = ''server.conf'', mf_cache = ''cache.conf'', mf_pprof = False,
     mf_prometheusport = '':2112''\<rparr>"

definition pprof_routes :: "string list" where
  "pprof_routes = [''/debug/pprof/'', ''/debug/pprof/cmdline'', ''/debug/pprof/profile'',
     ''/debug/pprof/symbol'', ''/debug/pprof/trace'']"

definition main_mux :: "main_flags \<Rightarrow> string list" where
  "main_mux f = pprof_routes @ (if mf_prometheusport f \<noteq> ''false'' then [''/metrics''] else [])"

definition main_listens :: "main_flags \<Rightarrow> string list" where
  "main_listens f =
     (if mf_pprof f then ['':6060''] else []) @
     (if mf_prometheusport f \<noteq> ''false'' then [mf_prometheusport f] else [])"

definition main ::
  "(pemCert \<Rightarrow> certificate option) \<Rightarrow> (byte list \<Rightarrow> leaf option) \<Rightarrow> (addr \<Rightarrow> itemMem) \<Rightarrow> vfiles
     \<Rightarrow> (string \<Rightarrow> raw_config option) \<Rightarrow> (string \<Rightarrow> rules option) \<Rightarrow> main_flags
     \<Rightarrow> (string \<times> string) list \<times> srv option go" where
  "main keyPair parse mems fs decodeSrv decodeRules f =
     (List.product (main_listens f) (main_mux f),
      startOrReload keyPair parse mems fs decodeSrv decodeRules (mf_server f) (mf_cache f) None)"

text \<open>The profiler is served on the port of the metrics, whatever the flag \<open>pprof\<close> says.\<close>

lemma profiler_on_metrics_port:
  "mf_prometheusport f \<noteq> ''false'' \<Longrightarrow>
     (mf_prometheusport f, ''/debug/pprof/'') \<in> set (fst (main keyPair parse mems fs decodeSrv decodeRules f))"
  by (simp add: main_def main_listens_def main_mux_def pprof_routes_def)

end
