(* ===== verification/Singleflight.thy ===== *)
theory Singleflight
  imports Prelude
begin

text \<open>
  What the program uses of \<open>golang.org/x/sync/singleflight\<close>. A call of \<open>Do\<close> or \<open>DoChan\<close> with a key
  starts to run its function, unless another call with this key is running: then it joins that
  one and gets its result. The group is a parameter, of which \<open>singleflight_documented\<close> says what
  the documentation does: \<open>call\<close> reads off the group the call that the next one with a key would
  join. Calls have numbers, which the caller chooses.
\<close>

record 'g singleflight =
  sf_new :: 'g
  sf_Do :: "nat \<Rightarrow> string \<Rightarrow> 'g \<Rightarrow> nat \<times> 'g"
  sf_end :: "nat \<Rightarrow> string \<Rightarrow> 'g \<Rightarrow> 'g"
  sf_Forget :: "string \<Rightarrow> 'g \<Rightarrow> 'g"

definition singleflight_documented :: "'g singleflight \<Rightarrow> ('g \<Rightarrow> string \<Rightarrow> nat option) \<Rightarrow> bool" where
  "singleflight_documented S call \<longleftrightarrow>
     (\<forall>k. call (sf_new S) k = None) \<and>
     (\<forall>c k g. call g k = None \<longrightarrow> (\<exists>g'. sf_Do S c k g = (c, g') \<and> call g' = (call g)(k \<mapsto> c))) \<and>
     (\<forall>c k g d. call g k = Some d \<longrightarrow> (\<exists>g'. sf_Do S c k g = (d, g') \<and> call g' = call g)) \<and>
     (\<forall>c k g. call (sf_end S c k g) = (if call g k = Some c then (call g)(k := None) else call g)) \<and>
     (\<forall>k g. call (sf_Forget S k g) = (call g)(k := None))"

lemma singleflightD:
  assumes "singleflight_documented S call"
  shows sf_call_new: "call (sf_new S) k = None"
    and sf_call_end: "call (sf_end S c k g) = (if call g k = Some c then (call g)(k := None) else call g)"
    and sf_call_Forget: "call (sf_Forget S k g) = (call g)(k := None)"
    and sf_Do_first: "call g k = None \<Longrightarrow> \<exists>g'. sf_Do S c k g = (c, g') \<and> call g' = (call g)(k \<mapsto> c)"
    and sf_Do_joins: "call g k = Some d \<Longrightarrow> \<exists>g'. sf_Do S c k g = (d, g') \<and> call g' = call g"
  using assms by (auto simp: singleflight_documented_def)

lemma sf_Do_cases:
  assumes "singleflight_documented S call" "sf_Do S c k g = (d, g')"
  obtains (first) "call g k = None" "d = c" "call g' = (call g)(k \<mapsto> c)"
  | (joins) "call g k = Some d" "call g' = call g"
  using sf_Do_first [OF assms(1), of g k c] sf_Do_joins [OF assms(1), of g k _ c] assms(2)
  by (cases "call g k") auto

text \<open>A map from keys to the calls that run is such a group.\<close>

definition sf_map :: "(string \<Rightarrow> nat option) singleflight" where
  "sf_map = \<lparr>sf_new = Map.empty,
     sf_Do = (\<lambda>c k g. case g k of None \<Rightarrow> (c, g(k \<mapsto> c)) | Some d \<Rightarrow> (d, g)),
     sf_end = (\<lambda>c k g. if g k = Some c then g(k := None) else g),
     sf_Forget = (\<lambda>k g. g(k := None))\<rparr>"

lemma sf_map_documented: "singleflight_documented sf_map (\<lambda>g. g)"
  by (simp add: singleflight_documented_def sf_map_def)

end
