(* ===== verification/Handler_Flight.thy ===== *)
theory Handler_Flight
  imports Handler_Serve_Props Singleflight
begin

text \<open>
  Many requests at once (\<open>Handler.ServeHTTP\<close>): each is at some point of the handler, and they take
  their steps in any order, over one handler and one \<open>singleflight\<close> group. One step is what a
  request does between two points at which it waits: the answer from the cache, joining a
  flight, a result or the end of a minute, the whole way through the reverse proxy. A flight is
  a goroutine of its own, which goes through the reverse proxy for the request that started it.

  The requests, the writers of their responses, the classes of user agents and the hash are
  fixed; everything else that a step depends on outside the program may differ from step to step.
\<close>

record traffic =
  tr_req :: "nat \<Rightarrow> http_request"
  tr_writer :: "nat \<Rightarrow> resp_writer"
  tr_ua :: "string \<Rightarrow> int"
  tr_hash :: "string \<Rightarrow> u64"

definition tr_log :: "traffic \<Rightarrow> nat \<Rightarrow> httpLog" where
  "tr_log T q = httplog_New (tr_ua T) (tr_req T q) (tr_writer T q)"

definition tr_keyStr :: "traffic \<Rightarrow> nat \<Rightarrow> string" where
  "tr_keyStr T q = GetKeyStr (tr_log T q)"

definition tr_key :: "traffic \<Rightarrow> nat \<Rightarrow> u64" where
  "tr_key T q = tr_hash T (tr_keyStr T q)"

definition tr_env :: "traffic \<Rightarrow> serve_env \<Rightarrow> bool" where
  "tr_env T ev \<longleftrightarrow> se_ua ev = tr_ua T \<and> se_hash ev = tr_hash T"

text \<open>
  Where a request is: it has not come yet; it missed the cache and comes to \<open>DoChan\<close>; it started
  a flight and waits for it, for the first minute or the second; it waits for the flight of
  another request; that has ended; it goes to the backend itself, as cachable or not; it is over.
\<close>

datatype turn =
  T_new | T_do | T_own | T_own_second | T_wait nat | T_again | T_direct bool | T_over

datatype call_state = Call_none | Call_runs | Call_ended | Call_panicked

text \<open>
  \<open>ft_call q\<close> is the flight that request \<open>q\<close> started. \<open>ft_forgets\<close> counts, for each key, the requests
  that waited a minute for their own flight; no part of the program knows it. \<open>ft_crashed\<close>: the
  process has ended.
\<close>

record 'g flights =
  ft_h :: handler
  ft_group :: 'g
  ft_turn :: "nat \<Rightarrow> turn"
  ft_call :: "nat \<Rightarrow> call_state"
  ft_w :: "nat \<Rightarrow> httpLog"
  ft_forgets :: "string \<Rightarrow> nat"
  ft_crashed :: bool

definition flights_start :: "'g singleflight \<Rightarrow> traffic \<Rightarrow> handler \<Rightarrow> 'g flights" where
  "flights_start S T h = \<lparr>ft_h = h, ft_group = sf_new S, ft_turn = (\<lambda>_. T_new), ft_call = (\<lambda>_. Call_none),
     ft_w = tr_log T, ft_forgets = (\<lambda>_. 0), ft_crashed = False\<rparr>"

section \<open>What a request does in one step\<close>

definition ft_goto :: "nat \<Rightarrow> turn \<Rightarrow> httpLog \<Rightarrow> handler \<Rightarrow> 'g flights \<Rightarrow> 'g flights" where
  "ft_goto q t w h s = s\<lparr>ft_h := h, ft_turn := (ft_turn s)(q := t), ft_w := (ft_w s)(q := w)\<rparr>"

text \<open>\<open>ServeHTTP\<close> returns, or panics, which \<open>net/http\<close> recovers: the deferred \<open>Done\<close> runs.\<close>

definition ft_over :: "nat \<Rightarrow> httpLog \<Rightarrow> handler \<Rightarrow> 'g flights \<Rightarrow> 'g flights" where
  "ft_over q w h s = ft_goto q T_over w (h\<lparr>hd_log := hl_Done (hd_log h) w\<rparr>) s"

text \<open>The answer from the cache; without one the request goes on at \<open>t\<close>. \<open>None\<close>: it hangs.\<close>

definition ft_cache :: "traffic \<Rightarrow> serve_env \<Rightarrow> nat \<Rightarrow> turn \<Rightarrow> httpLog \<Rightarrow> 'g flights \<Rightarrow> 'g flights option" where
  "ft_cache T ev q t w s =
     (let h = ft_h s in
      case respondFromCache (hd_cfg h) (se_open_ok ev) (se_now ev) (tr_key T q) (tr_req T q) w (hd_cache h) of
        (Returns True, w', c) \<Rightarrow> Some (ft_over q (w'\<lparr>hl_HIT := True\<rparr>) (h\<lparr>hd_cache := c\<rparr>) s)
      | (Returns False, w', c) \<Rightarrow> Some (ft_goto q t w' (h\<lparr>hd_cache := c\<rparr>) s)
      | (Panics, w', c) \<Rightarrow> Some (ft_over q w' (h\<lparr>hd_cache := c\<rparr>) s)
      | _ \<Rightarrow> None)"

definition ft_arrives :: "traffic \<Rightarrow> serve_env \<Rightarrow> nat \<Rightarrow> 'g flights \<Rightarrow> 'g flights option" where
  "ft_arrives T ev q s =
     (let hl = tr_log T q; h = ft_h s in
      case request_rules (hd_rules h) (tr_req T q) of
        (False, isRefreshable) \<Rightarrow>
          Some (ft_goto q (T_direct False) hl
            (if isRefreshable then h\<lparr>hd_cache := purge (tr_hash T) hl (hd_cache h)\<rparr> else h) s)
      | (True, _) \<Rightarrow> ft_cache T ev q (if BackendOnce (hd_cfg h) then T_do else T_direct True) hl s)"

definition ft_DoChan :: "'g singleflight \<Rightarrow> traffic \<Rightarrow> nat \<Rightarrow> 'g flights \<Rightarrow> 'g flights" where
  "ft_DoChan S T q s =
     (case sf_Do S q (tr_keyStr T q) (ft_group s) of
        (c, g) \<Rightarrow>
          if c = q then s\<lparr>ft_group := g, ft_turn := (ft_turn s)(q := T_own), ft_call := (ft_call s)(q := Call_runs)\<rparr>
          else s\<lparr>ft_group := g, ft_turn := (ft_turn s)(q := T_wait c)\<rparr>)"

text \<open>
  The flight of \<open>q\<close>. A panic of this goroutine is recovered by nobody: \<open>net/http\<close> recovers panics
  only in the goroutine that serves the request, and \<open>singleflight\<close> passes them on.
\<close>

definition ft_flight :: "'g singleflight \<Rightarrow> traffic \<Rightarrow> serve_env \<Rightarrow> nat \<Rightarrow> 'g flights \<Rightarrow> 'g flights option" where
  "ft_flight S T ev q s =
     (case proxied (reverseProxy ev True (tr_key T q) (tr_req T q) (ft_w s q) (ft_h s)) of
        (Returns _, w, h) \<Rightarrow>
          Some (s\<lparr>ft_h := h, ft_w := (ft_w s)(q := w), ft_call := (ft_call s)(q := Call_ended),
            ft_group := sf_end S q (tr_keyStr T q) (ft_group s)\<rparr>)
      | (Panics, w, h) \<Rightarrow>
          Some (s\<lparr>ft_h := h, ft_w := (ft_w s)(q := w), ft_call := (ft_call s)(q := Call_panicked), ft_crashed := True\<rparr>)
      | _ \<Rightarrow> None)"

definition ft_direct :: "traffic \<Rightarrow> serve_env \<Rightarrow> nat \<Rightarrow> bool \<Rightarrow> 'g flights \<Rightarrow> 'g flights option" where
  "ft_direct T ev q isCachable s =
     (case proxied (reverseProxy ev isCachable (tr_key T q) (tr_req T q) (ft_w s q) (ft_h s)) of
        (Returns _, w, h) \<Rightarrow> Some (ft_over q w h s)
      | (Panics, w, h) \<Rightarrow> Some (ft_over q w h s)
      | _ \<Rightarrow> None)"

text \<open>The request that waited for its own flight for a minute makes the group forget the key.\<close>

definition ft_forget :: "'g singleflight \<Rightarrow> traffic \<Rightarrow> nat \<Rightarrow> 'g flights \<Rightarrow> 'g flights" where
  "ft_forget S T q s = s\<lparr>ft_group := sf_Forget S (tr_keyStr T q) (ft_group s),
     ft_turn := (ft_turn s)(q := T_own_second),
     ft_forgets := (ft_forgets s)(tr_keyStr T q := ft_forgets s (tr_keyStr T q) + 1)\<rparr>"

text \<open>The one that waited for another writes its 502 to the writer of the server.\<close>

definition bad_gateway_502 :: "httpLog \<Rightarrow> httpLog" where
  "bad_gateway_502 w = w\<lparr>hl_w := snd (snd (rw_Write (bytes_of ''RFC 7231, 6.6.3'') (rw_WriteHeader 502 (hl_w w))))\<rparr>"

inductive flight_step :: "'g singleflight \<Rightarrow> traffic \<Rightarrow> 'g flights \<Rightarrow> 'g flights \<Rightarrow> bool" for S T where
  arrives: "\<not> ft_crashed s \<Longrightarrow> ft_turn s q = T_new \<Longrightarrow> tr_env T ev \<Longrightarrow>
    ft_arrives T ev q s = Some s' \<Longrightarrow> flight_step S T s s'"
| do_chan: "\<not> ft_crashed s \<Longrightarrow> ft_turn s q = T_do \<Longrightarrow> flight_step S T s (ft_DoChan S T q s)"
| flight: "\<not> ft_crashed s \<Longrightarrow> ft_call s q = Call_runs \<Longrightarrow> tr_env T ev \<Longrightarrow>
    ft_flight S T ev q s = Some s' \<Longrightarrow> flight_step S T s s'"
| own_result: "\<not> ft_crashed s \<Longrightarrow> ft_turn s q = T_own \<Longrightarrow> ft_call s q = Call_ended \<Longrightarrow>
    flight_step S T s (ft_over q (ft_w s q) (ft_h s) s)"
| own_minute: "\<not> ft_crashed s \<Longrightarrow> ft_turn s q = T_own \<Longrightarrow> flight_step S T s (ft_forget S T q s)"
| own_second: "\<not> ft_crashed s \<Longrightarrow> ft_turn s q = T_own_second \<Longrightarrow>
    flight_step S T s (ft_over q (ft_w s q) (ft_h s) s)"
| wait_result: "\<not> ft_crashed s \<Longrightarrow> ft_turn s q = T_wait c \<Longrightarrow> ft_call s c = Call_ended \<Longrightarrow>
    flight_step S T s (ft_goto q T_again (ft_w s q) (ft_h s) s)"
| wait_minute: "\<not> ft_crashed s \<Longrightarrow> ft_turn s q = T_wait c \<Longrightarrow>
    flight_step S T s (ft_over q (bad_gateway_502 (ft_w s q)) (ft_h s) s)"
| again: "\<not> ft_crashed s \<Longrightarrow> ft_turn s q = T_again \<Longrightarrow> tr_env T ev \<Longrightarrow>
    ft_cache T ev q (T_direct True) (ft_w s q) s = Some s' \<Longrightarrow> flight_step S T s s'"
| direct: "\<not> ft_crashed s \<Longrightarrow> ft_turn s q = T_direct isCachable \<Longrightarrow> tr_env T ev \<Longrightarrow>
    ft_direct T ev q isCachable s = Some s' \<Longrightarrow> flight_step S T s s'"

inductive_cases flight_stepE: "flight_step S T s s'"

lemmas ft_defs = ft_goto_def ft_over_def

end
