(* ===== verification/Handler_Flight_Props.thy ===== *)
theory Handler_Flight_Props
  imports Handler_Flight
begin

text \<open>
  What \<open>BackendOnce\<close> does and does not protect against, that requests come to an end, and that
  the single request of \<open>ServeHTTP\<close> is one of these.
\<close>

section \<open>The steps\<close>

lemma ft_cache_goes:
  assumes "ft_cache T ev q t w s = Some s'"
  obtains t' w' h' where "s' = ft_goto q t' w' h' s" "t' \<in> {t, T_over}"
  using assms by (auto simp: ft_cache_def Let_def ft_over_def split: prod.splits outcome.splits bool.splits)

lemma ft_arrives_goes:
  assumes "ft_arrives T ev q s = Some s'"
  obtains t' w' h' where "s' = ft_goto q t' w' h' s" "t' \<in> {T_do, T_direct True, T_direct False, T_over}"
proof (cases "request_rules (hd_rules (ft_h s)) (tr_req T q)")
  case (Pair ok refresh)
  show ?thesis
  proof (cases ok)
    case True
    then have "ft_cache T ev q (if BackendOnce (hd_cfg (ft_h s)) then T_do else T_direct True) (tr_log T q) s = Some s'"
      using assms Pair by (simp add: ft_arrives_def Let_def)
    then obtain t w h where "s' = ft_goto q t w h s"
      "t \<in> {if BackendOnce (hd_cfg (ft_h s)) then T_do else T_direct True, T_over}" by (rule ft_cache_goes)
    then show ?thesis by (intro that [of t w h]) (auto split: if_splits)
  next
    case False
    with assms Pair have "\<exists>h. s' = ft_goto q (T_direct False) (tr_log T q) h s" by (auto simp: ft_arrives_def Let_def)
    then show ?thesis using that by blast
  qed
qed

lemma ft_direct_goes:
  assumes "ft_direct T ev q b s = Some s'"
  obtains w' h' where "s' = ft_goto q T_over w' h' s"
  using assms by (auto simp: ft_direct_def ft_over_def split: prod.splits outcome.splits)

text \<open>The steps by what they do to turns, flights and the group.\<close>

fun turn_rank :: "turn \<Rightarrow> nat" where
  "turn_rank T_new = 0" | "turn_rank T_do = 1" | "turn_rank T_own = 2" | "turn_rank (T_wait c) = 2"
| "turn_rank T_own_second = 3" | "turn_rank T_again = 3" | "turn_rank (T_direct b) = 4" | "turn_rank T_over = 5"

lemma flight_step_kinds:
  assumes "singleflight_documented S call" "flight_step S T s s'"
  obtains (goes) q t w h where "s' = ft_goto q t w h s" "turn_rank (ft_turn s q) < turn_rank t"
  | (first) q g where "ft_turn s q = T_do" "call g = (call (ft_group s))(tr_keyStr T q \<mapsto> q)"
      "call (ft_group s) (tr_keyStr T q) \<in> {None, Some q}"
      "s' = s\<lparr>ft_group := g, ft_turn := (ft_turn s)(q := T_own), ft_call := (ft_call s)(q := Call_runs)\<rparr>"
  | (joins) q c g where "ft_turn s q = T_do" "call g = call (ft_group s)"
      "s' = s\<lparr>ft_group := g, ft_turn := (ft_turn s)(q := T_wait c)\<rparr>"
  | (ends) q w h where "ft_call s q = Call_runs"
      "s' = s\<lparr>ft_h := h, ft_w := (ft_w s)(q := w), ft_call := (ft_call s)(q := Call_ended),
         ft_group := sf_end S q (tr_keyStr T q) (ft_group s)\<rparr>"
  | (panics) q w h where "ft_call s q = Call_runs"
      "s' = s\<lparr>ft_h := h, ft_w := (ft_w s)(q := w), ft_call := (ft_call s)(q := Call_panicked), ft_crashed := True\<rparr>"
  | (forgets) q where "ft_turn s q = T_own" "s' = ft_forget S T q s"
  using assms(2)
proof cases
  case (arrives q ev)
  from arrives(4) obtain t w h where "s' = ft_goto q t w h s" "t \<in> {T_do, T_direct True, T_direct False, T_over}"
    by (rule ft_arrives_goes)
  then show ?thesis using arrives(2) by (intro goes [of q t w h]) auto
next
  case (do_chan q)
  obtain c g where d: "sf_Do S q (tr_keyStr T q) (ft_group s) = (c, g)" by fastforce
  from assms(1) d show ?thesis
  proof (cases rule: sf_Do_cases)
    case first
    then show ?thesis using do_chan d that(2) [of q g] by (simp add: ft_DoChan_def)
  next
    case joins
    show ?thesis
    proof (cases "c = q")
      case True
      then have "call g = (call (ft_group s))(tr_keyStr T q \<mapsto> q)" using joins by auto
      then show ?thesis using do_chan d joins True that(2) [of q g] by (simp add: ft_DoChan_def)
    next
      case False
      then show ?thesis using do_chan d joins that(3) [of q g c] by (simp add: ft_DoChan_def)
    qed
  qed
next
  case (flight q ev)
  obtain r w h where p: "proxied (reverseProxy ev True (tr_key T q) (tr_req T q) (ft_w s q) (ft_h s)) = (r, w, h)"
    by (cases "proxied (reverseProxy ev True (tr_key T q) (tr_req T q) (ft_w s q) (ft_h s))")
  show ?thesis
  proof (cases r)
    case (Returns x)
    then show ?thesis using flight p ends [where q = q and h = h and w = w] by (simp add: ft_flight_def)
  next
    case Panics
    then show ?thesis using flight p panics [where q = q and h = h and w = w] by (simp add: ft_flight_def)
  qed (use flight p in \<open>simp_all add: ft_flight_def\<close>)
next
  case (own_result q)
  then show ?thesis by (intro goes) (auto simp: ft_over_def)
next
  case (own_minute q)
  then show ?thesis by (intro forgets)
next
  case (own_second q)
  then show ?thesis by (intro goes) (auto simp: ft_over_def)
next
  case (wait_result q c)
  then show ?thesis by (intro goes) auto
next
  case (wait_minute q c)
  then show ?thesis by (intro goes) (auto simp: ft_over_def)
next
  case (again q ev)
  from again(4) obtain t w h where "s' = ft_goto q t w h s" "t \<in> {T_direct True, T_over}"
    by (rule ft_cache_goes)
  then show ?thesis using again(2) by (intro goes [of q t w h]) auto
next
  case (direct q b ev)
  from direct(4) obtain w h where "s' = ft_goto q T_over w h s" by (rule ft_direct_goes)
  then show ?thesis using direct(2) by (intro goes [of q T_over w h]) auto
qed

section \<open>One flight per key\<close>

lemma set_option_one: "finite (set_option x)" "card (set_option x) \<le> 1"
  by (cases x; simp)+

definition flying :: "traffic \<Rightarrow> string \<Rightarrow> 'g flights \<Rightarrow> nat set" where
  "flying T k s = {q. ft_call s q = Call_runs \<and> tr_keyStr T q = k}"

text \<open>The flights that still run though the group has forgotten them.\<close>

definition astray :: "('g \<Rightarrow> string \<Rightarrow> nat option) \<Rightarrow> traffic \<Rightarrow> string \<Rightarrow> 'g flights \<Rightarrow> nat set" where
  "astray call T k s = {q \<in> flying T k s. call (ft_group s) k \<noteq> Some q}"

lemma astray_step:
  assumes "singleflight_documented S call" "flight_step S T s s'"
  shows "astray call T k s' \<subseteq> astray call T k s \<or>
    ft_forgets s' k = ft_forgets s k + 1 \<and>
      astray call T k s' \<subseteq> set_option (call (ft_group s) k) \<union> astray call T k s"
    and "ft_forgets s k \<le> ft_forgets s' k"
  using assms
proof -
  show "astray call T k s' \<subseteq> astray call T k s \<or>
    ft_forgets s' k = ft_forgets s k + 1 \<and>
      astray call T k s' \<subseteq> set_option (call (ft_group s) k) \<union> astray call T k s"
    using assms
    by (cases rule: flight_step_kinds)
      (auto simp: astray_def flying_def ft_goto_def ft_forget_def sf_call_end [OF assms(1)] sf_call_Forget [OF assms(1)]
        split: if_splits)
  show "ft_forgets s k \<le> ft_forgets s' k"
    using assms by (cases rule: flight_step_kinds) (auto simp: ft_goto_def ft_forget_def)
qed

text \<open>
  C9. With \<open>BackendOnce\<close> one flight at a time goes to the backend for a key, and one more for each
  request that has waited a minute for its own flight.
\<close>

theorem one_flight_per_key:
  assumes "singleflight_documented S call" "(flight_step S T)\<^sup>*\<^sup>* (flights_start S T h) s"
  shows "finite (flying T k s) \<and> card (flying T k s) \<le> 1 + ft_forgets s k"
proof -
  have "finite (astray call T k s) \<and> card (astray call T k s) \<le> ft_forgets s k"
    using assms(2)
  proof (induction rule: rtranclp_induct)
    case base
    then show ?case by (simp add: astray_def flying_def flights_start_def)
  next
    case (step s s')
    let ?one = "set_option (call (ft_group s) k)"
    note one = set_option_one [of "call (ft_group s) k"]
    from astray_step [OF assms(1) step.hyps(2), of k] show ?case
    proof (elim disjE conjE)
      assume "astray call T k s' \<subseteq> astray call T k s" "ft_forgets s k \<le> ft_forgets s' k"
      then show ?thesis using step.IH card_mono [of "astray call T k s" "astray call T k s'"] finite_subset by fastforce
    next
      assume f: "ft_forgets s' k = ft_forgets s k + 1" "astray call T k s' \<subseteq> ?one \<union> astray call T k s"
      have "card (astray call T k s') \<le> card (?one \<union> astray call T k s)"
        using f(2) one(1) step.IH by (intro card_mono) auto
      also have "\<dots> \<le> card ?one + card (astray call T k s)" by (rule card_Un_le)
      finally show ?thesis using f one step.IH finite_subset [OF f(2)] by simp
    qed
  qed
  moreover have sub: "flying T k s \<subseteq> set_option (call (ft_group s) k) \<union> astray call T k s"
    by (auto simp: astray_def)
  ultimately show ?thesis
    using card_mono [OF _ sub] card_Un_le [of "set_option (call (ft_group s) k)" "astray call T k s"]
      set_option_one [of "call (ft_group s) k"] finite_subset [OF sub] by fastforce
qed

section \<open>Every request comes to an end\<close>

definition call_rank :: "call_state \<Rightarrow> nat" where
  "call_rank c = (if c = Call_ended \<or> c = Call_panicked then 1 else 0)"

definition progress :: "'g flights \<Rightarrow> nat \<Rightarrow> nat" where
  "progress s q = turn_rank (ft_turn s q) + call_rank (ft_call s q)"

definition started :: "'g flights \<Rightarrow> nat set" where
  "started s = {q. ft_turn s q \<noteq> T_new}"

lemma turn_rank_new [simp]: "turn_rank t = 0 \<longleftrightarrow> t = T_new"
  by (cases t) auto

lemma turn_rank_le: "turn_rank t \<le> 5"
  by (cases t) auto

lemma progress_step:
  assumes "singleflight_documented S call" "flight_step S T s s'" "\<forall>q. ft_turn s q = T_new \<longrightarrow> ft_call s q = Call_none"
    and "\<forall>q. ft_turn s q = T_do \<longrightarrow> ft_call s q = Call_none"
  obtains q where "progress s q < progress s' q" "\<forall>p. p \<noteq> q \<longrightarrow> ft_turn s' p = ft_turn s p \<and> ft_call s' p = ft_call s p"
    "ft_turn s' q \<noteq> T_new"
    "ft_turn s' q = T_do \<longrightarrow> ft_call s' q = Call_none"
  using assms(1,2)
proof (cases rule: flight_step_kinds)
  case (goes q t w h)
  then have "t \<noteq> T_new" by auto
  moreover have "t = T_do \<longrightarrow> ft_turn s q = T_new" using goes(2) by auto
  ultimately show ?thesis using goes assms(3) by (intro that [of q]) (auto simp: ft_goto_def progress_def)
next
  case (first q g)
  then show ?thesis using assms(4) by (intro that [of q]) (auto simp: progress_def call_rank_def)
next
  case (joins q c g)
  then show ?thesis by (intro that [of q]) (auto simp: progress_def)
next
  case (ends q w h)
  then show ?thesis using assms(3,4) by (intro that [of q]) (auto simp: progress_def call_rank_def)
next
  case (panics q w h)
  then show ?thesis using assms(3,4) by (intro that [of q]) (auto simp: progress_def call_rank_def)
next
  case (forgets q)
  then show ?thesis by (intro that [of q]) (auto simp: progress_def ft_forget_def)
qed

definition turns_ok :: "'g flights \<Rightarrow> bool" where
  "turns_ok s \<longleftrightarrow> (\<forall>q. ft_turn s q = T_new \<or> ft_turn s q = T_do \<longrightarrow> ft_call s q = Call_none)"

lemma run_progress:
  assumes "singleflight_documented S call" "(flight_step S T ^^ n) (flights_start S T h) s"
  shows "turns_ok s \<and> finite (started s) \<and> n \<le> sum (progress s) (started s)"
  using assms(2)
proof (induction n arbitrary: s)
  case 0
  then show ?case by (auto simp: turns_ok_def started_def flights_start_def)
next
  case (Suc n)
  then obtain r where r: "(flight_step S T ^^ n) (flights_start S T h) r" "flight_step S T r s" by auto
  note IH = Suc.IH [OF r(1)]
  obtain q where q: "progress r q < progress s q" "\<forall>p. p \<noteq> q \<longrightarrow> ft_turn s p = ft_turn r p \<and> ft_call s p = ft_call r p"
    "ft_turn s q \<noteq> T_new" "ft_turn s q = T_do \<longrightarrow> ft_call s q = Call_none"
    using progress_step [OF assms(1) r(2)] IH unfolding turns_ok_def by blast
  have st: "started s = insert q (started r)" using q(2,3) by (auto simp: started_def)
  have zero: "progress r p = 0" if "p \<notin> started r" for p
    using that IH by (auto simp: started_def turns_ok_def progress_def call_rank_def)
  have "sum (progress r) (started r) = sum (progress r) (started s)"
    using IH zero by (intro sum.mono_neutral_left) (auto simp: st)
  also have "\<dots> < sum (progress s) (started s)"
    using IH q(1,2) st by (intro sum_strict_mono_ex1) (auto simp: progress_def intro: less_imp_le)
  finally have "Suc n \<le> sum (progress s) (started s)" using IH by simp
  moreover have "turns_ok s" using IH q(2-4) unfolding turns_ok_def by metis
  ultimately show ?case using IH st by simp
qed

lemma ft_goto_simps [simp]:
  "ft_h (ft_goto q t w h s) = h" "ft_turn (ft_goto q t w h s) = (ft_turn s)(q := t)" "ft_w (ft_goto q t w h s) = (ft_w s)(q := w)"
  "ft_call (ft_goto q t w h s) = ft_call s" "ft_group (ft_goto q t w h s) = ft_group s"
  "ft_forgets (ft_goto q t w h s) = ft_forgets s" "ft_crashed (ft_goto q t w h s) = ft_crashed s"
  by (simp_all add: ft_goto_def)

lemma over_reached:
  assumes "(flight_step S T)\<^sup>*\<^sup>* s (ft_over q w h r)"
  shows "\<exists>s'. (flight_step S T)\<^sup>*\<^sup>* s s' \<and> ft_turn s' q = T_over \<and> ft_w s' q = w \<and>
    ft_h s' = h\<lparr>hd_log := hl_Done (hd_log h) w\<rparr>"
  using assms by (intro exI [of _ "ft_over q w h r"] conjI) (simp_all add: ft_over_def)

lemma steps_over:
  assumes "flight_step S T s s1" "flight_step S T s1 s2"
  shows "(flight_step S T)\<^sup>*\<^sup>* s s2"
  using assms by (rule converse_rtranclp_into_rtranclp [where r = "flight_step S T", OF _ r_into_rtranclp [where r = "flight_step S T"]])


section \<open>The request of \<open>ServeHTTP\<close>\<close>

lemma logged_Returns:
  assumes "logged res = (Returns (), w, h)"
  obtains h0 where "res = (Returns (), w, h0)" "h = h0\<lparr>hd_log := hl_Done (hd_log h0) w\<rparr>"
  using assms by (cases res) (auto simp: logged_def)

lemma direct_run:
  assumes "\<not> ft_crashed s" "ft_turn s q = T_direct b" "tr_env T ev"
    and "proxied (reverseProxy ev b (tr_key T q) (tr_req T q) (ft_w s q) (ft_h s)) = (Returns (), w, h)"
  shows "flight_step S T s (ft_over q w h s)"
  by (rule direct [OF assms(1-3)]) (simp add: ft_direct_def assms(4))

lemma flight_run:
  assumes "singleflight_documented S call" "\<not> ft_crashed s" "ft_turn s q = T_do" "tr_env T ev"
    and "call (ft_group s) (tr_keyStr T q) = None"
    and "proxied (reverseProxy ev True (tr_key T q) (tr_req T q) (ft_w s q) (ft_h s)) = (Returns (), w, h)"
  shows "\<exists>s'. (flight_step S T)\<^sup>*\<^sup>* s s' \<and> ft_turn s' q = T_over \<and> ft_w s' q = w \<and>
    ft_h s' = h\<lparr>hd_log := hl_Done (hd_log h) w\<rparr>"
proof -
  obtain g where g: "sf_Do S q (tr_keyStr T q) (ft_group s) = (q, g)"
    using sf_Do_first [OF assms(1,5)] by blast
  define s1 where "s1 = ft_DoChan S T q s"
  have s1: "ft_h s1 = ft_h s" "ft_w s1 = ft_w s" "ft_turn s1 q = T_own" "ft_call s1 q = Call_runs" "\<not> ft_crashed s1"
    using g assms(2) by (simp_all add: s1_def ft_DoChan_def)
  define s2 where "s2 = s1\<lparr>ft_h := h, ft_w := (ft_w s1)(q := w), ft_call := (ft_call s1)(q := Call_ended),
    ft_group := sf_end S q (tr_keyStr T q) (ft_group s1)\<rparr>"
  have "flight_step S T s1 s2"
    by (rule flight [OF s1(5,4) assms(4)]) (use assms(6) s1(1,2) in \<open>simp add: ft_flight_def s2_def\<close>)
  moreover have "flight_step S T s s1" unfolding s1_def by (rule do_chan [OF assms(2,3)])
  moreover have "flight_step S T s2 (ft_over q (ft_w s2 q) (ft_h s2) s2)"
    by (rule own_result) (use s1 in \<open>simp_all add: s2_def\<close>)
  ultimately have "(flight_step S T)\<^sup>*\<^sup>* s (ft_over q (ft_w s2 q) (ft_h s2) s2)"
    using converse_rtranclp_into_rtranclp [where r = "flight_step S T", OF _ steps_over] by blast
  from over_reached [OF this] show ?thesis by (simp add: s2_def)
qed

lemma arrives_cachable:
  assumes "\<not> ft_crashed s" "ft_turn s q = T_new" "tr_env T ev" "request_rules (hd_rules (ft_h s)) (tr_req T q) = (True, refresh)"
    and "ft_cache T ev q (if BackendOnce (hd_cfg (ft_h s)) then T_do else T_direct True) (tr_log T q) s = Some s'"
  shows "flight_step S T s s'"
  by (rule arrives [OF assms(1-3)]) (simp add: ft_arrives_def Let_def assms(4,5))


text \<open>
  Likewise a request that has waited: when the flight it waited for has ended, it goes on with the
  handler as it is then.
\<close>

lemma waited_implements_ServeHTTP:
  assumes "\<not> ft_crashed s" "tr_env T ev" "ft_turn s q = T_again"
    and "request_rules (hd_rules h0) (tr_req T q) = (True, refresh)" "BackendOnce (hd_cfg h0)"
    and "respondFromCache (hd_cfg h0) (se_open_ok ev) (se_now ev) (tr_key T q) (tr_req T q) (tr_log T q) (hd_cache h0)
      = (Returns False, ft_w s q, c0)"
    and "ServeHTTP ev (Waited (ft_h s)) (tr_req T q) (tr_writer T q) h0 = (Returns (), w, h)"
  shows "\<exists>s'. (flight_step S T)\<^sup>*\<^sup>* s s' \<and> ft_turn s' q = T_over \<and> ft_w s' q = w \<and> ft_h s' = h"
proof -
  have key: "se_hash ev (GetKeyStr (httplog_New (se_ua ev) (tr_req T q) (tr_writer T q))) = tr_key T q"
    "httplog_New (se_ua ev) (tr_req T q) (tr_writer T q) = tr_log T q" "se_hash ev = tr_hash T"
    using assms(2) by (simp_all add: tr_env_def tr_key_def tr_keyStr_def tr_log_def)
  obtain res w1 c where f: "respondFromCache (hd_cfg (ft_h s)) (se_open_ok ev) (se_now ev) (tr_key T q) (tr_req T q)
      (ft_w s q) (hd_cache (ft_h s)) = (res, w1, c)" by (metis prod_cases3)
  have "logged (cached_or ev (tr_key T q) (tr_req T q) (ft_w s q) (ft_h s)
      (\<lambda>w h3. proxied (reverseProxy ev True (tr_key T q) (tr_req T q) w h3))) = (Returns (), w, h)"
    using assms(7) unfolding ServeHTTP_def Let_def key(2,3) key(1) [unfolded key(2,3)] assms(4) prod.case
    by (simp add: cached_or_def [of ev _ _ _ h0] assms(5,6))
  note serve = this [unfolded cached_or_def f prod.case]
  consider "res = Returns True" | "res = Returns False" using serve by (cases res) (auto simp: logged_def)
  then show ?thesis
  proof cases
    case 1
    have "flight_step S T s (ft_over q (w1\<lparr>hl_HIT := True\<rparr>) ((ft_h s)\<lparr>hd_cache := c\<rparr>) s)"
      by (rule again [OF assms(1,3,2)]) (simp add: ft_cache_def f 1)
    from over_reached [OF r_into_rtranclp [where r = "flight_step S T", OF this]] show ?thesis
      using serve 1 by (auto simp: logged_def)
  next
    case 2
    define s1 where "s1 = ft_goto q (T_direct True) w1 ((ft_h s)\<lparr>hd_cache := c\<rparr>) s"
    have step: "flight_step S T s s1"
      by (rule again [OF assms(1,3,2)]) (simp add: ft_cache_def f 2 s1_def)
    obtain h1 where h1: "proxied (reverseProxy ev True (tr_key T q) (tr_req T q) w1 ((ft_h s)\<lparr>hd_cache := c\<rparr>)) = (Returns (), w, h1)"
      "h = h1\<lparr>hd_log := hl_Done (hd_log h1) w\<rparr>"
      using serve 2 by (auto elim!: logged_Returns)
    have "flight_step S T s1 (ft_over q w h1 s1)"
      by (rule direct_run) (use assms(1,2) h1(1) in \<open>simp_all add: s1_def\<close>)
    then show ?thesis using over_reached [OF steps_over [OF step]] h1(2) by blast
  qed
qed

text \<open>
  A request that gives up after its second minute is over while its flight goes on, with the
  response and the log entry that the server has got back.
\<close>

lemma given_up_flight_runs:
  assumes "\<not> ft_crashed s" "ft_turn s q = T_own" "ft_call s q = Call_runs"
  shows "\<exists>s'. (flight_step S T)\<^sup>*\<^sup>* s s' \<and> ft_turn s' q = T_over \<and> ft_call s' q = Call_runs"
proof -
  define r where "r = ft_forget S T q s"
  have 1: "flight_step S T s r" unfolding r_def by (rule own_minute [OF assms(1,2)])
  have 2: "flight_step S T r (ft_over q (ft_w r q) (ft_h r) r)"
    by (rule own_second) (use assms(1) in \<open>simp_all add: r_def ft_forget_def\<close>)
  have "ft_call (ft_over q (ft_w r q) (ft_h r) r) q = Call_runs"
    "ft_turn (ft_over q (ft_w r q) (ft_h r) r) q = T_over"
    using assms(3) by (simp_all add: ft_over_def r_def ft_forget_def)
  then show ?thesis using steps_over [OF 1 2] by blast
qed

section \<open>What \<open>BackendOnce\<close> does not protect against\<close>

lemma again_miss:
  assumes "\<not> ft_crashed s" "ft_turn s q = T_again" "tr_env T ev"
    and "lsm_lookup (se_now ev) (tr_key T q) (hd_cache (ft_h s)) = Some None"
  shows "flight_step S T s (ft_goto q (T_direct True) (ft_w s q) (ft_h s) s)"
  by (rule again [OF assms(1-3)]) (simp add: ft_cache_def Let_def respondFromCache_miss [OF assms(4)])

text \<open>
  C31. When a flight has ended and left nothing in the cache, all requests that waited for it can be
  on their way to the backend at the same time, without any of them having waited too long.
\<close>

theorem waiting_requests_stampede:
  assumes "distinct qs" "\<forall>q\<in>set qs. ft_turn s q = T_wait c" "ft_call s c = Call_ended" "\<not> ft_crashed s" "tr_env T ev"
    and "\<forall>q\<in>set qs. lsm_lookup (se_now ev) (tr_key T q) (hd_cache (ft_h s)) = Some None"
  shows "\<exists>s'. (flight_step S T)\<^sup>*\<^sup>* s s' \<and> (\<forall>q\<in>set qs. ft_turn s' q = T_direct True) \<and>
    (\<forall>q. q \<notin> set qs \<longrightarrow> ft_turn s' q = ft_turn s q) \<and> ft_h s' = ft_h s \<and> ft_forgets s' = ft_forgets s"
  using assms
proof (induction qs arbitrary: s)
  case Nil
  then show ?case by auto
next
  case (Cons q qs)
  define s1 where "s1 = ft_goto q T_again (ft_w s q) (ft_h s) s"
  define s2 where "s2 = ft_goto q (T_direct True) (ft_w s1 q) (ft_h s1) s1"
  have "flight_step S T s s1" unfolding s1_def using Cons.prems by (intro wait_result) auto
  moreover have "flight_step S T s1 s2"
    unfolding s2_def by (rule again_miss [where ev = ev]) (use Cons.prems in \<open>simp_all add: s1_def\<close>)
  ultimately have run: "(flight_step S T)\<^sup>*\<^sup>* s s2" by (rule steps_over)
  have s2: "ft_turn s2 = (ft_turn s)(q := T_direct True)" "ft_call s2 = ft_call s" "ft_h s2 = ft_h s"
    "ft_crashed s2 = ft_crashed s" "ft_forgets s2 = ft_forgets s"
    by (simp_all add: s2_def s1_def)
  have "\<exists>s'. (flight_step S T)\<^sup>*\<^sup>* s2 s' \<and> (\<forall>q\<in>set qs. ft_turn s' q = T_direct True) \<and>
    (\<forall>q. q \<notin> set qs \<longrightarrow> ft_turn s' q = ft_turn s2 q) \<and> ft_h s' = ft_h s2 \<and> ft_forgets s' = ft_forgets s2"
    using Cons.prems by (intro Cons.IH) (auto simp: s2)
  then obtain s' where s': "(flight_step S T)\<^sup>*\<^sup>* s2 s'" "\<forall>q\<in>set qs. ft_turn s' q = T_direct True"
    "\<forall>q. q \<notin> set qs \<longrightarrow> ft_turn s' q = ft_turn s2 q" "ft_h s' = ft_h s2" "ft_forgets s' = ft_forgets s2" by blast
  have "(flight_step S T)\<^sup>*\<^sup>* s s'" using run s'(1) by (rule rtranclp_trans)
  then show ?case using s'(2-5) Cons.prems(1) by (intro exI [of _ s']) (auto simp: s2)
qed

lemma reverseProxy_aborted:
  assumes "se_limiter ev r (hl_Header w) = (None, hdr)" "rp_Director (hd_cfg h) b r = (uri, req)"
    and "se_backend ev uri req = Some resp" "hp_ReadErr resp"
    and "\<not> b \<or> Cache (hd_cfg h) = None \<or> \<not> snd (IsRespCachable (internalRules.truncate (hd_rules h)) (response.truncate resp))"
  shows "\<exists>w'. reverseProxy ev b key r w h = (Panics, w', h)"
  using assms by (auto simp: reverseProxy_def Let_def split: prod.split)

text \<open>
  C8. When the backend breaks off the body of a response that is not cachable, which it also seems to
  do when the client goes away, the proxy that serves the request directly loses this request
  only; in a flight the same response ends the process, and with it all other requests.
\<close>

theorem broken_response_ends_process:
  assumes "\<not> ft_crashed s" "tr_env T ev" "se_limiter ev (tr_req T q) (hl_Header (ft_w s q)) = (None, hdr)"
    and "rp_Director (hd_cfg (ft_h s)) True (tr_req T q) = (uri, req)" "se_backend ev uri req = Some resp" "hp_ReadErr resp"
    and "Cache (hd_cfg (ft_h s)) = None \<or>
      \<not> snd (IsRespCachable (internalRules.truncate (hd_rules (ft_h s))) (response.truncate resp))"
  shows "(ft_call s q = Call_runs \<longrightarrow>
      (\<exists>s'. flight_step S T s s' \<and> ft_crashed s' \<and> (\<forall>s''. \<not> flight_step S T s' s''))) \<and>
    (ft_turn s q = T_direct True \<longrightarrow>
      (\<exists>s'. flight_step S T s s' \<and> \<not> ft_crashed s' \<and> ft_turn s' q = T_over \<and> hd_cache (ft_h s') = hd_cache (ft_h s)))"
proof -
  obtain w' where p: "reverseProxy ev True (tr_key T q) (tr_req T q) (ft_w s q) (ft_h s) = (Panics, w', ft_h s)"
    using reverseProxy_aborted [OF assms(3-6), of "tr_key T q"] assms(7) by blast
  define s1 where "s1 = s\<lparr>ft_h := ft_h s, ft_w := (ft_w s)(q := w'), ft_call := (ft_call s)(q := Call_panicked), ft_crashed := True\<rparr>"
  have "flight_step S T s s1" if "ft_call s q = Call_runs"
    by (rule flight [OF assms(1) that assms(2)]) (simp add: ft_flight_def p proxied_def s1_def)
  moreover have "\<not> flight_step S T s1 s''" for s'' by (auto simp: s1_def elim: flight_stepE)
  moreover have "flight_step S T s (ft_over q w' (ft_h s) s)" if "ft_turn s q = T_direct True"
    by (rule direct [OF assms(1) that assms(2)]) (simp add: ft_direct_def p proxied_def)
  moreover have "ft_crashed s1" by (simp add: s1_def)
  moreover have "\<not> ft_crashed (ft_over q w' (ft_h s) s)" "ft_turn (ft_over q w' (ft_h s) s) q = T_over"
    "hd_cache (ft_h (ft_over q w' (ft_h s) s)) = hd_cache (ft_h s)"
    using assms(1) by (simp_all add: ft_over_def)
  ultimately show ?thesis by blast
qed

section \<open>Demonstrations\<close>

text \<open>Requests for one URL that come to a proxy with an empty cache.\<close>

definition demo_traffic :: traffic where
  "demo_traffic = \<lparr>tr_req = (\<lambda>_. demo_http_request ''/a'' []), tr_writer = (\<lambda>_. demo_writer),
     tr_ua = se_ua demo_env1, tr_hash = (\<lambda>_. 7)\<rparr>"

definition demo_once :: handler where
  "demo_once = demo_handler\<lparr>hd_rules := (hd_rules demo_handler)\<lparr>RespStatusCodeTTL := [(200, Hour)]\<rparr>,
     hd_cfg := demo_config\<lparr>BackendOnce := True\<rparr>, hd_cache := lsm_New 0 (\<lambda>_. demo_itemMem) demo_store\<rparr>"

definition demo_start_flights :: "(string \<Rightarrow> nat option) flights" where
  "demo_start_flights = flights_start sf_map demo_traffic demo_once"

definition demo_comes :: "nat \<Rightarrow> (string \<Rightarrow> nat option) flights \<Rightarrow> (string \<Rightarrow> nat option) flights" where
  "demo_comes q s = ft_DoChan sf_map demo_traffic q (ft_goto q T_do (tr_log demo_traffic q) demo_once s)"

definition demo_env_7 :: serve_env where "demo_env_7 = demo_env1\<lparr>se_hash := (\<lambda>_. 7)\<rparr>"

lemma demo_env_7: "tr_env demo_traffic (demo_env_7\<lparr>se_backend := b\<rparr>)"
  by (simp add: tr_env_def demo_env_7_def demo_traffic_def)

lemma demo_env_7_hash: "se_hash demo_env_7 = (\<lambda>_. 7)"
  by (simp add: demo_env_7_def)

lemma demo_once:
  "request_rules (hd_rules demo_once) (tr_req demo_traffic q) = (True, False)" "BackendOnce (hd_cfg demo_once)"
  "lsm_lookup now (tr_key demo_traffic q) (hd_cache demo_once) = Some None"
proof -
  have "request_rules (hd_rules demo_once) (demo_http_request ''/a'' []) = (True, False)" by code_simp
  then show "request_rules (hd_rules demo_once) (tr_req demo_traffic q) = (True, False)" by (simp add: demo_traffic_def)
qed (simp_all add: demo_once_def demo_traffic_def tr_key_def lsm_lookup_def lsm_New_def kv_Get_def
      kv_SetOnEvicted_def kv_New_def)

definition demo_url :: string where
  "demo_url = GetKeyStr (httplog_New (se_ua demo_env1) (demo_http_request ''/a'' []) demo_writer)"

lemma demo_keyStr [simp]: "tr_keyStr demo_traffic q = demo_url"
  by (simp add: tr_keyStr_def tr_log_def demo_traffic_def demo_url_def)

lemma demo_comes:
  assumes "ft_turn s q = T_new" "ft_h s = demo_once" "\<not> ft_crashed s"
  obtains s1 where "flight_step sf_map demo_traffic s s1" "flight_step sf_map demo_traffic s1 (demo_comes q s)"
proof
  have "tr_env demo_traffic demo_env_7" by (simp add: tr_env_def demo_env_7_def demo_traffic_def)
  then show "flight_step sf_map demo_traffic s (ft_goto q T_do (tr_log demo_traffic q) demo_once s)"
    using assms demo_once(1,2)
    by (intro arrives_cachable [where refresh = False and ev = demo_env_7])
      (simp_all add: ft_cache_def Let_def respondFromCache_miss [OF demo_once(3)])
  show "flight_step sf_map demo_traffic (ft_goto q T_do (tr_log demo_traffic q) demo_once s) (demo_comes q s)"
    unfolding demo_comes_def using assms by (intro do_chan) simp_all
qed

lemma demo_comes_first:
  "ft_group s (demo_url) = None \<Longrightarrow>
     ft_turn (demo_comes q s) = (ft_turn s)(q := T_own) \<and> ft_call (demo_comes q s) = (ft_call s)(q := Call_runs) \<and>
     ft_group (demo_comes q s) = (ft_group s)(demo_url \<mapsto> q)"
  by (simp add: demo_comes_def ft_DoChan_def sf_map_def)

lemma demo_comes_later:
  "ft_group s (demo_url) = Some c \<Longrightarrow> c \<noteq> q \<Longrightarrow>
     ft_turn (demo_comes q s) = (ft_turn s)(q := T_wait c) \<and> ft_call (demo_comes q s) = ft_call s \<and>
     ft_group (demo_comes q s) = ft_group s"
  by (simp add: demo_comes_def ft_DoChan_def sf_map_def)

lemma demo_comes_parts [simp]:
  "ft_h (demo_comes q s) = demo_once" "ft_crashed (demo_comes q s) = ft_crashed s" "ft_forgets (demo_comes q s) = ft_forgets s"
  "ft_w (demo_comes q s) = (ft_w s)(q := tr_log demo_traffic q)"
  by (simp_all add: demo_comes_def ft_DoChan_def split: prod.split)

lemma demo_start_parts [simp]:
  "ft_h demo_start_flights = demo_once" "\<not> ft_crashed demo_start_flights" "ft_forgets demo_start_flights = (\<lambda>_. 0)"
  "ft_turn demo_start_flights = (\<lambda>_. T_new)" "ft_call demo_start_flights = (\<lambda>_. Call_none)"
  "ft_group demo_start_flights = Map.empty" "ft_w demo_start_flights = tr_log demo_traffic"
  by (simp_all add: demo_start_flights_def flights_start_def sf_map_def)

lemma demo_flights_run:
  assumes "(flight_step sf_map demo_traffic)\<^sup>*\<^sup>* demo_start_flights s" "ft_turn s q = T_new" "ft_h s = demo_once" "\<not> ft_crashed s"
  shows "(flight_step sf_map demo_traffic)\<^sup>*\<^sup>* demo_start_flights (demo_comes q s)"
proof -
  obtain s1 where "flight_step sf_map demo_traffic s s1" "flight_step sf_map demo_traffic s1 (demo_comes q s)"
    by (rule demo_comes [OF assms(2-4)])
  from rtranclp_trans [OF assms(1) steps_over [OF this]] show ?thesis .
qed

theorem one_flight_per_key_witness:
  "\<exists>s. (flight_step sf_map demo_traffic)\<^sup>*\<^sup>* (flights_start sf_map demo_traffic demo_once) s \<and>
     flying demo_traffic (demo_url) s = {1, 2} \<and> ft_forgets s (demo_url) = 1 \<and>
     card (flying demo_traffic (demo_url) s) \<le> 2"
proof -
  define s1 where "s1 = demo_comes 1 demo_start_flights"
  define s2 where "s2 = ft_forget sf_map demo_traffic 1 s1"
  define s3 where "s3 = demo_comes 2 s2"
  have s1: "ft_turn s1 = (\<lambda>_. T_new)(1 := T_own)" "ft_call s1 = (\<lambda>_. Call_none)(1 := Call_runs)"
    using demo_comes_first [of demo_start_flights 1] by (simp_all add: s1_def)
  have "(flight_step sf_map demo_traffic)\<^sup>*\<^sup>* demo_start_flights s1"
    unfolding s1_def by (rule demo_flights_run) simp_all
  moreover have "flight_step sf_map demo_traffic s1 s2"
    unfolding s2_def by (rule own_minute) (simp_all add: s1, simp add: s1_def)
  ultimately have r2: "(flight_step sf_map demo_traffic)\<^sup>*\<^sup>* demo_start_flights s2" by (rule rtranclp.rtrancl_into_rtrancl)
  have s2: "ft_group s2 (demo_url) = None" "ft_call s2 = ft_call s1" "ft_turn s2 2 = T_new" "ft_h s2 = demo_once"
    "\<not> ft_crashed s2" "ft_forgets s2 (demo_url) = 1"
    by (simp_all add: s2_def ft_forget_def s1 sf_map_def) (simp_all add: s1_def)
  have r3: "(flight_step sf_map demo_traffic)\<^sup>*\<^sup>* demo_start_flights s3"
    unfolding s3_def by (rule demo_flights_run [OF r2 s2(3-5)])
  have "ft_call s3 = (\<lambda>_. Call_none)(1 := Call_runs, 2 := Call_runs)" "ft_forgets s3 (demo_url) = 1"
    using demo_comes_first [OF s2(1), of 2] s2(2,6) s1(2) by (simp_all add: s3_def)
  then have "flying demo_traffic (demo_url) s3 = {1, 2}" "ft_forgets s3 (demo_url) = 1"
    by (auto simp: flying_def)
  with one_flight_per_key [OF sf_map_documented r3 [unfolded demo_start_flights_def], of "demo_url"] r3
  show ?thesis unfolding demo_start_flights_def by auto
qed

text \<open>The backend cannot be reached: the request gets a 502.\<close>

lemma demo_no_backend:
  "proxied (reverseProxy (demo_env_7\<lparr>se_backend := \<lambda>_ _. None\<rparr>) b k r w demo_once)
     = (Returns (), rp_ErrorHandler (hd_cfg demo_once) (hl_set_header (hl_Header w) w), demo_once)"
  by (simp add: reverseProxy_def proxied_def demo_env_7_def demo_env1_def Let_def split: prod.split)



theorem waiting_requests_stampede_witness:
  "\<exists>s. (flight_step sf_map demo_traffic)\<^sup>*\<^sup>* demo_start_flights s \<and> ft_turn s 2 = T_direct True \<and>
     ft_turn s 3 = T_direct True \<and> ft_forgets s demo_url = 0"
proof -
  let ?ev = "demo_env_7\<lparr>se_backend := \<lambda>_ _. None\<rparr>"
  define s1 where "s1 = demo_comes 1 demo_start_flights"
  define s2 where "s2 = demo_comes 2 s1"
  define s3 where "s3 = demo_comes 3 s2"
  have s1: "ft_turn s1 = (\<lambda>_. T_new)(1 := T_own)" "ft_call s1 1 = Call_runs" "ft_group s1 demo_url = Some 1"
    using demo_comes_first [of demo_start_flights 1] by (simp_all add: s1_def)
  have s2: "ft_turn s2 = (\<lambda>_. T_new)(1 := T_own, 2 := T_wait 1)" "ft_call s2 1 = Call_runs" "ft_group s2 demo_url = Some 1"
    using demo_comes_later [OF s1(3), of 2] s1 by (simp_all add: s2_def)
  have s3: "ft_turn s3 = (\<lambda>_. T_new)(1 := T_own, 2 := T_wait 1, 3 := T_wait 1)" "ft_call s3 1 = Call_runs"
    using demo_comes_later [OF s2(3), of 3] s2 by (simp_all add: s3_def)
  have p: "ft_h s3 = demo_once" "\<not> ft_crashed s3" "ft_forgets s3 = (\<lambda>_. 0)" by (simp_all add: s3_def s2_def s1_def)
  have r1: "(flight_step sf_map demo_traffic)\<^sup>*\<^sup>* demo_start_flights s1"
    unfolding s1_def by (rule demo_flights_run) simp_all
  have r2: "(flight_step sf_map demo_traffic)\<^sup>*\<^sup>* demo_start_flights s2"
    unfolding s2_def by (rule demo_flights_run [OF r1]) (simp_all add: s1, simp_all add: s1_def)
  have r3: "(flight_step sf_map demo_traffic)\<^sup>*\<^sup>* demo_start_flights s3"
    unfolding s3_def by (rule demo_flights_run [OF r2]) (simp_all add: s2, simp_all add: s2_def s1_def)
  obtain s4 where s4: "ft_flight sf_map demo_traffic ?ev 1 s3 = Some s4" "ft_turn s4 = ft_turn s3"
    "ft_call s4 1 = Call_ended" "\<not> ft_crashed s4" "ft_h s4 = demo_once" "ft_forgets s4 = ft_forgets s3"
    using p(1,2) by (simp add: ft_flight_def demo_no_backend)
  have r4: "(flight_step sf_map demo_traffic)\<^sup>*\<^sup>* demo_start_flights s4"
    by (rule rtranclp.rtrancl_into_rtrancl [OF r3 flight [OF p(2) s3(2) demo_env_7 s4(1)]])
  have "\<forall>q\<in>set [2, 3]. ft_turn s4 q = T_wait 1" "distinct [2::nat, 3]" using s4(2) s3(1) by simp_all
  from waiting_requests_stampede [OF this(2,1) s4(3,4) demo_env_7, where S = sf_map] s4(5,6) p(3) demo_once(3)
  obtain s5 where "(flight_step sf_map demo_traffic)\<^sup>*\<^sup>* s4 s5" "\<forall>q\<in>set [2, 3]. ft_turn s5 q = T_direct True"
    "ft_forgets s5 = (\<lambda>_. 0)" by auto
  then show ?thesis using rtranclp_trans [OF r4] by (intro exI [of _ s5]) auto
qed

text \<open>A response that is not cachable and whose body breaks off.\<close>

definition demo_broken :: http_response where
  "demo_broken = demo_response\<lparr>rs_StatusCode := 500, hp_ReadErr := True\<rparr>"

theorem broken_response_ends_process_witness:
  "\<exists>s s'. (flight_step sf_map demo_traffic)\<^sup>*\<^sup>* demo_start_flights s \<and> ft_turn s 2 = T_wait 1 \<and>
     flight_step sf_map demo_traffic s s' \<and> ft_crashed s' \<and> (\<forall>s''. \<not> flight_step sf_map demo_traffic s' s'')"
proof -
  let ?ev = "demo_env_7\<lparr>se_backend := \<lambda>_ _. Some demo_broken\<rparr>"
  define s1 where "s1 = demo_comes 1 demo_start_flights"
  define s2 where "s2 = demo_comes 2 s1"
  have s1: "ft_turn s1 = (\<lambda>_. T_new)(1 := T_own)" "ft_call s1 1 = Call_runs" "ft_group s1 demo_url = Some 1"
    using demo_comes_first [of demo_start_flights 1] by (simp_all add: s1_def)
  have s2: "ft_turn s2 2 = T_wait 1" "ft_call s2 1 = Call_runs" "ft_h s2 = demo_once" "\<not> ft_crashed s2"
    using demo_comes_later [OF s1(3), of 2] s1 by (simp_all add: s2_def) (simp_all add: s1_def)
  have r1: "(flight_step sf_map demo_traffic)\<^sup>*\<^sup>* demo_start_flights s1"
    unfolding s1_def by (rule demo_flights_run) simp_all
  have r2: "(flight_step sf_map demo_traffic)\<^sup>*\<^sup>* demo_start_flights s2"
    unfolding s2_def by (rule demo_flights_run [OF r1]) (simp_all add: s1, simp_all add: s1_def)
  obtain uri req where d: "rp_Director (hd_cfg (ft_h s2)) True (tr_req demo_traffic 1) = (uri, req)" by fastforce
  have l: "se_limiter ?ev (tr_req demo_traffic 1) (hl_Header (ft_w s2 1)) = (None, hl_Header (ft_w s2 1))"
    by (simp add: demo_env_7_def demo_env1_def)
  have "\<not> snd (IsRespCachable (internalRules.truncate (hd_rules demo_once)) (response.truncate demo_broken))"
    by code_simp
  with broken_response_ends_process [OF s2(4) demo_env_7 l d, of demo_broken] s2(2,3)
  have "\<exists>s'. flight_step sf_map demo_traffic s2 s' \<and> ft_crashed s' \<and> (\<forall>s''. \<not> flight_step sf_map demo_traffic s' s'')"
    by (simp add: demo_broken_def)
  then show ?thesis using r2 s2(1) by blast
qed

end
