(* ===== verification/Handler_Conn.thy ===== *)
theory Handler_Conn
  imports Handler_Serve
begin

text \<open>
  The connections of the handler (\<open>httpsrv/handler/handler.go\<close>): the settings of the transport to the
  backend, and what becomes of the body that a client sends.
\<close>

section \<open>The transport\<close>

definition defaultTLSHandshakeTimeout :: duration where "defaultTLSHandshakeTimeout = Second * 10"
definition defaultResponseHeaderTimeout :: duration where "defaultResponseHeaderTimeout = Second * 60"
definition defaultExpectContinueTimeout :: duration where "defaultExpectContinueTimeout = Second * 1"
definition defaultIdleConnTimeout :: duration where "defaultIdleConnTimeout = Second * 30"

record transport =
  tp_DialTimeout :: duration
  tp_DialKeepAlive :: duration
  tp_DualStack :: bool
  tp_MaxIdleConns :: int
  tp_IdleConnTimeout :: duration
  tp_TLSHandshakeTimeout :: duration
  tp_ExpectContinueTimeout :: duration
  tp_ResponseHeaderTimeout :: duration
  tp_InsecureSkipVerify :: bool

definition roundTripper :: transport where
  "roundTripper = \<lparr>tp_DialTimeout = 30 * Second, tp_DialKeepAlive = 30 * Second, tp_DualStack = True,
     tp_MaxIdleConns = 100, tp_IdleConnTimeout = defaultIdleConnTimeout,
     tp_TLSHandshakeTimeout = defaultTLSHandshakeTimeout, tp_ExpectContinueTimeout = defaultExpectContinueTimeout,
     tp_ResponseHeaderTimeout = defaultResponseHeaderTimeout, tp_InsecureSkipVerify = True\<rparr>"

text \<open>The minute that requests wait for a flight.\<close>

definition timeoutInFligth :: duration where "timeoutInFligth = 60 * Second"

text \<open>
  By its own limits a request to the backend can take longer than the minute, so that those that
  wait for its flight give up on a backend that is within them.
\<close>

lemma backend_outlasts_flight:
  "timeoutInFligth < tp_DialTimeout roundTripper + tp_TLSHandshakeTimeout roundTripper + tp_ResponseHeaderTimeout roundTripper"
  "timeoutInFligth = tp_ResponseHeaderTimeout roundTripper"
  by (simp_all add: roundTripper_def timeoutInFligth_def defaultTLSHandshakeTimeout_def
      defaultResponseHeaderTimeout_def Second_def)

section \<open>The body of a request\<close>

text \<open>
  The body that \<open>net/http\<close> gives the handler: the bytes that are still to come, whether reading ends
  with an error, whether it was closed (reading a closed body fails), and whether there is a body
  at all.
\<close>

datatype client_body = No_body | Body (body_left: "byte list") (body_fails: bool) (body_closed: bool)

record conn_request =
  cr_Body :: client_body
  cr_Close :: bool

text \<open>\<open>io.Copy(ioutil.Discard, r.Body)\<close>: whether it fails, and the body after it.\<close>

definition discard_body :: "client_body \<Rightarrow> bool \<times> client_body" where
  "discard_body b =
     (case b of No_body \<Rightarrow> (False, No_body)
      | Body left fails shut \<Rightarrow> if shut then (True, b) else (fails, Body [] fails shut))"

definition close_body :: "client_body \<Rightarrow> client_body" where
  "close_body b = (case b of No_body \<Rightarrow> No_body | Body left fails shut \<Rightarrow> Body left fails True)"

text \<open>
  \<open>closeNotify\<close>: a goroutine is started when the writer says when the client goes (the log entry does
  not); it waits for that or for the cancellation, which its caller defers. The client's body is
  read to its end and closed.
\<close>

datatype close_watch = Watch_none | Watch_waits | Watch_over

definition closeNotify :: "bool \<Rightarrow> conn_request \<Rightarrow> close_watch \<times> conn_request" where
  "closeNotify notifier r =
     (let (err, b) = discard_body (cr_Body r) in
      (if notifier then Watch_waits else Watch_none,
       r\<lparr>cr_Body := close_body b, cr_Close := (cr_Close r \<or> err)\<rparr>))"

definition cancel_watch :: "close_watch \<Rightarrow> close_watch" where
  "cancel_watch w = (if w = Watch_waits then Watch_over else w)"

text \<open>The error handler of the proxy does the same with the request it was given, and marks it.\<close>

definition error_body :: "conn_request \<Rightarrow> conn_request" where
  "error_body r = r\<lparr>cr_Close := True, cr_Body := close_body (snd (discard_body (cr_Body r)))\<rparr>"

definition body_done :: "client_body \<Rightarrow> bool" where
  "body_done b \<longleftrightarrow> b = No_body \<or> (body_left b = [] \<and> body_closed b)"

text \<open>
  No byte of a body is left unread on a connection that is used again; after the deferred
  cancellation no goroutine waits; and closing twice makes the server close the connection.
\<close>

lemma closeNotify_done:
  assumes "body_done b \<or> b = Body left fails False" "closeNotify notifier \<lparr>cr_Body = b, cr_Close = c\<rparr> = (w, r)"
  shows "body_done (cr_Body r)" "cancel_watch w \<noteq> Watch_waits" "c \<longrightarrow> cr_Close r" "b = Body left True False \<longrightarrow> cr_Close r"
  using assms
  by (auto simp: closeNotify_def discard_body_def close_body_def body_done_def cancel_watch_def Let_def
      split: prod.splits client_body.splits if_splits)

lemma closeNotify_again:
  assumes "cr_Body r = Body left fails False"
  shows "cr_Close (snd (closeNotify n' (snd (closeNotify n r))))"
  using assms by (simp add: closeNotify_def discard_body_def close_body_def Let_def)

lemma error_body_done: "cr_Body r = Body left fails False \<Longrightarrow> body_done (cr_Body (error_body r)) \<and> cr_Close (error_body r)"
  by (simp add: error_body_def discard_body_def close_body_def body_done_def)

end
