(* ===== verification/VLog_Set.thy ===== *)
theory VLog_Set
  imports LSM Go_Strings Singleflight
begin

text \<open>
  \<open>VLog.Set\<close> (\<open>lsm/vlog.go\<close>) by many clients at once. \<open>vlog_Set\<close> of \<open>LSM\<close> is the call as one step;
  here a call is the steps between which others can come: the lookup of the channel, joining
  or making it under \<open>singleflight\<close>, the end of that, and the sending. A reader takes items from
  the channel it was started for.
\<close>

section \<open>Durations as text\<close>

text \<open>\<open>Duration.String\<close>: the flights of \<open>Set\<close> are told apart by the TTL as text.\<close>

definition fmtFrac :: "int \<Rightarrow> nat \<Rightarrow> string \<times> int" where
  "fmtFrac u prec =
     (let ds = map (\<lambda>i. u div 10 ^ (prec - 1 - i) mod 10) [0..<prec];
          shown = rev (dropWhile (\<lambda>d. d = 0) (rev ds)) in
      (if shown = [] then [] else CHR ''.'' # concat (map Itoa shown), u div 10 ^ prec))"

definition Duration_String :: "duration \<Rightarrow> string" where
  "Duration_String d =
     (let u = \<bar>d\<bar>;
          small = (\<lambda>prec unit. case fmtFrac u prec of (f, n) \<Rightarrow> Itoa n @ f @ unit);
          text =
            (if u < Second then
               (if u < 1000 then small 0 ''ns''
                else if u < 1000000 then small 3 [CHR 0xC2, CHR 0xB5, CHR ''s'']
                else small 6 ''ms'')
             else
               (case fmtFrac u 9 of (f, n) \<Rightarrow>
                  (if n div 60 = 0 then []
                   else (if n div 60 div 60 = 0 then [] else Itoa (n div 60 div 60) @ ''h'')
                     @ Itoa (n div 60 mod 60) @ ''m'') @ Itoa (n mod 60) @ f @ ''s'')) in
      if d = 0 then ''0s'' else if d < 0 then CHR ''-'' # text else text)"

lemma Duration_String_examples:
  "Duration_String (90 * Minute) = ''1h30m0s''" "Duration_String (1500 * 10 ^ 6) = ''1.5s''"
  "Duration_String 2500 = [CHR ''2'', CHR ''.'', CHR ''5'', CHR 0xC2, CHR 0xB5, CHR ''s'']"
  "Duration_String (- 7) = ''-7ns''" "Duration_String (60 * Second + 20 * 10 ^ 6) = ''1m0.02s''"
  by code_simp+

section \<open>The steps of a call\<close>

text \<open>
  Where a call is: not begun; it found no channel; it makes the channel, and has made it; it joined
  the call \<open>c\<close>; it sends to a channel; it has sent.
\<close>

datatype set_turn = S_new | S_miss | S_make | S_made | S_join nat | S_send nat | S_done nat

text \<open>
  A channel, with its reader: the reader's TTL, the calls whose items the reader has taken, and
  those whose items wait; \<open>vs_result c\<close> is the channel that the flight of call \<open>c\<close> made.
\<close>

record 'g vset =
  vs_ttlCh :: "int \<Rightarrow> nat option"
  vs_group :: 'g
  vs_reader :: "nat \<Rightarrow> duration option"
  vs_taken :: "nat \<Rightarrow> nat list"
  vs_queue :: "nat \<Rightarrow> nat list"
  vs_next :: nat
  vs_result :: "nat \<Rightarrow> nat option"
  vs_turn :: "nat \<Rightarrow> set_turn"

definition vset_New :: "'g singleflight \<Rightarrow> 'g vset" where
  "vset_New S = \<lparr>vs_ttlCh = (\<lambda>_. None), vs_group = sf_new S, vs_reader = (\<lambda>_. None),
     vs_taken = (\<lambda>_. []), vs_queue = (\<lambda>_. []), vs_next = 0,
     vs_result = (\<lambda>_. None), vs_turn = (\<lambda>_. S_new)\<rparr>"

definition ttlInt :: "duration \<Rightarrow> int" where "ttlInt ttl = f64_to_int (Seconds ttl)"

definition vs_goto :: "nat \<Rightarrow> set_turn \<Rightarrow> 'g vset \<Rightarrow> 'g vset" where
  "vs_goto p t s = s\<lparr>vs_turn := (vs_turn s)(p := t)\<rparr>"

definition vs_load :: "duration \<Rightarrow> nat \<Rightarrow> 'g vset \<Rightarrow> 'g vset" where
  "vs_load ttl p s = vs_goto p (case vs_ttlCh s (ttlInt ttl) of Some w \<Rightarrow> S_send w | None \<Rightarrow> S_miss) s"

definition vs_Do :: "'g singleflight \<Rightarrow> duration \<Rightarrow> nat \<Rightarrow> 'g vset \<Rightarrow> 'g vset" where
  "vs_Do S ttl p s =
     (case sf_Do S p (Duration_String ttl) (vs_group s) of
        (c, g) \<Rightarrow> vs_goto p (if c = p then S_make else S_join c) (s\<lparr>vs_group := g\<rparr>))"

text \<open>The function of the flight: the channel is made and stored, its reader starts.\<close>

definition vs_make :: "duration \<Rightarrow> nat \<Rightarrow> 'g vset \<Rightarrow> 'g vset" where
  "vs_make ttl p s = vs_goto p S_made
     (s\<lparr>vs_reader := (vs_reader s)(vs_next s \<mapsto> ttl), vs_ttlCh := (vs_ttlCh s)(ttlInt ttl \<mapsto> vs_next s),
        vs_result := (vs_result s)(p \<mapsto> vs_next s), vs_next := vs_next s + 1\<rparr>)"

definition vs_end :: "'g singleflight \<Rightarrow> duration \<Rightarrow> nat \<Rightarrow> nat \<Rightarrow> 'g vset \<Rightarrow> 'g vset" where
  "vs_end S ttl p w s = vs_goto p (S_send w) (s\<lparr>vs_group := sf_end S p (Duration_String ttl) (vs_group s)\<rparr>)"

inductive vset_step :: "'g singleflight \<Rightarrow> (nat \<Rightarrow> duration) \<Rightarrow> 'g vset \<Rightarrow> 'g vset \<Rightarrow> bool" for S ttl where
  load: "vs_turn s p = S_new \<Longrightarrow> vset_step S ttl s (vs_load (ttl p) p s)"
| do_flight: "vs_turn s p = S_miss \<Longrightarrow> vset_step S ttl s (vs_Do S (ttl p) p s)"
| make: "vs_turn s p = S_make \<Longrightarrow> vset_step S ttl s (vs_make (ttl p) p s)"
| end_flight: "vs_turn s p = S_made \<Longrightarrow> vs_result s p = Some w \<Longrightarrow> vset_step S ttl s (vs_end S (ttl p) p w s)"
| joined: "vs_turn s p = S_join c \<Longrightarrow> vs_result s c = Some w \<Longrightarrow> vset_step S ttl s (vs_goto p (S_send w) s)"
| send: "vs_turn s p = S_send w \<Longrightarrow> length (vs_queue s w) < defaultTransformBuffer \<Longrightarrow>
    vset_step S ttl s (vs_goto p (S_done w) (s\<lparr>vs_queue := (vs_queue s)(w := vs_queue s w @ [p])\<rparr>))"
| take: "vs_reader s w \<noteq> None \<Longrightarrow> vs_queue s w = p # q \<Longrightarrow>
    vset_step S ttl s (s\<lparr>vs_taken := (vs_taken s)(w := vs_taken s w @ [p]), vs_queue := (vs_queue s)(w := q)\<rparr>)"

section \<open>Every item is handed to one reader\<close>

definition same_ttl :: "duration \<Rightarrow> duration \<Rightarrow> bool" where
  "same_ttl t t' \<longleftrightarrow> ttlInt t = ttlInt t' \<or> Duration_String t = Duration_String t'"

text \<open>A channel that a call may send to has a reader, and is for its TTL.\<close>

definition chan_for :: "'g vset \<Rightarrow> nat \<Rightarrow> duration \<Rightarrow> bool" where
  "chan_for s w d \<longleftrightarrow> (\<exists>t. vs_reader s w = Some t \<and> same_ttl t d)"

definition vset_inv :: "('g \<Rightarrow> string \<Rightarrow> nat option) \<Rightarrow> (nat \<Rightarrow> duration) \<Rightarrow> 'g vset \<Rightarrow> bool" where
  "vset_inv call ttl s \<longleftrightarrow>
     (\<forall>w. vs_next s \<le> w \<longrightarrow> vs_reader s w = None) \<and>
     (\<forall>i w. vs_ttlCh s i = Some w \<longrightarrow> (\<exists>t. vs_reader s w = Some t \<and> ttlInt t = i)) \<and>
     (\<forall>c w. vs_result s c = Some w \<longrightarrow> (\<exists>t. vs_reader s w = Some t \<and> Duration_String t = Duration_String (ttl c))) \<and>
     (\<forall>k c. call (vs_group s) k = Some c \<longrightarrow> Duration_String (ttl c) = k) \<and>
     (\<forall>p c. vs_turn s p = S_join c \<longrightarrow> Duration_String (ttl c) = Duration_String (ttl p)) \<and>
     (\<forall>p w. vs_turn s p = S_send w \<or> vs_turn s p = S_done w \<longrightarrow> chan_for s w (ttl p)) \<and>
     (\<forall>w p. count_list (vs_taken s w @ vs_queue s w) p = (if vs_turn s p = S_done w then 1 else 0))"

lemma vset_invD:
  assumes "vset_inv call ttl s"
  shows vs_fresh: "vs_next s \<le> w \<Longrightarrow> vs_reader s w = None"
    and vs_stored: "vs_ttlCh s i = Some w \<Longrightarrow> \<exists>t. vs_reader s w = Some t \<and> ttlInt t = i"
    and vs_made: "vs_result s c = Some w \<Longrightarrow> \<exists>t. vs_reader s w = Some t \<and> Duration_String t = Duration_String (ttl c)"
    and vs_flies: "call (vs_group s) k = Some c \<Longrightarrow> Duration_String (ttl c) = k"
    and vs_joined: "vs_turn s p = S_join c \<Longrightarrow> Duration_String (ttl c) = Duration_String (ttl p)"
    and vs_sends: "vs_turn s p = S_send w \<or> vs_turn s p = S_done w \<Longrightarrow> chan_for s w (ttl p)"
    and vs_count: "count_list (vs_taken s w @ vs_queue s w) p = (if vs_turn s p = S_done w then 1 else 0)"
  using assms unfolding vset_inv_def by blast+

lemma vs_goto_simps [simp]:
  "vs_ttlCh (vs_goto p t s) = vs_ttlCh s" "vs_group (vs_goto p t s) = vs_group s" "vs_reader (vs_goto p t s) = vs_reader s"
  "vs_taken (vs_goto p t s) = vs_taken s" "vs_queue (vs_goto p t s) = vs_queue s"
  "vs_next (vs_goto p t s) = vs_next s" "vs_result (vs_goto p t s) = vs_result s"
  "vs_turn (vs_goto p t s) = (vs_turn s)(p := t)"
  by (simp_all add: vs_goto_def)

text \<open>A step that only moves a call on, and not to its end.\<close>

lemma vset_inv_goto:
  assumes "vset_inv call ttl s" "\<forall>w. vs_turn s p \<noteq> S_done w" "\<forall>w. t \<noteq> S_done w"
    and "\<And>c. t = S_join c \<Longrightarrow> Duration_String (ttl c) = Duration_String (ttl p)"
    and "\<And>w. t = S_send w \<Longrightarrow> chan_for s w (ttl p)"
  shows "vset_inv call ttl (vs_goto p t s)"
  using assms unfolding vset_inv_def by (auto simp: chan_for_def)

lemma vset_inv_group:
  assumes "vset_inv call ttl s" "\<And>k c. call g k = Some c \<Longrightarrow> Duration_String (ttl c) = k"
  shows "vset_inv call ttl (s\<lparr>vs_group := g\<rparr>)"
  using assms unfolding vset_inv_def chan_for_def by simp

lemma vset_inv_make:
  assumes "vset_inv call ttl s" "vs_turn s p = S_make"
  shows "vset_inv call ttl (vs_make (ttl p) p s)"
proof -
  let ?w = "vs_next s"
  have none: "vs_reader s ?w = None" using vs_fresh [OF assms(1)] by simp
  have new: "\<forall>i. vs_ttlCh s i \<noteq> Some ?w" "\<forall>c. vs_result s c \<noteq> Some ?w"
    "\<forall>p. vs_turn s p \<noteq> S_send ?w \<and> vs_turn s p \<noteq> S_done ?w"
    using vs_stored [OF assms(1), of _ ?w] vs_made [OF assms(1), of _ ?w] vs_sends [OF assms(1), of _ ?w] none
    by (auto simp: chan_for_def)
  show ?thesis using assms new unfolding vset_inv_def vs_make_def
    by (auto simp: chan_for_def)
qed

text \<open>A step that moves items, and perhaps the end of a call.\<close>

lemma vset_inv_items:
  assumes "vset_inv call ttl s" "\<And>w q. count_list (tk w @ qu w) q = (if ((vs_turn s)(p := t)) q = S_done w then 1 else 0)"
    and "t = vs_turn s p \<or> (\<exists>w. t = S_done w \<and> vs_turn s p = S_send w)"
  shows "vset_inv call ttl (vs_goto p t (s\<lparr>vs_taken := tk, vs_queue := qu\<rparr>))"
  using assms(1,3) unfolding vset_inv_def by (simp add: assms(2) chan_for_def del: count_list_append) fastforce

lemma vset_inv_send:
  assumes "vset_inv call ttl s" "vs_turn s p = S_send w"
  shows "vset_inv call ttl (vs_goto p (S_done w) (s\<lparr>vs_queue := (vs_queue s)(w := vs_queue s w @ [p])\<rparr>))"
proof -
  have "count_list (vs_taken s v @ vs_queue s v) p = 0" for v using vs_count [OF assms(1)] assms(2) by simp
  then have "count_list (vs_taken s v @ ((vs_queue s)(w := vs_queue s w @ [p])) v) q
      = (if ((vs_turn s)(p := S_done w)) q = S_done v then 1 else 0)" for v q
    using vs_count [OF assms(1), of v q] by (cases "q = p"; cases "v = w") auto
  from vset_inv_items [OF assms(1) this] assms(2) show ?thesis by (simp add: fun_upd_def)
qed

lemma vset_inv_take:
  assumes "vset_inv call ttl s" "vs_queue s w = p # q"
  shows "vset_inv call ttl (s\<lparr>vs_taken := (vs_taken s)(w := vs_taken s w @ [p]), vs_queue := (vs_queue s)(w := q)\<rparr>)"
proof -
  have "count_list (((vs_taken s)(w := vs_taken s w @ [p])) v @ ((vs_queue s)(w := q)) v) a
      = (if ((vs_turn s)(0 := vs_turn s 0)) a = S_done v then 1 else 0)" for v a
    using vs_count [OF assms(1), of v a] assms(2) by (auto split: if_splits)
  from vset_inv_items [OF assms(1) this] show ?thesis by (simp add: vs_goto_def fun_upd_def)
qed

lemma vset_inv_load:
  assumes "vset_inv call ttl s" "vs_turn s p = S_new"
  shows "vset_inv call ttl (vs_load (ttl p) p s)"
  unfolding vs_load_def
proof (rule vset_inv_goto [OF assms(1)])
  show "chan_for s w (ttl p)" if "(case vs_ttlCh s (ttlInt (ttl p)) of Some w \<Rightarrow> S_send w | None \<Rightarrow> S_miss) = S_send w" for w
    using that vs_stored [OF assms(1), of "ttlInt (ttl p)" w]
    by (auto simp: chan_for_def same_ttl_def split: option.splits)
qed (use assms(2) in \<open>auto split: option.splits\<close>)

lemma vset_inv_Do:
  assumes "singleflight_documented S call" "vset_inv call ttl s" "vs_turn s p = S_miss"
  shows "vset_inv call ttl (vs_Do S (ttl p) p s)"
proof -
  obtain c g where d: "sf_Do S p (Duration_String (ttl p)) (vs_group s) = (c, g)" by fastforce
  note j = vs_flies [OF assms(2)]
  have g: "call g k = Some a \<Longrightarrow> Duration_String (ttl a) = k" for k a
    by (rule sf_Do_cases [OF assms(1) d]) (use j in \<open>auto split: if_splits\<close>)
  have c: "c \<noteq> p \<Longrightarrow> Duration_String (ttl c) = Duration_String (ttl p)"
    by (rule sf_Do_cases [OF assms(1) d]) (use j in auto)
  show ?thesis unfolding vs_Do_def d prod.case
    by (rule vset_inv_goto [OF vset_inv_group [OF assms(2) g]]) (use assms(3) c in \<open>auto split: if_splits\<close>)
qed

lemma vset_inv_end:
  assumes "singleflight_documented S call" "vset_inv call ttl s" "vs_turn s p = S_made" "vs_result s p = Some w"
  shows "vset_inv call ttl (vs_end S (ttl p) p w s)"
proof -
  have g: "call (sf_end S p (Duration_String (ttl p)) (vs_group s)) k = Some a \<Longrightarrow> Duration_String (ttl a) = k" for k a
    using vs_flies [OF assms(2), of k a] by (simp add: sf_call_end [OF assms(1)] split: if_splits)
  have "chan_for s w (ttl p)" using vs_made [OF assms(2,4)] by (auto simp: chan_for_def same_ttl_def)
  then show ?thesis unfolding vs_end_def
    by - (rule vset_inv_goto [OF vset_inv_group [OF assms(2) g]], simp_all add: assms(3) chan_for_def)
qed

lemma vset_inv_join:
  assumes "vset_inv call ttl s" "vs_turn s p = S_join c" "vs_result s c = Some w"
  shows "vset_inv call ttl (vs_goto p (S_send w) s)"
proof -
  have "chan_for s w (ttl p)"
    using vs_made [OF assms(1,3)] vs_joined [OF assms(1,2)] by (auto simp: chan_for_def same_ttl_def)
  then show ?thesis by (intro vset_inv_goto assms(1)) (simp_all add: assms(2))
qed

lemma vset_inv_step:
  assumes "singleflight_documented S call" "vset_step S ttl s s'" "vset_inv call ttl s"
  shows "vset_inv call ttl s'"
  using assms(2)
proof cases
  case (load p)
  show ?thesis unfolding load(1) by (rule vset_inv_load [OF assms(3) load(2)])
next
  case (do_flight p)
  show ?thesis unfolding do_flight(1) by (rule vset_inv_Do [OF assms(1,3) do_flight(2)])
next
  case (make p)
  show ?thesis unfolding make(1) by (rule vset_inv_make [OF assms(3) make(2)])
next
  case (end_flight p w)
  show ?thesis unfolding end_flight(1) by (rule vset_inv_end [OF assms(1,3) end_flight(2,3)])
next
  case (joined p c w)
  show ?thesis unfolding joined(1) by (rule vset_inv_join [OF assms(3) joined(2,3)])
next
  case (send p w)
  show ?thesis unfolding send(1) by (rule vset_inv_send [OF assms(3) send(2)])
next
  case (take w p q)
  show ?thesis unfolding take(1) by (rule vset_inv_take [OF assms(3) take(3)])
qed

lemma vset_reach_inv:
  assumes "singleflight_documented S call" "(vset_step S ttl)\<^sup>*\<^sup>* (vset_New S) s"
  shows "vset_inv call ttl s"
  using assms(2)
proof (induction rule: rtranclp_induct)
  case base
  show ?case by (simp add: vset_inv_def vset_New_def sf_call_new [OF assms(1)])
next
  case (step y z)
  then show ?case using vset_inv_step [OF assms(1)] by blast
qed


section \<open>Readers that nobody sends to any more\<close>

text \<open>
  A channel that no lookup finds, that nobody is about to send to, and whose flight is over.
\<close>

definition orphan :: "('g \<Rightarrow> string \<Rightarrow> nat option) \<Rightarrow> nat \<Rightarrow> 'g vset \<Rightarrow> bool" where
  "orphan call w s \<longleftrightarrow> w < vs_next s \<and> (\<forall>i. vs_ttlCh s i \<noteq> Some w) \<and> (\<forall>p. vs_turn s p \<noteq> S_send w) \<and>
     (\<forall>c. vs_result s c = Some w \<longrightarrow> (\<forall>k. call (vs_group s) k \<noteq> Some c) \<and> (\<forall>p. vs_turn s p \<noteq> S_join c) \<and>
        (\<exists>v. vs_turn s c = S_done v))"

lemma orphan_goto:
  assumes "orphan call w s" "\<forall>v. vs_turn s p \<noteq> S_done v" "t \<noteq> S_send w"
    and "\<And>c. t = S_join c \<Longrightarrow> vs_result s c \<noteq> Some w"
  shows "orphan call w (vs_goto p t s)"
  using assms unfolding orphan_def by auto

lemma orphan_group:
  assumes "orphan call w s" "\<And>k c. vs_result s c = Some w \<Longrightarrow> call g k \<noteq> Some c"
  shows "orphan call w (s\<lparr>vs_group := g\<rparr>)"
  using assms unfolding orphan_def by auto

lemma orphan_make:
  assumes "orphan call w s" "vs_turn s p = S_make"
  shows "orphan call w (vs_make ttl p s)"
  using assms unfolding orphan_def vs_make_def by auto

lemma orphan_Do:
  assumes "singleflight_documented S call" "orphan call w s" "vs_turn s p = S_miss"
  shows "orphan call w (vs_Do S ttl p s)"
proof -
  obtain c g where d: "sf_Do S p (Duration_String ttl) (vs_group s) = (c, g)" by fastforce
  have o: "vs_result s b = Some w \<Longrightarrow> call (vs_group s) k \<noteq> Some b" "vs_result s b = Some w \<Longrightarrow> b \<noteq> p" for b k
    using assms(2,3) unfolding orphan_def by auto
  have g: "call g k \<noteq> Some b" if "vs_result s b = Some w" for b k
    by (rule sf_Do_cases [OF assms(1) d]) (use o [OF that] in \<open>auto split: if_splits\<close>)
  have c: "vs_result s c \<noteq> Some w"
    by (rule sf_Do_cases [OF assms(1) d]) (use o in auto)
  show ?thesis unfolding vs_Do_def d prod.case
    by (rule orphan_goto [OF orphan_group [OF assms(2) g]]) (use assms(3) c in \<open>auto split: if_splits\<close>)
qed

lemma orphan_end:
  assumes "singleflight_documented S call" "orphan call w s" "vs_turn s p = S_made" "vs_result s p = Some v"
  shows "orphan call w (vs_end S ttl p v s)"
proof -
  have "v \<noteq> w" using assms(2-4) unfolding orphan_def by auto
  moreover have "call (sf_end S p (Duration_String ttl) (vs_group s)) k \<noteq> Some b" if "vs_result s b = Some w" for b k
    using assms(2) that unfolding orphan_def by (auto simp: sf_call_end [OF assms(1)])
  ultimately show ?thesis unfolding vs_end_def
    by - (rule orphan_goto [OF orphan_group [OF assms(2)]], auto simp: assms(3))
qed

lemma orphan_step:
  assumes "singleflight_documented S call" "vset_step S ttl s s'" "orphan call w s"
  shows "orphan call w s' \<and> set (vs_taken s' w @ vs_queue s' w) = set (vs_taken s w @ vs_queue s w)"
proof -
  have other: "v \<noteq> w" if "vs_turn s p = S_send v" for p v using assms(3) that unfolding orphan_def by auto
  show ?thesis using assms(2)
  proof cases
    case (load p)
    have "orphan call w s'" unfolding load(1) vs_load_def
      by (rule orphan_goto [OF assms(3)])
        (use load(2) assms(3) in \<open>auto simp: orphan_def split: option.splits\<close>)
    then show ?thesis by (simp add: load(1) vs_load_def)
  next
    case (do_flight p)
    then show ?thesis using orphan_Do [OF assms(1,3)] by (simp add: vs_Do_def split: prod.split)
  next
    case (make p)
    then show ?thesis using orphan_make [OF assms(3)] by (simp add: vs_make_def)
  next
    case (end_flight p v)
    then show ?thesis using orphan_end [OF assms(1,3)] by (simp add: vs_end_def)
  next
    case (joined p c v)
    have "v \<noteq> w" using joined(2,3) assms(3) unfolding orphan_def by auto
    then have "orphan call w s'" unfolding joined(1)
      by - (rule orphan_goto [OF assms(3)], auto simp: joined(2))
    then show ?thesis by (simp add: joined(1))
  next
    case (send p v)
    have "orphan call w s'" unfolding send(1)
      using send(2) assms(3) unfolding orphan_def by auto
    then show ?thesis using other [OF send(2)] by (simp add: send(1))
  next
    case (take v p q)
    have "orphan call w s'" unfolding take(1) using assms(3) unfolding orphan_def by simp
    then show ?thesis using take(3) by (auto simp: take(1))
  qed
qed

text \<open>A call that found no channel, and has the flights for itself, makes one and sends to it.\<close>

lemma make_run:
  assumes "singleflight_documented S call" "vs_turn s p = S_miss" "call (vs_group s) = Map.empty"
    and "vs_queue s (vs_next s) = []"
  obtains s' where "(vset_step S ttl)\<^sup>*\<^sup>* s s'" "vs_turn s' = (vs_turn s)(p := S_done (vs_next s))"
    "vs_ttlCh s' = (vs_ttlCh s)(ttlInt (ttl p) \<mapsto> vs_next s)" "vs_next s' = vs_next s + 1"
    "vs_reader s' = (vs_reader s)(vs_next s \<mapsto> ttl p)" "vs_queue s' = (vs_queue s)(vs_next s := [p])"
    "vs_taken s' = vs_taken s" "vs_result s' = (vs_result s)(p \<mapsto> vs_next s)" "call (vs_group s') = Map.empty"
proof -
  let ?k = "Duration_String (ttl p)" and ?w = "vs_next s"
  obtain g where g: "sf_Do S p ?k (vs_group s) = (p, g)" "call g = [?k \<mapsto> p]"
    using sf_Do_first [OF assms(1), of "vs_group s" ?k p] assms(3) by auto
  define s1 where "s1 = vs_Do S (ttl p) p s"
  have s1: "s1 = vs_goto p S_make (s\<lparr>vs_group := g\<rparr>)" by (simp add: s1_def vs_Do_def g(1))
  define s2 where "s2 = vs_make (ttl p) p s1"
  define s3 where "s3 = vs_end S (ttl p) p ?w s2"
  define s4 where "s4 = vs_goto p (S_done ?w) (s3\<lparr>vs_queue := (vs_queue s3)(?w := vs_queue s3 ?w @ [p])\<rparr>)"
  have steps: "vset_step S ttl s s1" "vset_step S ttl s1 s2" "vset_step S ttl s2 s3" "vset_step S ttl s3 s4"
  proof -
    show "vset_step S ttl s s1" unfolding s1_def using assms(2) by (rule do_flight)
    show "vset_step S ttl s1 s2" unfolding s2_def by (rule make) (simp add: s1)
    show "vset_step S ttl s2 s3" unfolding s3_def by (rule end_flight) (simp_all add: s2_def vs_make_def s1)
    show "vset_step S ttl s3 s4" unfolding s4_def
      by (rule send) (simp_all add: s3_def vs_end_def s2_def vs_make_def s1 assms(4) defaultTransformBuffer_def)
  qed
  have run: "(vset_step S ttl)\<^sup>*\<^sup>* s s4"
    using rtranclp.rtrancl_into_rtrancl [where r = "vset_step S ttl", OF rtranclp.rtrancl_into_rtrancl [where r = "vset_step S ttl",
      OF rtranclp.rtrancl_into_rtrancl [where r = "vset_step S ttl", OF r_into_rtranclp [where r = "vset_step S ttl", OF steps(1)] steps(2)]
      steps(3)] steps(4)] .
  show thesis
    by (rule that [OF run])
      (simp_all add: s4_def s3_def vs_end_def s2_def vs_make_def s1 assms(4) sf_call_end [OF assms(1)] g(2))
qed

text \<open>
  When two calls with the same whole seconds both find no channel, and the second comes to
  \<open>singleflight\<close> when the first has left it, there are two channels with two readers, and the first
  reader, with its open file, waits for ever: nothing is sent to it any more.
\<close>

theorem vlog_Set_orphans_reader:
  assumes "singleflight_documented S call" "a \<noteq> b" "ttlInt (ttl a) = ttlInt (ttl b)"
  shows "\<exists>s. (vset_step S ttl)\<^sup>*\<^sup>* (vset_New S) s \<and> vs_turn s a = S_done 0 \<and> vs_turn s b = S_done 1 \<and>
    vs_reader s 0 = Some (ttl a) \<and> vs_reader s 1 = Some (ttl b) \<and>
    (\<forall>s'. (vset_step S ttl)\<^sup>*\<^sup>* s s' \<longrightarrow> set (vs_taken s' 0 @ vs_queue s' 0) = {a})"
proof -
  define s1 where "s1 = vs_goto a S_miss (vset_New S)"
  define s2 where "s2 = vs_goto b S_miss s1"
  have "vset_step S ttl (vset_New S) s1" "vset_step S ttl s1 s2"
    using load [of "vset_New S" a S ttl] load [of s1 b S ttl] assms(2)
    by (simp_all add: s1_def s2_def vs_load_def vset_New_def)
  then have r2: "(vset_step S ttl)\<^sup>*\<^sup>* (vset_New S) s2"
    by (rule converse_rtranclp_into_rtranclp [where r = "vset_step S ttl", OF _ r_into_rtranclp [where r = "vset_step S ttl"]])
  have e: "call (vs_group s2) = Map.empty" using sf_call_new [OF assms(1)] by (auto simp: s2_def s1_def vset_New_def)
  have m: "vs_turn s2 a = S_miss" using assms(2) by (simp add: s2_def s1_def)
  obtain s3 where r3: "(vset_step S ttl)\<^sup>*\<^sup>* s2 s3" and s3: "vs_turn s3 = (vs_turn s2)(a := S_done 0)"
    "vs_ttlCh s3 = [ttlInt (ttl a) \<mapsto> 0]" "vs_next s3 = 1" "vs_reader s3 = [0 \<mapsto> ttl a]"
    "vs_queue s3 = (\<lambda>_. [])(0 := [a])" "vs_taken s3 = (\<lambda>_. [])" "vs_result s3 = [a \<mapsto> 0]" "call (vs_group s3) = Map.empty"
    by (rule make_run [OF assms(1) m e, of ttl]) (simp_all add: s2_def s1_def vset_New_def)
  have m3: "vs_turn s3 b = S_miss" using assms(2) by (simp add: s3 s2_def)
  obtain s4 where r4: "(vset_step S ttl)\<^sup>*\<^sup>* s3 s4" and s4: "vs_turn s4 = (vs_turn s3)(b := S_done 1)"
    "vs_ttlCh s4 = (vs_ttlCh s3)(ttlInt (ttl b) \<mapsto> 1)" "vs_next s4 = 2" "vs_reader s4 = (vs_reader s3)(1 \<mapsto> ttl b)"
    "vs_queue s4 = (vs_queue s3)(1 := [b])" "vs_taken s4 = vs_taken s3" "vs_result s4 = (vs_result s3)(b \<mapsto> 1)"
    "call (vs_group s4) = Map.empty"
    by (rule make_run [OF assms(1) m3 s3(8), of ttl]) (simp_all add: s3)
  have o: "orphan call 0 s4"
    using assms(2,3) unfolding orphan_def by (auto simp: s4 s3 s2_def s1_def vset_New_def)
  have "orphan call 0 s' \<and> set (vs_taken s' 0 @ vs_queue s' 0) = {a}" if "(vset_step S ttl)\<^sup>*\<^sup>* s4 s'" for s'
    using that
  proof (induction rule: rtranclp_induct)
    case base
    then show ?case using o by (simp add: s4 s3)
  next
    case (step y z)
    then show ?case using orphan_step [OF assms(1) step.hyps(2)] by simp
  qed
  moreover have "(vset_step S ttl)\<^sup>*\<^sup>* (vset_New S) s4" using rtranclp_trans [OF rtranclp_trans [OF r2 r3] r4] .
  ultimately show ?thesis using assms(2) by (intro exI [of _ s4]) (simp add: s4 s3)
qed

section \<open>A call that is alone\<close>

text \<open>What lookups find: the items that wait in the channel of a TTL.\<close>

definition found_queue :: "'g vset \<Rightarrow> int \<Rightarrow> nat list option" where
  "found_queue s i = map_option (vs_queue s) (vs_ttlCh s i)"

lemma found_queue_send:
  assumes "vset_inv call ttl s" "vs_ttlCh s i = Some w" "vs_ttlCh s' = vs_ttlCh s" "vs_queue s' = (vs_queue s)(w := q)"
  shows "found_queue s' = (found_queue s)(i \<mapsto> q)"
proof (rule ext)
  fix j
  have "j = i" if "vs_ttlCh s j = Some w"
    using vs_stored [OF assms(1) that] vs_stored [OF assms(1,2)] by auto
  then show "found_queue s' j = ((found_queue s)(i \<mapsto> q)) j"
    using assms(2) by (cases "vs_ttlCh s j") (auto simp: found_queue_def assms(3,4))
qed

lemma found_queue_new:
  assumes "vset_inv call ttl s" "vs_ttlCh s' = (vs_ttlCh s)(i \<mapsto> vs_next s)" "vs_queue s' = (vs_queue s)(vs_next s := q)"
  shows "found_queue s' = (found_queue s)(i \<mapsto> q)"
proof (rule ext)
  fix j
  have "vs_ttlCh s j \<noteq> Some (vs_next s)"
    using vs_stored [OF assms(1), of j "vs_next s"] vs_fresh [OF assms(1), of "vs_next s"] by auto
  then show "found_queue s' j = ((found_queue s)(i \<mapsto> q)) j"
    by (cases "vs_ttlCh s j") (auto simp: found_queue_def assms(2,3))
qed

lemma vs_next_empty:
  assumes "vset_inv call ttl s"
  shows "vs_queue s (vs_next s) = []"
proof -
  have "vs_turn s a \<noteq> S_done (vs_next s)" for a
    using vs_sends [OF assms, of a "vs_next s"] vs_fresh [OF assms, of "vs_next s"] by (auto simp: chan_for_def)
  then have "count_list (vs_queue s (vs_next s)) a = 0" for a
    using vs_count [OF assms, of "vs_next s" a] by simp
  then have "\<forall>a. a \<notin> set (vs_queue s (vs_next s))" by (simp add: count_list_0_iff)
  then show ?thesis by simp
qed

lemma vset_alone:
  assumes "singleflight_documented S call" "vset_inv call ttl s" "vs_turn s p = S_new" "call (vs_group s) = Map.empty"
    and "\<forall>q. found_queue s (ttlInt (ttl p)) = Some q \<longrightarrow> length q < defaultTransformBuffer"
  shows "\<exists>s' w. (vset_step S ttl)\<^sup>*\<^sup>* s s' \<and> vs_turn s' p = S_done w \<and>
    found_queue s' = (found_queue s)(ttlInt (ttl p) \<mapsto>
      (case found_queue s (ttlInt (ttl p)) of None \<Rightarrow> [] | Some q \<Rightarrow> q) @ [p])"
proof (cases "vs_ttlCh s (ttlInt (ttl p))")
  case (Some w)
  have fq: "found_queue s (ttlInt (ttl p)) = Some (vs_queue s w)" by (simp add: found_queue_def Some)
  define s1 where "s1 = vs_goto p (S_send w) s"
  define s2 where "s2 = vs_goto p (S_done w) (s1\<lparr>vs_queue := (vs_queue s1)(w := vs_queue s1 w @ [p])\<rparr>)"
  have 1: "vset_step S ttl s s1" using load [of s p S ttl] assms(3) Some by (simp add: s1_def vs_load_def)
  have 2: "vset_step S ttl s1 s2" unfolding s2_def
    by (rule send) (use assms(5) fq in \<open>simp_all add: s1_def\<close>)
  have run: "(vset_step S ttl)\<^sup>*\<^sup>* s s2"
    by (rule converse_rtranclp_into_rtranclp [where r = "vset_step S ttl", OF 1 r_into_rtranclp [where r = "vset_step S ttl", OF 2]])
  have "found_queue s2 = (found_queue s)(ttlInt (ttl p) \<mapsto> vs_queue s w @ [p])"
    by (rule found_queue_send [OF assms(2) Some]) (simp_all add: s2_def s1_def)
  moreover have "vs_turn s2 p = S_done w" by (simp add: s2_def)
  ultimately show ?thesis using run unfolding fq option.case by blast
next
  case None
  have fq: "found_queue s (ttlInt (ttl p)) = None" by (simp add: found_queue_def None)
  define s1 where "s1 = vs_goto p S_miss s"
  have l: "vset_step S ttl s s1" using load [of s p S ttl] assms(3) None by (simp add: s1_def vs_load_def)
  have s1: "vs_turn s1 p = S_miss" "call (vs_group s1) = Map.empty" "vs_queue s1 (vs_next s1) = []"
    using assms(4) vs_next_empty [OF assms(2)] by (simp_all add: s1_def)
  obtain s2 where s2: "(vset_step S ttl)\<^sup>*\<^sup>* s1 s2" "vs_turn s2 = (vs_turn s1)(p := S_done (vs_next s1))"
    "vs_ttlCh s2 = (vs_ttlCh s1)(ttlInt (ttl p) \<mapsto> vs_next s1)" "vs_queue s2 = (vs_queue s1)(vs_next s1 := [p])"
    by (rule make_run [OF assms(1) s1])
  have "found_queue s2 = (found_queue s)(ttlInt (ttl p) \<mapsto> [p])"
    by (rule found_queue_new [OF assms(2)]) (simp_all add: s2(3,4) s1_def)
  moreover have "(vset_step S ttl)\<^sup>*\<^sup>* s s2"
    by (rule converse_rtranclp_into_rtranclp [where r = "vset_step S ttl", OF l s2(1)])
  moreover have "vs_turn s2 p = S_done (vs_next s1)" by (simp add: s2(2))
  ultimately show ?thesis unfolding fq option.case append_Nil by blast
qed

text \<open>
  With the channels of the cache read off in the same way, such a call does what \<open>vlog_Set\<close> does in
  one step: \<open>item\<close> gives the item of each call.
\<close>

lemma vlog_Set_is_call_alone:
  assumes "singleflight_documented S call" "(vset_step S ttl)\<^sup>*\<^sup>* (vset_New S) s" "vs_turn s p = S_new"
    and "call (vs_group s) = Map.empty" "map_of (ls_ttlCh t) = map_option (map item) \<circ> found_queue s"
    and "vlog_Set (item p) (ttl p) t = Some t'"
  shows "\<exists>s' w. (vset_step S ttl)\<^sup>*\<^sup>* s s' \<and> vs_turn s' p = S_done w \<and>
    map_of (ls_ttlCh t') = map_option (map item) \<circ> found_queue s'"
proof -
  let ?i = "ttlInt (ttl p)"
  have m: "map_of (ls_ttlCh t) ?i = map_option (map item) (found_queue s ?i)" using assms(5) by simp
  have "length q < defaultTransformBuffer" if "found_queue s ?i = Some q" for q
    using assms(6) m that by (simp add: vlog_Set_def Let_def ttlInt_def split: if_splits)
  then obtain s' w where s': "(vset_step S ttl)\<^sup>*\<^sup>* s s'" "vs_turn s' p = S_done w"
    "found_queue s' = (found_queue s)(?i \<mapsto> (case found_queue s ?i of None \<Rightarrow> [] | Some q \<Rightarrow> q) @ [p])"
    using vset_alone [OF assms(1) vset_reach_inv [OF assms(1,2)] assms(3,4)] by blast
  have u: "map_of (ls_ttlCh t') = (map_of (ls_ttlCh t))(?i \<mapsto>
      (case map_of (ls_ttlCh t) ?i of None \<Rightarrow> [] | Some q \<Rightarrow> q) @ [item p])"
  proof (cases "map_of (ls_ttlCh t) ?i")
    case None
    then have "t' = t\<lparr>ls_ttlCh := AList.update ?i [item p] (ls_ttlCh t), ls_reader := AList.update ?i (ttl p, None) (ls_reader t)\<rparr>"
      using assms(6) by (simp add: vlog_Set_def Let_def ttlInt_def)
    then show ?thesis using None by (simp add: update_conv')
  next
    case (Some q)
    then have "t' = t\<lparr>ls_ttlCh := AList.update ?i (q @ [item p]) (ls_ttlCh t)\<rparr>"
      using assms(6) by (simp add: vlog_Set_def Let_def ttlInt_def split: if_splits)
    then show ?thesis using Some by (simp add: update_conv')
  qed
  have "map_of (ls_ttlCh t') = map_option (map item) \<circ> found_queue s'"
    unfolding u s'(3) m unfolding assms(5) by (rule ext) (cases "found_queue s ?i"; simp)
  then show ?thesis using s' by blast
qed

theorem vlog_Set_orphans_reader_witness:
  "\<exists>s. (vset_step sf_map (\<lambda>p. if p = 3 then 2 * Hour else 2 * Hour + 1))\<^sup>*\<^sup>* (vset_New sf_map) s \<and>
     vs_reader s 0 = Some (2 * Hour) \<and> vs_reader s 1 = Some (2 * Hour + 1)"
proof -
  have "ttlInt (2 * Hour) = ttlInt (2 * Hour + 1)" by code_simp
  with vlog_Set_orphans_reader [OF sf_map_documented, of 3 4 "\<lambda>p. if p = 3 then 2 * Hour else 2 * Hour + 1"]
  show ?thesis by auto
qed


end
