(* ===== verification/User_Agent.thy ===== *)
theory User_Agent
  imports Http_Log
begin

text \<open>
  \<open>httpsrv/httplog/useragent.go\<close>: the class of a device. The parser writes its result into an object
  that goes round through a pool. The parser is third-party; what is used of it is that the
  result depends on the text and the object's former contents, and that \<open>Reset\<close> makes an object
  as good as new.
\<close>

record 'u uasurfer =
  us_zero :: 'u
  us_Parse :: "string \<Rightarrow> 'u \<Rightarrow> 'u"
  us_Reset :: "'u \<Rightarrow> 'u"
  us_DeviceType :: "'u \<Rightarrow> int"

definition reset_documented :: "'u uasurfer \<Rightarrow> bool" where
  "reset_documented U \<longleftrightarrow> (\<forall>u. us_Reset U u = us_zero U)"

text \<open>The class, and the pool after the call; \<open>i\<close> is the place of the object that the pool gives.\<close>

definition getUserAgentID :: "'u uasurfer \<Rightarrow> nat \<Rightarrow> string \<Rightarrow> 'u list \<Rightarrow> int \<times> 'u list" where
  "getUserAgentID U i s pool =
     (let (ua, rest) = (if i < length pool then (pool ! i, take i pool @ drop (Suc i) pool) else (us_zero U, pool));
          ua1 = us_Parse U s ua in
      (us_DeviceType U ua1, us_Reset U ua1 # rest))"

fun getUserAgentIDs :: "'u uasurfer \<Rightarrow> (nat \<times> string) list \<Rightarrow> 'u list \<Rightarrow> int list" where
  "getUserAgentIDs U [] pool = []"
| "getUserAgentIDs U ((i, s) # calls) pool =
     (case getUserAgentID U i s pool of (d, pool') \<Rightarrow> d # getUserAgentIDs U calls pool')"

text \<open>
  Whichever objects the pool gives, and whatever was parsed with them before, the class of a
  device depends on the text alone: it is what the parser says with a new object. So it can be
  a function in the cache key.
\<close>

theorem device_depends_on_text:
  assumes "reset_documented U" "set pool \<subseteq> {us_zero U}"
  shows "getUserAgentIDs U calls pool = map (\<lambda>(i, s). us_DeviceType U (us_Parse U s (us_zero U))) calls"
  using assms(2)
proof (induction calls arbitrary: pool)
  case (Cons c calls)
  obtain i s where c: "c = (i, s)" by (cases c)
  have "set (take i pool @ drop (Suc i) pool) \<subseteq> {us_zero U}"
    using Cons.prems set_take_subset [of i pool] set_drop_subset [of "Suc i" pool] by auto
  moreover have "i < length pool \<Longrightarrow> pool ! i = us_zero U" using Cons.prems nth_mem by blast
  ultimately show ?case
    using Cons.IH Cons.prems assms(1) by (auto simp: c getUserAgentID_def reset_documented_def Let_def)
qed simp

text \<open>A parser that counts the words of the text, over objects that keep what they counted.\<close>

definition demo_uasurfer :: "int uasurfer" where
  "demo_uasurfer = \<lparr>us_zero = 0, us_Parse = (\<lambda>s u. u + int (length s)), us_Reset = (\<lambda>_. 0), us_DeviceType = (\<lambda>u. u)\<rparr>"

theorem device_depends_on_text_witness:
  "getUserAgentIDs demo_uasurfer [(0, ''ab''), (0, ''abc''), (5, ''a'')] [] = [2, 3, 1] \<and>
   fst (getUserAgentID demo_uasurfer 0 ''ab'' [7]) = 9"
  using device_depends_on_text [of demo_uasurfer "[]" "[(0, ''ab''), (0, ''abc''), (5, ''a'')]"]
  by (simp add: reset_documented_def demo_uasurfer_def getUserAgentID_def)

end
