(* ===== verification/Log_Json.thy ===== *)
theory Log_Json
  imports Http_Metrics
begin

text \<open>
  What is published of a log entry (\<open>HTTPLog.MarshalJSON\<close> in \<open>httpsrv/httplog/httplog.go\<close>): the object
  that \<open>encoding/json\<close> makes of a structure, its exported fields under their names and in their
  order. How such an object is written as text is left to the library, which may fail.
\<close>

datatype json =
  J_null | J_bool bool | J_int int | J_float float64 | J_string string | J_time time
| J_list "json list" | J_object "(string \<times> json) list"

text \<open>
  The list of tags is \<open>nil\<close>, and so \<open>null\<close>, until \<open>WriteHeader\<close> has set it with the status. The field
  \<open>BackendIP\<close> is never set.
\<close>

definition json_tags :: "timedLog \<Rightarrow> json" where
  "json_tags hl = (if hl_StatusCode hl = 0 \<and> hl_CustomTags hl = [] then J_null
     else J_list (map J_string (hl_CustomTags hl)))"

definition log_fields :: "timedLog \<Rightarrow> (string \<times> json) list" where
  "log_fields hl =
     [(''Time'', J_time (ht_Time hl)), (''ClientIP'', J_string (hl_ClientIP hl)), (''BackendIP'', J_string []),
      (''Proto'', J_string (hl_Proto hl)), (''TLS'', J_bool (hl_TLS hl)), (''Method'', J_string (hl_Method hl)),
      (''StatusCode'', J_int (hl_StatusCode hl)), (''Schema'', J_string (hl_Schema hl)), (''Host'', J_string (hl_Host hl)),
      (''User'', J_string (hl_User hl)), (''URL'', J_string (hl_URL hl)), (''UserAgent'', J_string (hl_UserAgent hl)),
      (''Cookies'', J_int (hl_Cookies hl)), (''RespTTFMS'', J_float (ht_RespTTFMS hl)),
      (''RespTimeMS'', J_float (ht_RespTimeMS hl)), (''ReqBytes'', J_int (hl_ReqBytes hl)),
      (''RespBytes'', J_int (hl_RespBytes hl)), (''HIT'', J_bool (hl_HIT hl)), (''RateLimit'', J_bool (hl_RateLimit hl)),
      (''Device'', J_int (hl_Device hl)), (''CustomTags'', json_tags hl)]"

text \<open>The error is ignored: an entry that cannot be written is published as an empty message.\<close>

definition MarshalJSON :: "(json \<Rightarrow> byte list option) \<Rightarrow> timedLog \<Rightarrow> byte list" where
  "MarshalJSON text hl = (case text (J_object (log_fields hl)) of Some b \<Rightarrow> b | None \<Rightarrow> [])"

text \<open>A reader of the object gets all of the entry back but the writer.\<close>

fun j_string :: "json \<Rightarrow> string" where "j_string (J_string s) = s" | "j_string j = []"
fun j_int :: "json \<Rightarrow> int" where "j_int (J_int i) = i" | "j_int j = 0"
fun j_bool :: "json \<Rightarrow> bool" where "j_bool (J_bool b) = b" | "j_bool j = False"
fun j_float :: "json \<Rightarrow> float64" where "j_float (J_float f) = f" | "j_float j = 0"
fun j_time :: "json \<Rightarrow> time" where "j_time (J_time t) = t" | "j_time j = 0"
fun j_list :: "json \<Rightarrow> json list" where "j_list (J_list l) = l" | "j_list j = []"

definition field :: "json \<Rightarrow> string \<Rightarrow> json" where
  "field j k = (case j of J_object fs \<Rightarrow> (case map_of fs k of Some v \<Rightarrow> v | None \<Rightarrow> J_null) | _ \<Rightarrow> J_null)"

definition log_of_json :: "resp_writer \<Rightarrow> json \<Rightarrow> timedLog" where
  "log_of_json w j =
     \<lparr>hl_ClientIP = j_string (field j ''ClientIP''), hl_Proto = j_string (field j ''Proto''), hl_TLS = j_bool (field j ''TLS''),
      hl_Method = j_string (field j ''Method''), hl_StatusCode = j_int (field j ''StatusCode''),
      hl_Schema = j_string (field j ''Schema''), hl_Host = j_string (field j ''Host''), hl_User = j_string (field j ''User''),
      hl_URL = j_string (field j ''URL''), hl_UserAgent = j_string (field j ''UserAgent''),
      hl_Cookies = j_int (field j ''Cookies''), hl_ReqBytes = j_int (field j ''ReqBytes''),
      hl_RespBytes = j_int (field j ''RespBytes''), hl_HIT = j_bool (field j ''HIT''),
      hl_RateLimit = j_bool (field j ''RateLimit''), hl_Device = j_int (field j ''Device''),
      hl_CustomTags = map j_string (j_list (field j ''CustomTags'')), hl_w = w,
      ht_Time = j_time (field j ''Time''), ht_RespTTFMS = j_float (field j ''RespTTFMS''),
      ht_RespTimeMS = j_float (field j ''RespTimeMS'')\<rparr>"

lemma field_of_log:
  "(k, v) \<in> set (log_fields hl) \<Longrightarrow> field (J_object (log_fields hl)) k = v"
proof -
  have "distinct (map fst (log_fields hl))" by (simp add: log_fields_def)
  then show "(k, v) \<in> set (log_fields hl) \<Longrightarrow> field (J_object (log_fields hl)) k = v"
    by (simp add: field_def)
qed

lemma log_json_complete: "log_of_json (hl_w hl) (J_object (log_fields hl)) = hl"
proof -
  have f: "\<forall>(k, v)\<in>set (log_fields hl). field (J_object (log_fields hl)) k = v" using field_of_log by blast
  have t: "map j_string (j_list (json_tags hl)) = hl_CustomTags hl"
    by (simp add: json_tags_def o_def)
  show ?thesis using f by (cases hl) (simp add: log_of_json_def log_fields_def t [unfolded json_tags_def] json_tags_def o_def)
qed

text \<open>
  What subscribers get: every message is the text of an entry that was done, or empty; with
  different texts for different objects the entries can be told apart.
\<close>

lemma MarshalJSON_inject:
  assumes "MarshalJSON text a = MarshalJSON text b" "inj_on text (range J_object)"
    and "text (J_object (log_fields a)) \<noteq> None" "text (J_object (log_fields b)) \<noteq> None" "hl_w a = hl_w b"
  shows "a = b"
proof -
  have "text (J_object (log_fields a)) = text (J_object (log_fields b))"
    using assms(1,3,4) by (auto simp: MarshalJSON_def)
  then have "J_object (log_fields a) = J_object (log_fields b)" using assms(2) by (auto dest: inj_onD)
  then show ?thesis using log_json_complete [of a] log_json_complete [of b] assms(5) by metis
qed

end
