(* ===== verification/Spec2Isabelle.thy ===== *)
theory Spec2Isabelle
  imports KVSM_Props LSM_Props Cache_Rules_Props Handler_Range Item_Mem_Props Item_Disk_Props VLog_Props VLog_Reader
    Handler_Cache_Props Handler_Serve_Props Certs_Props Cert_Storage LSM_Queue_Props LSM_Start Proxy_Run Header_Pool
    Http_Metrics Log_Client Server_Listen Handler_Flight_Props Handler_Conn VLog_Set User_Agent Log_Json
begin

text \<open>
  A verification library for \<open>elinproxy\<close>, a caching reverse proxy written in Go.

  \<^bold>\<open>The program.\<close> A request arrives at \<open>Handler.ServeHTTP\<close> (\<open>httpsrv/handler/handler.go\<close>). Its log
  entry (\<open>httpsrv/httplog\<close>) gives the cache key; the rules (\<open>httpsrv/cacherules\<close>) say whether it may
  be answered from the cache. If so, the cache (\<open>lsm/lsm.go\<close>) is asked; it keeps responses in an
  in-memory store with a time to live (\<open>lsm/kvsm\<close>), whose values are items, in memory
  (\<open>lsm/itemMem.go\<close>) or on disk (\<open>lsm/itemDisk.go\<close>). Otherwise the request goes through the rate
  limiter to the backend, and on the way back \<open>modifyResponse\<close> copies the response into a new item
  and stores it. In the background, the worker of \<open>kvsm\<close> takes out what has expired and hands it
  to the eviction callback of \<open>lsm\<close>, which recycles items nobody uses; and one reader per TTL
  (\<open>lsm/vlog.go\<close>) moves responses with a long TTL into append-only files (\<open>lsm/vfile.go\<close>) and swaps
  the item on disk in for the item in memory. Beside this, \<open>certs\<close> keeps the TLS certificates,
  whose storage is an etcd, and \<open>httpsrv\<close> and \<open>main.go\<close> put the parts together. Finished requests
  are counted (\<open>httplog/metrics.go\<close>) and published on a socket, which the tool in \<open>client\<close> prints.

  \<^bold>\<open>Theories and code.\<close>
  \<^item> \<open>Prelude\<close>: facts on maps, lists and options. \<open>Go_Time\<close>, \<open>Go_IO\<close>, \<open>Go_Strings\<close>: what the
    source uses of Go's library (durations and \<open>ParseDuration\<close>, slices with their capacity, writers,
    \<open>io.Copy\<close>, \<open>ReadAt\<close>, \<open>strings\<close>, \<open>strconv\<close>); \<open>Http_Header\<close>: header fields, how they are written
    and how \<open>textproto\<close> reads them back. A panic is \<open>None\<close> of the type \<open>go\<close>.
  \<^item> \<open>Entry\<close>, \<open>Linked_List\<close> (\<open>kvsm/entry.go\<close>, \<open>kvsm/list.go\<close>): cells in a heap, the doubly linked
    list over them; \<open>dll\<close> is its representation predicate. \<open>KVSM\<close> (\<open>kvsm/kvsm.go\<close>): the state and
    every operation; \<open>kv_step\<close> interleaves clients and worker, one operation at a time.
    \<open>KVSM_Inv\<close>, \<open>KVSM_Spec\<close>, \<open>KVSM_Expiry\<close>, \<open>KVSM_Store\<close>, \<open>KVSM_Cells\<close>, \<open>KVSM_Props\<close>: its invariant
    \<open>kv_inv\<close>, the abstract store it refines, the rate of expiry, its lookups, what each operation
    does to the values it holds, its properties.
  \<^item> \<open>Cached_Item\<close>: the interfaces. The locale \<open>sink\<close> is what a destination of bytes promises, and
    \<open>cached_item\<close> what the interface \<open>Item\<close> of \<open>lsm/item.go\<close> does: lengths, whole body, range.
    \<open>Item_Mem\<close>, \<open>Item_Disk\<close>, \<open>Item_Ref\<close> (either of the two) provide it, and \<open>Http_Log\<close> and the
    file writer of \<open>VLog\<close> are sinks; \<open>Item_Mem_Props\<close> and \<open>Item_Disk_Props\<close> hold their properties.
    \<open>Header_Pool\<close> (\<open>lsm/pool.go\<close>): the readers of headers that go round through a pool, and what
    stays in them.
  \<^item> \<open>VFile\<close> (\<open>lsm/vfile.go\<close>), \<open>VLog\<close>, \<open>VLog_Props\<close>, \<open>VLog_Reader\<close>, \<open>VLog_Frame\<close> (\<open>lsm/vlog.go\<close>): the
    files, the record format, the reader's turn with its three tries and its rotation of files,
    what a turn leaves alone. \<open>VLog_Set\<close>: many calls of \<open>Set\<close> at once, step by step; a call
    that is alone is the \<open>vlog_Set\<close> of \<open>LSM\<close>.
  \<^item> \<open>LSM\<close>, \<open>LSM_Props\<close> (\<open>lsm/lsm.go\<close>, \<open>lsm/item.go\<close>): the cache over all of these; \<open>LSM_Start\<close>: its
    start, which empties the directory.
  \<^item> \<open>LSM_Run\<close>, \<open>LSM_Reach\<close>, \<open>LSM_Run_Props\<close>: runs of the cache. \<open>cache_step\<close> interleaves clients,
    worker, retries and readers, one call per step; a \<open>run\<close> carries, beside the cache, what was
    stored, which items are being filled and which are held, and \<open>run_inv\<close> says that each item has
    one owner. \<open>LSM_Queue_Props\<close>: what goes wrong with items that wait for a reader.
  \<^item> \<open>Cache_Rules\<close>, \<open>Cache_Rules_Parse\<close>, \<open>Cache_Rules_Props\<close> (\<open>httpsrv/cacherules\<close>); \<open>Http_Log\<close>,
    \<open>Http_Log_Props\<close> (\<open>httpsrv/httplog/httplog.go\<close>): the entry, the key, the wrapped writer.
    \<open>Http_Metrics\<close> (\<open>httplog.go\<close>, \<open>metrics.go\<close>): its clocks, the counters, the publication;
    \<open>Log_Json\<close>: what is published of an entry; \<open>User_Agent\<close> (\<open>useragent.go\<close>): the class of a device.
  \<^item> \<open>Handler_Range\<close> (\<open>parseRange\<close>), \<open>Handler\<close> (answers from the cache, requests to the backend,
    \<open>DumpResponse\<close>, the pool of buffers), \<open>Handler_Serve\<close> (\<open>modifyResponse\<close>, \<open>reverseProxy\<close>,
    \<open>ServeHTTP\<close>); \<open>Handler_Cache_Props\<close> and \<open>Handler_Serve_Props\<close>: what a client gets;
    \<open>Proxy_Run\<close>: the handler's storing and answering as steps of the runs of the cache.
    \<open>Handler_Flight\<close>, \<open>Handler_Flight_Props\<close>: many requests at once, with the flights of \<open>BackendOnce\<close>,
    over the group of \<open>Singleflight\<close>; \<open>Handler_Conn\<close>: the transport and the client's body.
  \<^item> \<open>Certs\<close>, \<open>Certs_Props\<close> (\<open>certs/certs.go\<close>, \<open>listcerts.go\<close>), \<open>Cert_Storage\<close> (\<open>certs/cache.go\<close>),
    \<open>Server\<close>, \<open>Server_Listen\<close> (\<open>httpsrv/httpsrv.go\<close>, \<open>const.go\<close>, \<open>main.go\<close>), \<open>Log_Client\<close> (\<open>client\<close>).

  \<^bold>\<open>What is shown.\<close> For the store: no operation panics in a reachable state, the tick refines an
  abstract scan, no key maps to a recycled cell, and how fast expired cells leave. For the cache:
  an item in use is not touched, a response moved to disk keeps its body, header, status and
  expiry, and cannot be told apart by its readers; in every run a lookup gives what was stored
  under its key, and no item has two owners. For the handler: a stored response is stored
  whole, and a later request with its key gets it back (this composes the handler, the rules,
  the log entry, the cache, the store and the item); in every run an answer from the cache is a
  response of the backend to a request with this key; ranges and their headers are right inside
  the body; private requests neither read nor fill the cache; the rate limit protects the
  backend. Among many requests one flight per key goes to the backend, every request comes to an
  end, and the single request of \<open>ServeHTTP\<close> is one of these. For certificates: a handshake gets a valid one. For the log: entries are counted, and
  published in order. Where the code does not do what it means to, the theorem states what it
  does: a range past the end of the body, a reload, a lookup that meets an eviction, an item that
  is stored again or recycled while it waits for a reader, a header that is too large, a response
  that breaks off in a flight, waiting requests that all go to the backend, a reader that nobody
  sends to.

  \<^bold>\<open>Parameters.\<close> The clock, the outcomes of system calls, the addresses that \<open>sync.Pool\<close> and the
  allocator give, the growth of slices, the iteration order of Go's maps (an association list in
  the order of the next iteration), and third-party code: the hash of the key (\<open>xxhash\<close>), the
  classification of user agents (\<open>uasurfer\<close>), the limiter (\<open>tollbooth\<close>), the backend behind
  \<open>httputil.ReverseProxy\<close>, the TOML decoder, the parser of keys, the ACME client, and etcd, whose
  documented behaviour is \<open>etcd_laws\<close>, the vectors of Prometheus (\<open>counters_documented\<close>),
  \<open>singleflight\<close> (\<open>singleflight_documented\<close>), the writing of JSON, and the sockets of \<open>mangos\<close>. The hash may collide: keys are compared as hashes.

  \<^bold>\<open>Termination.\<close> The sweep of the worker is a \<open>function\<close> with a measure: it visits at most one
  cell after the one it starts from. The read loop of an item on disk is a \<open>partial_function\<close>, for
  it may not end: \<open>itemDisk_read_ends\<close> and \<open>itemDisk_truncated_never_returns\<close> say when it does
  and when not. Calls that block for ever (a full channel) are \<open>Stuck\<close>. There is no fuel.

  \<^bold>\<open>Granularity.\<close> Each operation of the store, and each call of the cache, is one atomic step, but
  \<open>Get\<close> of the cache is also given as its two steps, lookup and mark, because an eviction can come
  between them. What concurrent requests do while one waits for the backend is the argument
  \<open>flight\<close> of \<open>ServeHTTP\<close>; in \<open>Handler_Flight\<close> they are there, one step being what a request does
  between two points at which it waits, in \<open>VLog_Set\<close> one access to what the calls share. The runs of the cache make three assumptions, each of which the code can
  break, and theorems say what happens then: \<open>Get\<close> is one step; an item that waits for a reader is
  not given out by the pool; of the writes of one try those that fail are the first, so that the
  reader notices (\<open>turn_noticed\<close>).

  \<^bold>\<open>Not modelled.\<close> Of \<open>httplog.go\<close> the text of an entry: \<open>MarshalString\<close>, which nothing uses, and how
  \<open>encoding/json\<close> writes numbers and times; of \<open>handler.go\<close> protocol upgrades and the parsing of the
  backend's URI by \<open>net/url\<close>; of \<open>certs\<close> \<open>HTTPChallengeHandler\<close>, which only passes on to
  \<open>certmagic\<close>; of \<open>vlog.go\<close> the list \<open>ttlMap\<close> and \<open>Get\<close>, which nothing uses. A header on disk that ends
  without an empty line is not parsed any further (\<open>Header_rereads\<close>). Log lines are left out
  everywhere. What the map does not cover is this, imports, comments and empty lines.
\<close>

end
